(* ===== verification/Prelude.thy ===== *)
theory Prelude
  imports Main "HOL-Library.Word" "HOL-Library.Monad_Syntax"
begin

unbundle bit_operations_syntax

section \<open>Shared vocabulary: machine integers, byte order and C arrays\<close>

text \<open>
  The router runs on a little-endian ARM core (\<^verbatim>\<open>configs/mv6281/mkdefs\<close>: the
  \<^verbatim>\<open>arm-mv5sft-linux-gnueabi\<close> tool chain), where \<^verbatim>\<open>int\<close> and \<^verbatim>\<open>long\<close> are 32 bits wide and
  \<^verbatim>\<open>char\<close> is unsigned.  This theory holds what every component uses of that machine:
  \<^item> the unsigned integer types as words, their memory image and the byte-order macros
    \<^verbatim>\<open>ntohl\<close>, \<^verbatim>\<open>ntohs\<close>;
  \<^item> a C array as a list of fixed length, with checked accesses: a read or a write outside
    the array is \<open>None\<close>, so that a definition built from them in the option monad returns
    \<open>None\<close> exactly when the C code leaves one of its arrays;
  \<^item> the collections \<open>wire\<close> (byte-order rewriting) and \<open>cmem\<close> (array accesses) that the
    component proofs pass to the simplifier.
\<close>

type_synonym byte = "8 word"
type_synonym u16 = "16 word"
type_synonym u32 = "32 word"

named_theorems wire
named_theorems cmem

subsection \<open>Memory images of integers\<close>

definition le32 :: "byte \<Rightarrow> byte \<Rightarrow> byte \<Rightarrow> byte \<Rightarrow> u32" where
  "le32 a b c d = ucast a OR push_bit 8 (ucast b) OR push_bit 16 (ucast c) OR push_bit 24 (ucast d)"

definition bytes_le32 :: "u32 \<Rightarrow> byte list" where
  "bytes_le32 w = [ucast w, ucast (drop_bit 8 w), ucast (drop_bit 16 w), ucast (drop_bit 24 w)]"

fun le32_of :: "byte list \<Rightarrow> u32" where
  "le32_of [a, b, c, d] = le32 a b c d"
| "le32_of _ = 0"

definition le16 :: "byte \<Rightarrow> byte \<Rightarrow> u16" where
  "le16 a b = ucast a OR push_bit 8 (ucast b)"

definition bytes_le16 :: "u16 \<Rightarrow> byte list" where
  "bytes_le16 w = [ucast w, ucast (drop_bit 8 w)]"

fun le16_of :: "byte list \<Rightarrow> u16" where
  "le16_of [a, b] = le16 a b"
| "le16_of _ = 0"

definition ntohl :: "u32 \<Rightarrow> u32" where
  "ntohl w = le32 (ucast (drop_bit 24 w)) (ucast (drop_bit 16 w)) (ucast (drop_bit 8 w)) (ucast w)"

abbreviation htonl :: "u32 \<Rightarrow> u32" where
  "htonl \<equiv> ntohl"

definition ntohs :: "u16 \<Rightarrow> u16" where
  "ntohs w = le16 (ucast (drop_bit 8 w)) (ucast w)"

abbreviation htons :: "u16 \<Rightarrow> u16" where
  "htons \<equiv> ntohs"

lemma le32_bytes [wire]:
  "le32 (ucast w) (ucast (drop_bit 8 w)) (ucast (drop_bit 16 w)) (ucast (drop_bit 24 w)) = w"
proof (rule bit_word_eqI)
  fix n assume "n < LENGTH(32)"
  then consider "n < 8" | "8 \<le> n" "n < 16" | "16 \<le> n" "n < 24" | "24 \<le> n" "n < 32"
    by fastforce
  then show "bit (le32 (ucast w) (ucast (drop_bit 8 w)) (ucast (drop_bit 16 w))
      (ucast (drop_bit 24 w))) n = bit w n"
    by cases (auto simp: le32_def bit_simps)
qed

lemma le32_byte0 [wire]: "ucast (le32 a b c d) = a"
  unfolding le32_def by (rule bit_word_eqI) (auto simp: bit_simps dest: bit_imp_le_length)

lemma le32_byte1 [wire]: "ucast (drop_bit 8 (le32 a b c d)) = b"
  unfolding le32_def by (rule bit_word_eqI) (auto simp: bit_simps dest: bit_imp_le_length)

lemma le32_byte2 [wire]: "ucast (drop_bit 16 (le32 a b c d)) = c"
  unfolding le32_def by (rule bit_word_eqI) (auto simp: bit_simps dest: bit_imp_le_length)

lemma le32_byte3 [wire]: "ucast (drop_bit 24 (le32 a b c d)) = d"
  unfolding le32_def by (rule bit_word_eqI) (auto simp: bit_simps dest: bit_imp_le_length)

lemma le16_bytes [wire]: "le16 (ucast w) (ucast (drop_bit 8 w)) = w"
proof (rule bit_word_eqI)
  fix n assume "n < LENGTH(16)"
  then consider "n < 8" | "8 \<le> n" "n < 16" by fastforce
  then show "bit (le16 (ucast w) (ucast (drop_bit 8 w))) n = bit w n"
    by cases (auto simp: le16_def bit_simps)
qed

lemma le16_byte0 [wire]: "ucast (le16 a b) = a"
  unfolding le16_def by (rule bit_word_eqI) (auto simp: bit_simps dest: bit_imp_le_length)

lemma le16_byte1 [wire]: "ucast (drop_bit 8 (le16 a b)) = b"
  unfolding le16_def by (rule bit_word_eqI) (auto simp: bit_simps dest: bit_imp_le_length)

lemma le32_of_bytes [simp]: "le32_of (bytes_le32 w) = w"
  by (simp add: bytes_le32_def wire)

lemma bytes_le32_le32 [simp]: "bytes_le32 (le32 a b c d) = [a, b, c, d]"
  by (simp add: bytes_le32_def wire)

lemma le16_of_bytes [simp]: "le16_of (bytes_le16 w) = w"
  by (simp add: bytes_le16_def wire)

lemma bytes_le16_le16 [simp]: "bytes_le16 (le16 a b) = [a, b]"
  by (simp add: bytes_le16_def wire)

lemma length_bytes_le32 [simp]: "length (bytes_le32 w) = 4"
  by (simp add: bytes_le32_def)

lemma unat_of_nat_u16: "n < 65536 \<Longrightarrow> unat (of_nat n :: u16) = n"
  by (simp add: unsigned_of_nat take_bit_nat_eq_self)

lemma unat_u32_Suc:
  assumes "(w :: u32) \<noteq> 0xffffffff"
  shows "unat (w + 1) = unat w + 1"
proof -
  have "unat w \<noteq> unat (0xffffffff :: u32)"
    using assms by (metis word_eq_iff_unsigned)
  then have "unat w \<noteq> 4294967295"
    by simp
  moreover have "unat w < 4294967296"
    using unsigned_less [of w, where 'a = nat] by simp
  ultimately show ?thesis
    by (simp add: unat_word_ariths)
qed

lemma less_u32_Suc: "(w :: u32) \<noteq> 0xffffffff \<Longrightarrow> w < w + 1"
  by (simp add: word_less_nat_alt unat_u32_Suc)

lemma ucast_byte_u32 [simp]: "ucast (ucast b :: u32) = (b :: byte)"
  by (rule bit_word_eqI) (auto simp: bit_simps dest: bit_imp_le_length)

lemma length_bytes_le16 [simp]: "length (bytes_le16 w) = 2"
  by (simp add: bytes_le16_def)

lemma ntohl_ntohl [simp]: "ntohl (ntohl w) = w"
  by (simp add: ntohl_def wire)

lemma ntohs_ntohs [simp]: "ntohs (ntohs w) = w"
  by (simp add: ntohs_def wire)

lemma ntohl_inject [simp]: "ntohl a = ntohl b \<longleftrightarrow> a = b"
  by (metis ntohl_ntohl)

lemma ntohs_inject [simp]: "ntohs a = ntohs b \<longleftrightarrow> a = b"
  by (metis ntohs_ntohs)

lemma ntohl_0 [simp]: "ntohl 0 = 0"
  by (simp add: ntohl_def le32_def)

lemma ntohl_eq_0 [simp]: "ntohl w = 0 \<longleftrightarrow> w = 0"
  using ntohl_inject [of w 0] by simp

lemma unat_byte_lt [simp]: "unat (b :: byte) < 256"
  using unsigned_less [of b] by simp

lemma unat_u16_lt [simp]: "unat (b :: u16) < 65536"
  using unsigned_less [of b] by simp

lemma unat_byte_le: "unat (b :: byte) \<le> 255"
  using unat_byte_lt [of b] by linarith

lemma le32_nat:
  "le32 a b c d = of_nat (unat a + unat b * 256 + unat c * 65536 + unat d * 16777216)"
proof -
  have "le32 a b c d = ucast a + push_bit 8 (ucast b) + push_bit 16 (ucast c) + push_bit 24 (ucast d)"
    unfolding le32_def
    by (subst disjunctive_add_eq_or, rule bit_word_eqI, auto simp: bit_simps dest: bit_imp_le_length)+
      (simp add: or.assoc)
  then show ?thesis
    by (simp add: push_bit_eq_mult)
qed

lemma ntohl_quad:
  "ntohl (of_nat (((unat a * 256 + unat b) * 256 + unat c) * 256 + unat d)) = le32 a b c d"
proof -
  have "((unat a * 256 + unat b) * 256 + unat c) * 256 + unat d =
      unat d + unat c * 256 + unat b * 65536 + unat a * 16777216"
    by simp
  then show ?thesis
    by (simp only: le32_nat [of d c b a, symmetric] ntohl_def wire)
qed

subsection \<open>C arrays with checked accesses\<close>

definition rd :: "'a list \<Rightarrow> nat \<Rightarrow> 'a option" where
  "rd a i = (if i < length a then Some (a ! i) else None)"

definition rd_n :: "'a list \<Rightarrow> nat \<Rightarrow> nat \<Rightarrow> 'a list option" where
  "rd_n a i n = (if i + n \<le> length a then Some (take n (drop i a)) else None)"

definition wr :: "'a list \<Rightarrow> nat \<Rightarrow> 'a list \<Rightarrow> 'a list option" where
  "wr a i bs = (if i + length bs \<le> length a
                then Some (take i a @ bs @ drop (i + length bs) a) else None)"

lemma rd_Some_iff [cmem]: "rd a i = Some v \<longleftrightarrow> i < length a \<and> a ! i = v"
  by (auto simp: rd_def)

lemma rd_None_iff [cmem]: "rd a i = None \<longleftrightarrow> length a \<le> i"
  by (auto simp: rd_def)

lemma rd_n_Some_iff [cmem]: "rd_n a i n = Some v \<longleftrightarrow> i + n \<le> length a \<and> v = take n (drop i a)"
  by (auto simp: rd_n_def)

lemma rd_n_None_iff [cmem]: "rd_n a i n = None \<longleftrightarrow> length a < i + n"
  by (auto simp: rd_n_def)

lemma wr_Some_iff [cmem]:
  "wr a i bs = Some a' \<longleftrightarrow>
     i + length bs \<le> length a \<and> a' = take i a @ bs @ drop (i + length bs) a"
  by (auto simp: wr_def)

lemma wr_None_iff [cmem]: "wr a i bs = None \<longleftrightarrow> length a < i + length bs"
  by (auto simp: wr_def)

lemma wr_length: "wr a i bs = Some a' \<Longrightarrow> length a' = length a"
  by (auto simp: cmem)

lemma wr_append_middle:
  "wr (pre @ old @ post) (length pre) new = Some (pre @ new @ post)"
  if "length old = length new"
  using that by (simp add: wr_def)

lemma rd_append1 [simp]: "i < length xs \<Longrightarrow> rd (xs @ ys) i = rd xs i"
  by (simp add: rd_def nth_append)

lemma rd_append2 [simp]: "rd (xs @ ys) (length xs + i) = rd ys i"
  by (simp add: rd_def)

lemma rd_append_length [simp]: "rd (xs @ y # ys) (length xs) = Some y"
  by (simp add: rd_def)

lemma rd_append_length1 [simp]: "rd (xs @ x # y # ys) (Suc (length xs)) = Some y"
  by (simp add: rd_def nth_append)

end
