(* ===== verification/Dhcp_Message.thy ===== *)
theory Dhcp_Message
  imports Prelude
begin

section \<open>The DHCP message and its constants\<close>

text \<open>
  \<^verbatim>\<open>udhcp-0.9.8/packet.h\<close> and the protocol constants of \<^verbatim>\<open>udhcp-0.9.8/dhcpd.h\<close>.  Integer fields
  of \<open>dhcpMessage\<close> hold the value a little-endian CPU reads from the structure, so a field
  that the wire carries in network order is compared after \<open>ntohl\<close>, as in the C code.
  \<open>dhcp_bytes\<close> is the memory image of the packed structure and \<open>dhcp_of_bytes\<close> its inverse,
  which is what \<^verbatim>\<open>read\<close> into the structure does.
\<close>

abbreviation (input) DHCP_MAGIC :: u32 where "DHCP_MAGIC \<equiv> 0x63825363"

abbreviation (input) DHCP_PADDING :: byte where "DHCP_PADDING \<equiv> 0x00"
abbreviation (input) DHCP_SUBNET :: byte where "DHCP_SUBNET \<equiv> 0x01"
abbreviation (input) DHCP_ROUTER :: byte where "DHCP_ROUTER \<equiv> 0x03"
abbreviation (input) DHCP_DNS_SERVER :: byte where "DHCP_DNS_SERVER \<equiv> 0x06"
abbreviation (input) DHCP_HOST_NAME :: byte where "DHCP_HOST_NAME \<equiv> 0x0c"
abbreviation (input) DHCP_REQUESTED_IP :: byte where "DHCP_REQUESTED_IP \<equiv> 0x32"
abbreviation (input) DHCP_LEASE_TIME :: byte where "DHCP_LEASE_TIME \<equiv> 0x33"
abbreviation (input) DHCP_OPTION_OVER :: byte where "DHCP_OPTION_OVER \<equiv> 0x34"
abbreviation (input) DHCP_MESSAGE_TYPE :: byte where "DHCP_MESSAGE_TYPE \<equiv> 0x35"
abbreviation (input) DHCP_SERVER_ID :: byte where "DHCP_SERVER_ID \<equiv> 0x36"
abbreviation (input) DHCP_PARAM_REQ :: byte where "DHCP_PARAM_REQ \<equiv> 0x37"
abbreviation (input) DHCP_VENDOR :: byte where "DHCP_VENDOR \<equiv> 0x3c"
abbreviation (input) DHCP_CLIENT_ID :: byte where "DHCP_CLIENT_ID \<equiv> 0x3d"
abbreviation (input) DHCP_END :: byte where "DHCP_END \<equiv> 0xFF"

abbreviation (input) BOOTREQUEST :: byte where "BOOTREQUEST \<equiv> 1"
abbreviation (input) BOOTREPLY :: byte where "BOOTREPLY \<equiv> 2"
abbreviation (input) ETH_10MB :: byte where "ETH_10MB \<equiv> 1"
abbreviation (input) ETH_10MB_LEN :: byte where "ETH_10MB_LEN \<equiv> 6"

abbreviation (input) DHCPDISCOVER :: byte where "DHCPDISCOVER \<equiv> 1"
abbreviation (input) DHCPOFFER :: byte where "DHCPOFFER \<equiv> 2"
abbreviation (input) DHCPREQUEST :: byte where "DHCPREQUEST \<equiv> 3"
abbreviation (input) DHCPDECLINE :: byte where "DHCPDECLINE \<equiv> 4"
abbreviation (input) DHCPACK :: byte where "DHCPACK \<equiv> 5"
abbreviation (input) DHCPNAK :: byte where "DHCPNAK \<equiv> 6"
abbreviation (input) DHCPRELEASE :: byte where "DHCPRELEASE \<equiv> 7"
abbreviation (input) DHCPINFORM :: byte where "DHCPINFORM \<equiv> 8"

abbreviation (input) BROADCAST_FLAG :: u16 where "BROADCAST_FLAG \<equiv> 0x8000"
abbreviation (input) SERVER_PORT :: u16 where "SERVER_PORT \<equiv> 67"
abbreviation (input) CLIENT_PORT :: u16 where "CLIENT_PORT \<equiv> 68"
abbreviation (input) INADDR_ANY :: u32 where "INADDR_ANY \<equiv> 0"
abbreviation (input) INADDR_BROADCAST :: u32 where "INADDR_BROADCAST \<equiv> 0xffffffff"
abbreviation (input) MAC_BCAST_ADDR :: "byte list" where "MAC_BCAST_ADDR \<equiv> replicate 6 0xff"

abbreviation (input) OPT_CODE :: nat where "OPT_CODE \<equiv> 0"
abbreviation (input) OPT_LEN :: nat where "OPT_LEN \<equiv> 1"
abbreviation (input) OPT_DATA :: nat where "OPT_DATA \<equiv> 2"

text \<open>\<^verbatim>\<open>struct dhcpMessage\<close>.\<close>

record dhcpMessage =
  m_op :: byte
  m_htype :: byte
  m_hlen :: byte
  m_hops :: byte
  m_xid :: u32
  m_secs :: u16
  m_flags :: u16
  m_ciaddr :: u32
  m_yiaddr :: u32
  m_siaddr :: u32
  m_giaddr :: u32
  m_chaddr :: "byte list"
  m_sname :: "byte list"
  m_file :: "byte list"
  m_cookie :: u32
  m_options :: "byte list"

text \<open>The array sizes of the structure; every message of the program satisfies \<open>wf_msg\<close>.\<close>

definition wf_msg :: "dhcpMessage \<Rightarrow> bool" where
  "wf_msg p \<longleftrightarrow> length (m_chaddr p) = 16 \<and> length (m_sname p) = 64 \<and>
     length (m_file p) = 128 \<and> length (m_options p) = 308"

text \<open>\<^verbatim>\<open>memset(packet, 0, sizeof(struct dhcpMessage))\<close>.\<close>

definition zero_msg :: dhcpMessage where
  "zero_msg = \<lparr>m_op = 0, m_htype = 0, m_hlen = 0, m_hops = 0, m_xid = 0, m_secs = 0, m_flags = 0,
     m_ciaddr = 0, m_yiaddr = 0, m_siaddr = 0, m_giaddr = 0, m_chaddr = replicate 16 0,
     m_sname = replicate 64 0, m_file = replicate 128 0, m_cookie = 0,
     m_options = replicate 308 0\<rparr>"

definition dhcp_bytes :: "dhcpMessage \<Rightarrow> byte list" where
  "dhcp_bytes p = [m_op p, m_htype p, m_hlen p, m_hops p] @ bytes_le32 (m_xid p) @
     bytes_le16 (m_secs p) @ bytes_le16 (m_flags p) @ bytes_le32 (m_ciaddr p) @
     bytes_le32 (m_yiaddr p) @ bytes_le32 (m_siaddr p) @ bytes_le32 (m_giaddr p) @
     m_chaddr p @ m_sname p @ m_file p @ bytes_le32 (m_cookie p) @ m_options p"

abbreviation sizeof_dhcpMessage :: nat where "sizeof_dhcpMessage \<equiv> 548"

text \<open>The field of \<open>n\<close> bytes at offset \<open>i\<close> of a structure image.\<close>

definition fld :: "byte list \<Rightarrow> nat \<Rightarrow> nat \<Rightarrow> byte list" where
  "fld bs i n = take n (drop i bs)"

definition dhcp_of_bytes :: "byte list \<Rightarrow> dhcpMessage" where
  "dhcp_of_bytes bs = \<lparr>m_op = bs ! 0, m_htype = bs ! 1, m_hlen = bs ! 2, m_hops = bs ! 3,
     m_xid = le32_of (fld bs 4 4), m_secs = le16_of (fld bs 8 2), m_flags = le16_of (fld bs 10 2),
     m_ciaddr = le32_of (fld bs 12 4), m_yiaddr = le32_of (fld bs 16 4),
     m_siaddr = le32_of (fld bs 20 4), m_giaddr = le32_of (fld bs 24 4),
     m_chaddr = fld bs 28 16, m_sname = fld bs 44 64, m_file = fld bs 108 128,
     m_cookie = le32_of (fld bs 236 4), m_options = fld bs 240 308\<rparr>"

lemma wf_zero_msg [simp]: "wf_msg zero_msg"
  by (simp add: wf_msg_def zero_msg_def)

lemma length_dhcp_bytes [simp]: "wf_msg p \<Longrightarrow> length (dhcp_bytes p) = sizeof_dhcpMessage"
  by (simp add: wf_msg_def dhcp_bytes_def)

text \<open>A field is found after any prefix of the right length, so a structure image decodes
  field by field.\<close>

lemma fld_skip [wire]: "length pre \<le> i \<Longrightarrow> fld (pre @ rest) i n = fld rest (i - length pre) n"
  by (simp add: fld_def)

lemma fld_here [wire]: "length x = n \<Longrightarrow> fld (x @ rest) 0 n = x"
  by (simp add: fld_def)

lemma fld_last [wire]: "length x = n \<Longrightarrow> fld x 0 n = x"
  by (simp add: fld_def)

lemma fld_skip_Cons [wire]: "0 < i \<Longrightarrow> fld (x # rest) i n = fld rest (i - 1) n"
  by (cases i) (simp_all add: fld_def)

lemma dhcp_of_bytes_dhcp_bytes [simp]:
  assumes "wf_msg p"
  shows "dhcp_of_bytes (dhcp_bytes p) = p"
  using assms by (cases p) (simp add: wf_msg_def dhcp_of_bytes_def dhcp_bytes_def wire)

lemma wf_dhcp_of_bytes: "length bs = sizeof_dhcpMessage \<Longrightarrow> wf_msg (dhcp_of_bytes bs)"
  by (simp add: wf_msg_def dhcp_of_bytes_def fld_def)

end
