(* ===== verification/Dhcp_Options.thy ===== *)
theory Dhcp_Options
  imports Dhcp_Message
begin

section \<open>DHCP options (\<^verbatim>\<open>udhcp-0.9.8/options.c\<close>)\<close>

text \<open>
  The option area of a message is a sequence of type-length-value triples closed by
  \<open>DHCP_END\<close>.  The first half of the theory translates \<^verbatim>\<open>options.c\<close>: the table of known
  options, \<open>get_option\<close>, \<open>end_option\<close>, \<open>add_option_string\<close>, \<open>add_simple_option\<close>,
  \<open>find_option\<close> and \<open>attach_option\<close>.  A result \<open>None\<close> of a definition means that the C code
  reads or writes outside one of its arrays.

  The second half gives the abstract view, a list of \<open>tlv\<close> values, and the laws that tie the
  byte-level operations to it; they are collected in the locale \<open>option_store\<close>, which the
  packet builders of the server and of the client rely on.
\<close>

subsection \<open>The table of options\<close>

abbreviation (input) TYPE_MASK :: byte where "TYPE_MASK \<equiv> 0x0F"
abbreviation (input) OPTION_IP :: byte where "OPTION_IP \<equiv> 1"
abbreviation (input) OPTION_IP_PAIR :: byte where "OPTION_IP_PAIR \<equiv> 2"
abbreviation (input) OPTION_STRING :: byte where "OPTION_STRING \<equiv> 3"
abbreviation (input) OPTION_BOOLEAN :: byte where "OPTION_BOOLEAN \<equiv> 4"
abbreviation (input) OPTION_U8 :: byte where "OPTION_U8 \<equiv> 5"
abbreviation (input) OPTION_U16 :: byte where "OPTION_U16 \<equiv> 6"
abbreviation (input) OPTION_S16 :: byte where "OPTION_S16 \<equiv> 7"
abbreviation (input) OPTION_U32 :: byte where "OPTION_U32 \<equiv> 8"
abbreviation (input) OPTION_S32 :: byte where "OPTION_S32 \<equiv> 9"
abbreviation (input) OPTION_REQ :: byte where "OPTION_REQ \<equiv> 0x10"
abbreviation (input) OPTION_LIST :: byte where "OPTION_LIST \<equiv> 0x20"

record dhcp_option =
  opt_name :: string
  opt_flags :: byte
  opt_code :: byte

definition dhcp_options :: "dhcp_option list" where
  "dhcp_options = map (\<lambda>(n, f, c). \<lparr>opt_name = n, opt_flags = f, opt_code = c\<rparr>)
    [(''subnet'', OPTION_IP OR OPTION_REQ, 0x01),
     (''timezone'', OPTION_S32, 0x02),
     (''router'', OPTION_IP OR OPTION_LIST OR OPTION_REQ, 0x03),
     (''timesvr'', OPTION_IP OR OPTION_LIST, 0x04),
     (''namesvr'', OPTION_IP OR OPTION_LIST, 0x05),
     (''dns'', OPTION_IP OR OPTION_LIST OR OPTION_REQ, 0x06),
     (''logsvr'', OPTION_IP OR OPTION_LIST, 0x07),
     (''cookiesvr'', OPTION_IP OR OPTION_LIST, 0x08),
     (''lprsvr'', OPTION_IP OR OPTION_LIST, 0x09),
     (''hostname'', OPTION_STRING OR OPTION_REQ, 0x0c),
     (''bootsize'', OPTION_U16, 0x0d),
     (''domain'', OPTION_STRING OR OPTION_REQ, 0x0f),
     (''swapsvr'', OPTION_IP, 0x10),
     (''rootpath'', OPTION_STRING, 0x11),
     (''ipttl'', OPTION_U8, 0x17),
     (''mtu'', OPTION_U16, 0x1a),
     (''broadcast'', OPTION_IP OR OPTION_REQ, 0x1c),
     (''discovery'', OPTION_U8, 0x1f),
     (''ntpsrv'', OPTION_IP OR OPTION_LIST, 0x2a),
     (''wins'', OPTION_IP OR OPTION_LIST, 0x2c),
     (''requestip'', OPTION_IP, 0x32),
     (''lease'', OPTION_U32, 0x33),
     (''dhcptype'', OPTION_U8, 0x35),
     (''serverid'', OPTION_IP, 0x36),
     (''message'', OPTION_STRING, 0x38),
     (''tftp'', OPTION_STRING, 0x42),
     (''bootfile'', OPTION_STRING, 0x43),
     ('''', 0x00, 0x00)]"

text \<open>\<^verbatim>\<open>option_lengths[]\<close>, indexed by the option type; the entry for index 0 is the zero that
  static initialisation leaves there.\<close>

definition option_lengths :: "nat list" where
  "option_lengths = [0, 4, 8, 1, 1, 1, 2, 2, 4, 4]"

subsection \<open>Reading an option\<close>

datatype opt_field = OPTION_FIELD | FILE_FIELD | SNAME_FIELD

fun opt_array :: "dhcpMessage \<Rightarrow> opt_field \<Rightarrow> byte list" where
  "opt_array p OPTION_FIELD = m_options p"
| "opt_array p FILE_FIELD = m_file p"
| "opt_array p SNAME_FIELD = m_sname p"

fun field_length :: "opt_field \<Rightarrow> nat" where
  "field_length OPTION_FIELD = 308"
| "field_length FILE_FIELD = 128"
| "field_length SNAME_FIELD = 64"

fun field_rank :: "opt_field \<Rightarrow> nat" where
  "field_rank OPTION_FIELD = 2"
| "field_rank FILE_FIELD = 1"
| "field_rank SNAME_FIELD = 0"

text \<open>A non-null result of \<open>get_option\<close> is the array it points into, the offset in that array
  and the value stored through \<^verbatim>\<open>opt_len\<close>.  The variables of the loop are \<^verbatim>\<open>curr\<close> (here \<open>fd\<close>,
  which also determines \<^verbatim>\<open>optionptr\<close> and \<^verbatim>\<open>length\<close>), \<^verbatim>\<open>i\<close> and \<^verbatim>\<open>over\<close>.\<close>

type_synonym optptr = "opt_field \<times> nat \<times> nat"

function get_option_loop ::
  "dhcpMessage \<Rightarrow> byte \<Rightarrow> opt_field \<Rightarrow> nat \<Rightarrow> byte \<Rightarrow> optptr option option" where
  "get_option_loop p code fd i over =
    (if field_length fd \<le> i then Some None
     else case rd (opt_array p fd) (i + OPT_CODE) of None \<Rightarrow> None | Some c \<Rightarrow>
       if c = code then
         (case rd (opt_array p fd) (i + OPT_LEN) of None \<Rightarrow> None | Some l \<Rightarrow>
            if field_length fd \<le> i + 1 + unat l then Some None
            else Some (Some (fd, i + 2, unat l)))
       else if c = DHCP_PADDING then get_option_loop p code fd (i + 1) over
       else if c = DHCP_OPTION_OVER then
         (case rd (opt_array p fd) (i + OPT_LEN) of None \<Rightarrow> None | Some l \<Rightarrow>
            if field_length fd \<le> i + 1 + unat l then Some None
            else case rd (opt_array p fd) (i + 3) of None \<Rightarrow> None | Some ov \<Rightarrow>
              case rd (opt_array p fd) OPT_LEN of None \<Rightarrow> None | Some l0 \<Rightarrow>
                get_option_loop p code fd (i + (unat l0 + 2)) ov)
       else if c = DHCP_END then
         (if fd = OPTION_FIELD \<and> over AND 1 \<noteq> 0 then get_option_loop p code FILE_FIELD 0 over
          else if fd = FILE_FIELD \<and> over AND 2 \<noteq> 0 then get_option_loop p code SNAME_FIELD 0 over
          else Some None)
       else
         (case rd (opt_array p fd) (i + OPT_LEN) of None \<Rightarrow> None | Some l \<Rightarrow>
            get_option_loop p code fd (i + (unat l + 2)) over))"
  by pat_completeness auto
termination
  by (relation "measures [\<lambda>(p, code, fd, i, over). field_rank fd,
                          \<lambda>(p, code, fd, i, over). field_length fd - i]") auto

declare get_option_loop.simps [simp del]

definition get_option :: "dhcpMessage \<Rightarrow> byte \<Rightarrow> optptr option option" where
  "get_option p code = get_option_loop p code OPTION_FIELD 0 0"

text \<open>What the callers do with the pointer: \<^verbatim>\<open>ptr[k]\<close> and \<^verbatim>\<open>memcpy(&x, ptr, n)\<close>.\<close>

definition opt_data :: "dhcpMessage \<Rightarrow> optptr \<Rightarrow> nat \<Rightarrow> byte list option" where
  "opt_data p op n = (case op of (f, off, len) \<Rightarrow> rd_n (opt_array p f) off n)"

definition opt_u32 :: "dhcpMessage \<Rightarrow> optptr \<Rightarrow> u32 option" where
  "opt_u32 p op = map_option le32_of (opt_data p op 4)"

definition opt_byte :: "dhcpMessage \<Rightarrow> optptr \<Rightarrow> byte option" where
  "opt_byte p op = (case op of (f, off, len) \<Rightarrow> rd (opt_array p f) off)"

subsection \<open>Building the option area\<close>

function end_option :: "byte list \<Rightarrow> nat \<Rightarrow> nat option" where
  "end_option optionptr i =
    (case rd optionptr i of None \<Rightarrow> None | Some c \<Rightarrow>
       if c = DHCP_END then Some i
       else if c = DHCP_PADDING then end_option optionptr (i + 1)
       else case rd optionptr (i + OPT_LEN) of None \<Rightarrow> None | Some l \<Rightarrow>
         end_option optionptr (i + (unat l + 2)))"
  by pat_completeness auto
termination
  by (relation "measure (\<lambda>(a, i). length a - i)") (auto simp: cmem)

declare end_option.simps [simp del]

definition add_option_string :: "byte list \<Rightarrow> byte list \<Rightarrow> (byte list \<times> nat) option" where
  "add_option_string optionptr string = do {
     e \<leftarrow> end_option optionptr 0;
     l \<leftarrow> rd string OPT_LEN;
     if 308 \<le> e + unat l + 2 + 1 then Some (optionptr, 0)
     else do {
       src \<leftarrow> rd_n string 0 (unat l + 2);
       o1 \<leftarrow> wr optionptr e src;
       o2 \<leftarrow> wr o1 (e + unat l + 2) [DHCP_END];
       Some (o2, unat l + 2)
     }
   }"

fun simple_option_length :: "byte \<Rightarrow> dhcp_option list \<Rightarrow> nat \<Rightarrow> nat option" where
  "simple_option_length code [] len = None"
| "simple_option_length code (d # ds) len =
    (if opt_code d = 0 then Some len
     else if opt_code d = code then do {
       l \<leftarrow> rd option_lengths (unat (opt_flags d AND TYPE_MASK));
       simple_option_length code ds l
     }
     else simple_option_length code ds len)"

definition add_simple_option :: "byte list \<Rightarrow> byte \<Rightarrow> u32 \<Rightarrow> (byte list \<times> nat) option" where
  "add_simple_option optionptr code data = do {
     len \<leftarrow> simple_option_length code dhcp_options 0;
     if len = 0 then Some (optionptr, 0)
     else do {
       aligned \<leftarrow> (if len \<in> {1, 2, 4} then Some (take len (bytes_le32 data)) else None);
       add_option_string optionptr ([code, of_nat len] @ aligned)
     }
   }"

subsection \<open>The configured option list\<close>

text \<open>\<^verbatim>\<open>struct option_set\<close>: the linked list is the list of its \<^verbatim>\<open>data\<close> blocks (code, length,
  value), in list order.\<close>

type_synonym option_set = "byte list list"

definition find_option :: "option_set \<Rightarrow> byte \<Rightarrow> byte list option" where
  "find_option opt_list code =
    (case dropWhile (\<lambda>d. d ! OPT_CODE < code) opt_list of
       [] \<Rightarrow> None
     | d # _ \<Rightarrow> if d ! OPT_CODE = code then Some d else None)"

fun extend_existing :: "byte \<Rightarrow> byte list \<Rightarrow> nat \<Rightarrow> option_set \<Rightarrow> option_set" where
  "extend_existing code buffer len [] = []"
| "extend_existing code buffer len (d # ds) =
    (if d ! OPT_CODE < code then d # extend_existing code buffer len ds
     else (if unat (d ! OPT_LEN) + len \<le> 255
           then (take (unat (d ! OPT_LEN) + 2) d @ take len buffer)
                  [OPT_LEN := d ! OPT_LEN + of_nat len]
           else d) # ds)"

definition attach_option :: "option_set \<Rightarrow> dhcp_option \<Rightarrow> byte list \<Rightarrow> nat \<Rightarrow> option_set" where
  "attach_option opt_list opt buffer len =
    (case find_option opt_list (opt_code opt) of
       Some existing \<Rightarrow>
         if opt_flags opt AND OPTION_LIST \<noteq> 0
         then extend_existing (opt_code opt) buffer len opt_list
         else opt_list
     | None \<Rightarrow>
         let new = [opt_code opt, of_nat len] @ take len buffer in
         takeWhile (\<lambda>d. d ! OPT_CODE < opt_code opt) opt_list @
         new # dropWhile (\<lambda>d. d ! OPT_CODE < opt_code opt) opt_list)"

subsection \<open>The operations on a whole message\<close>

text \<open>Every caller ignores the returned count, so the packet builders use the message with its
  new option area.\<close>

definition msg_add_string :: "dhcpMessage \<Rightarrow> byte list \<Rightarrow> dhcpMessage option" where
  "msg_add_string p string =
     map_option (\<lambda>(a, n). p\<lparr>m_options := a\<rparr>) (add_option_string (m_options p) string)"

definition msg_add_simple :: "dhcpMessage \<Rightarrow> byte \<Rightarrow> u32 \<Rightarrow> dhcpMessage option" where
  "msg_add_simple p code data =
     map_option (\<lambda>(a, n). p\<lparr>m_options := a\<rparr>) (add_simple_option (m_options p) code data)"

text \<open>The value of an option: the \<^verbatim>\<open>opt_len\<close> bytes at the pointer that \<open>get_option\<close> returns.\<close>

definition opt_value :: "dhcpMessage \<Rightarrow> byte \<Rightarrow> byte list option option" where
  "opt_value p code = do {
     r \<leftarrow> get_option p code;
     case r of
       None \<Rightarrow> Some None
     | Some op \<Rightarrow> map_option Some (opt_data p op (snd (snd op)))
   }"

subsection \<open>Abstract view: type-length-value lists\<close>

type_synonym tlv = "byte \<times> byte list"

definition wf_tlv :: "tlv \<Rightarrow> bool" where
  "wf_tlv t \<longleftrightarrow> fst t \<noteq> DHCP_PADDING \<and> fst t \<noteq> DHCP_END \<and> length (snd t) < 256"

definition enc_tlv :: "tlv \<Rightarrow> byte list" where
  "enc_tlv t = fst t # of_nat (length (snd t)) # snd t"

definition enc_tlvs :: "tlv list \<Rightarrow> byte list" where
  "enc_tlvs ts = concat (map enc_tlv ts)"

definition opt_area :: "byte list \<Rightarrow> tlv list \<Rightarrow> bool" where
  "opt_area a ts \<longleftrightarrow> length a = 308 \<and> list_all wf_tlv ts \<and>
     take (Suc (length (enc_tlvs ts))) a = enc_tlvs ts @ [DHCP_END]"

fun tlv_find :: "tlv list \<Rightarrow> byte \<Rightarrow> (nat \<times> byte list) option" where
  "tlv_find [] c = None"
| "tlv_find (t # ts) c =
     (if fst t = c then Some (0, snd t)
      else map_option (\<lambda>(k, d). (k + length (snd t) + 2, d)) (tlv_find ts c))"

definition no_overload :: "tlv list \<Rightarrow> bool" where
  "no_overload ts \<longleftrightarrow> DHCP_OPTION_OVER \<notin> fst ` set ts"

lemma unat_of_nat_byte [simp]: "n < 256 \<Longrightarrow> unat (of_nat n :: byte) = n"
  by (simp add: unsigned_of_nat take_bit_nat_eq_self)

lemma length_enc_tlv [simp]: "length (enc_tlv t) = length (snd t) + 2"
  by (simp add: enc_tlv_def)

lemma enc_tlvs_Nil [simp]: "enc_tlvs [] = []"
  by (simp add: enc_tlvs_def)

lemma enc_tlvs_Cons [simp]: "enc_tlvs (t # ts) = enc_tlv t @ enc_tlvs ts"
  by (simp add: enc_tlvs_def)

lemma enc_tlvs_append [simp]: "enc_tlvs (ts @ us) = enc_tlvs ts @ enc_tlvs us"
  by (simp add: enc_tlvs_def)

lemma opt_areaE:
  assumes "opt_area a ts"
  obtains junk where "a = enc_tlvs ts @ DHCP_END # junk"
    and "length (enc_tlvs ts) + 1 + length junk = 308" and "list_all wf_tlv ts"
proof -
  have "a = take (Suc (length (enc_tlvs ts))) a @ drop (Suc (length (enc_tlvs ts))) a"
    by simp
  then have "a = enc_tlvs ts @ DHCP_END # drop (Suc (length (enc_tlvs ts))) a"
    using assms unfolding opt_area_def by simp
  moreover from this assms have
    "length (enc_tlvs ts) + 1 + length (drop (Suc (length (enc_tlvs ts))) a) = 308"
    unfolding opt_area_def by (metis One_nat_def add_Suc_right length_Cons length_append
        add.right_neutral add_Suc)
  ultimately show thesis
    using that assms unfolding opt_area_def by blast
qed

lemma opt_areaI:
  "length (enc_tlvs ts) + 1 + length junk = 308 \<Longrightarrow> list_all wf_tlv ts \<Longrightarrow>
     opt_area (enc_tlvs ts @ DHCP_END # junk) ts"
  by (simp add: opt_area_def)

lemma opt_area_length: "opt_area a ts \<Longrightarrow> length a = 308"
  by (simp add: opt_area_def)

lemma opt_area_size: "opt_area a ts \<Longrightarrow> length (enc_tlvs ts) < 308"
  by (erule opt_areaE) simp

text \<open>\<open>end_option\<close> finds the end marker of a well-formed area.\<close>

lemma end_option_enc:
  "list_all wf_tlv ts \<Longrightarrow>
     end_option (pre @ enc_tlvs ts @ DHCP_END # junk) (length pre)
       = Some (length pre + length (enc_tlvs ts))"
proof (induction ts arbitrary: pre)
  case Nil
  show ?case by (subst end_option.simps) simp
next
  case (Cons t ts)
  have "end_option ((pre @ enc_tlv t) @ enc_tlvs ts @ DHCP_END # junk) (length (pre @ enc_tlv t))
      = Some (length (pre @ enc_tlv t) + length (enc_tlvs ts))"
    using Cons.prems by (intro Cons.IH) simp
  then show ?case
    using Cons.prems
    by (subst end_option.simps) (simp add: enc_tlv_def wf_tlv_def add.assoc)
qed

lemma end_option_area: "opt_area a ts \<Longrightarrow> end_option a 0 = Some (length (enc_tlvs ts))"
  using end_option_enc [of ts "[]"] by (auto elim!: opt_areaE)

text \<open>Adding an encoded option appends it to the list when it fits, and leaves the area alone
  when it does not.\<close>

lemma add_option_string_full:
  assumes "opt_area a ts" and "wf_tlv t" and "308 \<le> length (enc_tlvs ts) + length (snd t) + 3"
  shows "add_option_string a (enc_tlv t @ x) = Some (a, 0)"
  using assms
  by (simp add: add_option_string_def end_option_area enc_tlv_def wf_tlv_def rd_def)

lemma add_option_string_fits:
  assumes area: "opt_area a ts" and t: "wf_tlv t"
    and fits: "length (enc_tlvs ts) + length (snd t) + 3 < 308"
  shows "\<exists>a'. add_option_string a (enc_tlv t @ x) = Some (a', length (snd t) + 2) \<and>
           opt_area a' (ts @ [t])"
proof -
  obtain junk where a: "a = enc_tlvs ts @ DHCP_END # junk"
    and len: "length (enc_tlvs ts) + 1 + length junk = 308" and ts: "list_all wf_tlv ts"
    using area by (rule opt_areaE)
  let ?e = "length (enc_tlvs ts)"
  let ?a' = "enc_tlvs ts @ enc_tlv t @ DHCP_END # drop (length (snd t) + 2) junk"
  have n: "length (snd t) < 256"
    using t by (simp add: wf_tlv_def)
  have 1: "wr a ?e (enc_tlv t) = Some (enc_tlvs ts @ enc_tlv t @ drop (Suc (length (snd t))) junk)"
    using fits len by (simp add: a wr_def)
  have 2: "wr (enc_tlvs ts @ enc_tlv t @ drop (Suc (length (snd t))) junk)
      (?e + length (snd t) + 2) [DHCP_END] = Some ?a'"
    using fits len by (simp add: wr_def)
  have "rd (enc_tlv t @ x) OPT_LEN = Some (of_nat (length (snd t)))"
    and "rd_n (enc_tlv t @ x) 0 (length (snd t) + 2) = Some (enc_tlv t)"
    by (simp_all add: rd_n_def) (simp add: enc_tlv_def rd_def)
  then have "add_option_string a (enc_tlv t @ x) = Some (?a', length (snd t) + 2)"
    using n fits 1 2 end_option_area [OF area]
    by (simp add: add_option_string_def)
  moreover have "opt_area (enc_tlvs (ts @ [t]) @ DHCP_END # drop (length (snd t) + 2) junk) (ts @ [t])"
    using fits len ts t by (intro opt_areaI) auto
  ultimately show ?thesis by auto
qed

text \<open>Searching a well-formed area finds the first option with the code.\<close>

lemma get_option_loop_enc:
  assumes "m_options p = pre @ enc_tlvs ts @ DHCP_END # junk" and "length (m_options p) = 308"
    and "list_all wf_tlv ts" and "no_overload ts" and "code \<noteq> DHCP_END"
  shows "get_option_loop p code OPTION_FIELD (length pre) 0 =
     Some (map_option (\<lambda>(k, d). (OPTION_FIELD, length pre + k + 2, length d)) (tlv_find ts code))"
  using assms
proof (induction ts arbitrary: pre)
  case Nil
  then show ?case by (subst get_option_loop.simps) auto
next
  case (Cons t ts)
  have IH: "get_option_loop p code OPTION_FIELD (length (pre @ enc_tlv t)) 0 =
     Some (map_option (\<lambda>(k, d). (OPTION_FIELD, length (pre @ enc_tlv t) + k + 2, length d))
       (tlv_find ts code))"
    using Cons.prems by (intro Cons.IH) (auto simp: no_overload_def)
  have r0: "rd (m_options p) (length pre) = Some (fst t)"
    and r1: "rd (m_options p) (Suc (length pre)) = Some (of_nat (length (snd t)))"
    and n: "length (snd t) < 256" and c: "fst t \<noteq> DHCP_PADDING" "fst t \<noteq> DHCP_END"
      "fst t \<noteq> DHCP_OPTION_OVER"
    and l: "length pre + length (snd t) + 3 \<le> 308"
    using Cons.prems by (auto simp: enc_tlv_def wf_tlv_def no_overload_def)
  show ?case
  proof (cases "fst t = code")
    case True
    then show ?thesis
      using l n r0 r1 by (subst get_option_loop.simps) simp
  next
    case False
    then have "get_option_loop p code OPTION_FIELD (length pre) 0 =
        get_option_loop p code OPTION_FIELD (length (pre @ enc_tlv t)) 0"
      using l n r0 r1 c
      by (subst get_option_loop.simps) (simp add: add.assoc)
    with False IH show ?thesis
      by (auto simp: option.map_comp o_def split_def intro!: option.map_cong)
  qed
qed

lemma tlv_find_map_of: "map_option snd (tlv_find ts code) = map_of ts code"
  by (induction ts) (auto simp: option.map_comp o_def split_def)

lemma tlv_find_Some:
  "tlv_find ts code = Some (k, d) \<Longrightarrow>
     k + 2 + length d \<le> length (enc_tlvs ts) \<and> take (length d) (drop (k + 2) (enc_tlvs ts)) = d"
proof (induction ts arbitrary: k)
  case Nil
  then show ?case by simp
next
  case (Cons t ts)
  show ?case
  proof (cases "fst t = code")
    case True
    with Cons.prems show ?thesis by (simp add: enc_tlv_def)
  next
    case False
    with Cons.prems obtain k' where "tlv_find ts code = Some (k', d)"
      and "k = k' + length (snd t) + 2" by auto
    with Cons.IH [of k'] show ?thesis by (simp add: enc_tlv_def)
  qed
qed

definition msg_opts :: "dhcpMessage \<Rightarrow> tlv list \<Rightarrow> bool" where
  "msg_opts p ts \<longleftrightarrow> opt_area (m_options p) ts"

lemma get_option_area:
  assumes "msg_opts p ts" and "no_overload ts" and "code \<noteq> DHCP_END"
  shows "get_option p code =
     Some (map_option (\<lambda>(k, d). (OPTION_FIELD, k + 2, length d)) (tlv_find ts code))"
proof -
  obtain junk where "m_options p = [] @ enc_tlvs ts @ DHCP_END # junk"
    and "length (enc_tlvs ts) + 1 + length junk = 308" and "list_all wf_tlv ts"
    using assms(1) unfolding msg_opts_def by (auto elim: opt_areaE)
  with assms(2,3) get_option_loop_enc [of p "[]" ts junk code] show ?thesis
    by (simp add: get_option_def)
qed

lemma opt_value_area:
  assumes "msg_opts p ts" and "no_overload ts" and "code \<noteq> DHCP_END"
  shows "opt_value p code = Some (map_of ts code)"
proof (cases "tlv_find ts code")
  case None
  then show ?thesis
    using get_option_area [OF assms] tlv_find_map_of [of ts code] by (simp add: opt_value_def)
next
  case (Some kd)
  obtain k d where kd: "kd = (k, d)" by fastforce
  obtain junk where m: "m_options p = enc_tlvs ts @ DHCP_END # junk"
    using assms(1) unfolding msg_opts_def by (auto elim: opt_areaE)
  have "opt_data p (OPTION_FIELD, k + 2, length d) (length d) = Some d"
    using tlv_find_Some [of ts code k d] Some kd by (simp add: opt_data_def rd_n_def m)
  moreover have "map_of ts code = Some d"
    using tlv_find_map_of [of ts code] Some kd by simp
  ultimately show ?thesis
    using get_option_area [OF assms] Some kd by (simp add: opt_value_def)
qed

text \<open>What a caller gets from \<open>get_option\<close> on a well-formed area.\<close>

lemma get_option_absent:
  assumes "msg_opts p ts" and "no_overload ts" and "code \<noteq> DHCP_END" and "map_of ts code = None"
  shows "get_option p code = Some None"
  using get_option_area [OF assms(1-3)] tlv_find_map_of [of ts code] assms(4) by auto

lemma get_option_found:
  assumes "msg_opts p ts" and "no_overload ts" and "code \<noteq> DHCP_END" and "map_of ts code = Some d"
  obtains op where "get_option p code = Some (Some op)" and "snd (snd op) = length d"
    and "\<And>n. n \<le> length d \<Longrightarrow> opt_data p op n = Some (take n d)"
    and "d \<noteq> [] \<Longrightarrow> opt_byte p op = Some (hd d)"
proof -
  obtain k where k: "tlv_find ts code = Some (k, d)"
    using tlv_find_map_of [of ts code] assms(4) by (cases "tlv_find ts code") auto
  obtain junk where m: "m_options p = enc_tlvs ts @ DHCP_END # junk"
    using assms(1) unfolding msg_opts_def by (auto elim: opt_areaE)
  have d: "k + 2 + length d \<le> length (enc_tlvs ts)" "take (length d) (drop (k + 2) (enc_tlvs ts)) = d"
    using tlv_find_Some [OF k] by simp_all
  have n: "take n (drop (k + 2) (m_options p)) = take n d" if "n \<le> length d" for n
    using d that by (simp add: m) (metis min.absorb1 take_take)
  show thesis
  proof (rule that [of "(OPTION_FIELD, k + 2, length d)"])
    show "get_option p code = Some (Some (OPTION_FIELD, k + 2, length d))"
      using get_option_area [OF assms(1-3)] k by simp
    show "opt_data p (OPTION_FIELD, k + 2, length d) n = Some (take n d)" if "n \<le> length d" for n
      using n [OF that] d(1) that by (simp add: opt_data_def rd_n_def m)
    show "opt_byte p (OPTION_FIELD, k + 2, length d) = Some (hd d)" if "d \<noteq> []"
    proof -
      have "take 1 (drop (k + 2) (m_options p)) = [hd d]"
        using n [of 1] that by (cases d) simp_all
      moreover have "k + 2 < length (m_options p)"
        using d(1) by (simp add: m)
      ultimately show ?thesis
        by (simp add: opt_byte_def rd_def take_Suc hd_drop_conv_nth)
    qed
  qed simp
qed

lemma get_option_u32:
  assumes "msg_opts p ts" and "no_overload ts" and "code \<noteq> DHCP_END" and "map_of ts code = Some d"
    and "4 \<le> length d"
  obtains op where "get_option p code = Some (Some op)" and "opt_u32 p op = Some (le32_of (take 4 d))"
  using get_option_found [OF assms(1-4)] assms(5) by (metis opt_u32_def option.simps(9))

subsection \<open>The interface the packet builders rely on\<close>

text \<open>A store of options is represented by a list of \<open>tlv\<close> values; an addition appends one or,
  when the 308 bytes of the area are used up, changes nothing; a lookup returns the first value
  with the code.\<close>

locale option_store =
  fixes repr :: "'m \<Rightarrow> tlv list \<Rightarrow> bool"
    and add :: "'m \<Rightarrow> byte list \<Rightarrow> 'm option"
    and val :: "'m \<Rightarrow> byte \<Rightarrow> byte list option option"
  assumes add_fits: "repr m ts \<Longrightarrow> wf_tlv t \<Longrightarrow>
      length (enc_tlvs ts) + length (snd t) + 3 < 308 \<Longrightarrow>
      \<exists>m'. add m (enc_tlv t) = Some m' \<and> repr m' (ts @ [t])"
    and add_full: "repr m ts \<Longrightarrow> wf_tlv t \<Longrightarrow>
      308 \<le> length (enc_tlvs ts) + length (snd t) + 3 \<Longrightarrow> add m (enc_tlv t) = Some m"
    and val_repr: "repr m ts \<Longrightarrow> no_overload ts \<Longrightarrow> code \<noteq> DHCP_END \<Longrightarrow>
      val m code = Some (map_of ts code)"
begin

lemma add_cases:
  assumes "repr m ts" and "wf_tlv t"
  obtains m' where "add m (enc_tlv t) = Some m'" and "repr m' (ts @ [t])"
    | "add m (enc_tlv t) = Some m"
  using assms add_fits add_full by (meson not_le)

lemma add_repr:
  assumes "repr m ts" and "wf_tlv t"
  shows "\<exists>m' ts'. add m (enc_tlv t) = Some m' \<and> repr m' (ts @ ts') \<and> set ts' \<subseteq> {t}"
proof (rule add_cases [OF assms])
  fix m' assume "add m (enc_tlv t) = Some m'" and "repr m' (ts @ [t])"
  then show ?thesis by (intro exI [of _ m'] exI [of _ "[t]"]) simp
next
  assume "add m (enc_tlv t) = Some m"
  then show ?thesis using assms(1) by (intro exI [of _ m] exI [of _ "[]"]) simp
qed

lemma val_kept:
  assumes "repr m (ts @ ts')" and "no_overload (ts @ ts')" and "code \<noteq> DHCP_END"
    and "map_of ts code = Some d"
  shows "val m code = Some (Some d)"
  using val_repr [OF assms(1-3)] assms(4) by (simp add: map_add_def)

end

lemma msg_add_string_fits:
  assumes "msg_opts p ts" and "wf_tlv t" and "length (enc_tlvs ts) + length (snd t) + 3 < 308"
  shows "\<exists>p'. msg_add_string p (enc_tlv t) = Some p' \<and> msg_opts p' (ts @ [t])"
proof -
  obtain a' where "add_option_string (m_options p) (enc_tlv t) = Some (a', length (snd t) + 2)"
    and "opt_area a' (ts @ [t])"
    using add_option_string_fits [of "m_options p" ts t "[]"] assms unfolding msg_opts_def by auto
  then show ?thesis by (auto simp: msg_add_string_def msg_opts_def)
qed

lemma msg_add_string_full:
  assumes "msg_opts p ts" and "wf_tlv t" and "308 \<le> length (enc_tlvs ts) + length (snd t) + 3"
  shows "msg_add_string p (enc_tlv t) = Some p"
  using assms add_option_string_full [of "m_options p" ts t "[]"]
  by (simp add: msg_add_string_def msg_opts_def)

interpretation opts: option_store msg_opts msg_add_string opt_value
  by unfold_locales
    (use msg_add_string_fits msg_add_string_full opt_value_area in blast)+

text \<open>The builders only ever change the option area of the message.\<close>

lemma msg_add_string_frame:
  "msg_add_string p s = Some p' \<Longrightarrow> p' = p\<lparr>m_options := m_options p'\<rparr>"
  by (auto simp: msg_add_string_def)

lemma msg_add_simple_frame:
  "msg_add_simple p c d = Some p' \<Longrightarrow> p' = p\<lparr>m_options := m_options p'\<rparr>"
  by (auto simp: msg_add_simple_def)

lemma add_option_string_length:
  "add_option_string a s = Some (a', n) \<Longrightarrow> length a' = length a"
  by (auto simp: add_option_string_def Let_def wr_length split: bind_splits if_splits)

lemma msg_add_string_wf: "wf_msg p \<Longrightarrow> msg_add_string p s = Some p' \<Longrightarrow> wf_msg p'"
  by (auto simp: msg_add_string_def wf_msg_def dest: add_option_string_length)

lemma msg_add_simple_wf: "wf_msg p \<Longrightarrow> msg_add_simple p c d = Some p' \<Longrightarrow> wf_msg p'"
  by (auto simp: msg_add_simple_def add_simple_option_def wf_msg_def
      dest: add_option_string_length split: bind_splits if_splits)

definition wf_block :: "byte list \<Rightarrow> bool" where
  "wf_block d \<longleftrightarrow> 2 \<le> length d \<and> length d = unat (d ! OPT_LEN) + 2 \<and>
     d ! OPT_CODE \<noteq> DHCP_PADDING \<and> d ! OPT_CODE \<noteq> DHCP_END"

lemma msg_add_string_upd:
  assumes "msg_add_string p s = Some p'"
  obtains a where "p' = p\<lparr>m_options := a\<rparr>"
  using assms by (auto simp: msg_add_string_def)

lemma wf_block_tlv:
  assumes "wf_block d"
  shows "d = enc_tlv (d ! OPT_CODE, drop 2 d) \<and> wf_tlv (d ! OPT_CODE, drop 2 d)"
proof -
  obtain c l v where d: "d = c # l # v" and v: "length v = unat l"
    using assms by (cases d; cases "tl d") (auto simp: wf_block_def)
  moreover have "of_nat (unat l) = l" by simp
  ultimately show ?thesis
    using assms by (simp add: wf_block_def enc_tlv_def wf_tlv_def)
qed

text \<open>The options that the program adds with \<open>add_simple_option\<close>, with their widths.\<close>

lemma simple_lengths:
  "simple_option_length DHCP_MESSAGE_TYPE dhcp_options 0 = Some 1"
  "simple_option_length DHCP_SERVER_ID dhcp_options 0 = Some 4"
  "simple_option_length DHCP_LEASE_TIME dhcp_options 0 = Some 4"
  "simple_option_length DHCP_REQUESTED_IP dhcp_options 0 = Some 4"
  by (simp_all add: dhcp_options_def option_lengths_def rd_def)

lemma msg_add_simple_string:
  assumes "simple_option_length code dhcp_options 0 = Some n" and "n \<in> {1, 2, 4}"
  shows "msg_add_simple p code data = msg_add_string p (enc_tlv (code, take n (bytes_le32 data)))"
  using assms
  by (auto simp: msg_add_simple_def msg_add_string_def add_simple_option_def enc_tlv_def)

lemmas msg_add_simple_strings =
  simple_lengths [THEN msg_add_simple_string, simplified]

subsection \<open>Bounds of \<open>get_option\<close> on arbitrary messages\<close>

lemma wf_msg_opt_array: "wf_msg p \<Longrightarrow> length (opt_array p f) = field_length f"
  by (cases f) (simp_all add: wf_msg_def)

definition optptr_ok :: "dhcpMessage \<Rightarrow> byte \<Rightarrow> optptr \<Rightarrow> bool" where
  "optptr_ok p code op \<longleftrightarrow> (case op of (f, off, len) \<Rightarrow>
     2 \<le> off \<and> off + len \<le> length (opt_array p f) \<and>
     opt_array p f ! (off - 2) = code \<and> unat (opt_array p f ! (off - 1)) = len)"

lemma get_option_loop_ok:
  assumes "wf_msg p" and "get_option_loop p code fd i over = Some (Some op)"
  shows "optptr_ok p code op"
  using assms
proof (induction p code fd i over rule: get_option_loop.induct)
  case (1 p code fd i over)
  note step = get_option_loop.simps [of p code fd i over]
  have i: "\<not> field_length fd \<le> i" and c: "rd (opt_array p fd) i = Some (opt_array p fd ! i)"
    using "1.prems" by (auto simp: step rd_def wf_msg_opt_array split: if_splits option.splits)
  show ?case
  proof (cases "opt_array p fd ! i = code")
    case True
    with "1.prems" i c show ?thesis
      by (auto simp: step cmem wf_msg_opt_array optptr_ok_def split: if_splits option.splits)
  next
    case False
    with "1.IH" "1.prems" i c show ?thesis
      by (simp add: step split: if_splits option.splits)
  qed
qed

lemma get_option_ok:
  "wf_msg p \<Longrightarrow> get_option p code = Some (Some op) \<Longrightarrow> optptr_ok p code op"
  unfolding get_option_def by (rule get_option_loop_ok)

lemma get_option_bounds:
  assumes "wf_msg p" and "get_option p code = Some (Some (f, off, len))"
  shows "off + len \<le> length (opt_array p f)"
  using get_option_ok [OF assms] by (simp add: optptr_ok_def)

lemma opt_value_defined:
  assumes "wf_msg p" and "get_option p code = Some r"
  shows "\<exists>v. opt_value p code = Some v"
  using assms get_option_bounds [of p code]
  by (cases r) (auto simp: opt_value_def opt_data_def rd_n_def)

lemma opt_u32_defined:
  assumes "wf_msg p" and "get_option p code = Some (Some (f, off, len))" and "4 \<le> len"
  shows "\<exists>w. opt_u32 p (f, off, len) = Some w"
  using assms get_option_bounds [of p code f off len]
  by (auto simp: opt_u32_def opt_data_def rd_n_def)

subsection \<open>The configured option list is a sorted finite map\<close>

definition wf_optset :: "option_set \<Rightarrow> bool" where
  "wf_optset ds \<longleftrightarrow> list_all wf_block ds \<and> sorted_wrt (\<lambda>a b. a ! OPT_CODE < b ! OPT_CODE) ds"

definition optset_map :: "option_set \<Rightarrow> byte \<Rightarrow> byte list option" where
  "optset_map ds c = map_option (drop 2) (find (\<lambda>d. d ! OPT_CODE = c) ds)"

lemma find_option_find:
  "sorted_wrt (\<lambda>a b. a ! OPT_CODE < b ! OPT_CODE) ds \<Longrightarrow>
     find_option ds c = find (\<lambda>d. d ! OPT_CODE = c) ds"
proof (induction ds)
  case Nil
  then show ?case by (simp add: find_option_def)
next
  case (Cons d ds)
  then show ?case
    by (cases "d ! OPT_CODE < c")
       (auto simp: find_option_def find_None_iff intro!: sym [of _ None])
qed

lemma wf_optset_Cons:
  "wf_optset (d # ds) \<longleftrightarrow>
     wf_block d \<and> wf_optset ds \<and> (\<forall>e \<in> set ds. d ! OPT_CODE < e ! OPT_CODE)"
  by (auto simp: wf_optset_def)

lemma optset_map_Cons:
  "optset_map (d # ds) c = (if d ! OPT_CODE = c then Some (drop 2 d) else optset_map ds c)"
  by (simp add: optset_map_def)

lemma optset_map_Nil [simp]: "optset_map [] c = None"
  by (simp add: optset_map_def)

lemma optset_map_find_option:
  "wf_optset ds \<Longrightarrow> optset_map ds c = map_option (drop 2) (find_option ds c)"
  by (simp add: optset_map_def find_option_find wf_optset_def)

lemma optset_map_None:
  "optset_map ds c = None \<longleftrightarrow> (\<forall>d \<in> set ds. d ! OPT_CODE \<noteq> c)"
  by (auto simp: optset_map_def find_None_iff)

lemma set_insert_block:
  "set (takeWhile P ds @ n # dropWhile P ds) = insert n (set ds)"
  by (metis Un_insert_right list.simps(15) set_append takeWhile_dropWhile_id)

lemma insert_block:
  assumes "wf_optset ds" and "wf_block new" and "new ! OPT_CODE = c" and "optset_map ds c = None"
  defines "ds' \<equiv> takeWhile (\<lambda>d. d ! OPT_CODE < c) ds @ new # dropWhile (\<lambda>d. d ! OPT_CODE < c) ds"
  shows "wf_optset ds' \<and> optset_map ds' = (optset_map ds)(c \<mapsto> drop 2 new)"
  using assms(1,4) unfolding ds'_def
proof (induction ds)
  case Nil
  then show ?case using assms(2,3) by (auto simp: wf_optset_Cons optset_map_Cons wf_optset_def)
next
  case (Cons d ds)
  then have IH: "wf_optset (takeWhile (\<lambda>d. d ! OPT_CODE < c) ds @
      new # dropWhile (\<lambda>d. d ! OPT_CODE < c) ds)"
    "optset_map (takeWhile (\<lambda>d. d ! OPT_CODE < c) ds @
      new # dropWhile (\<lambda>d. d ! OPT_CODE < c) ds) = (optset_map ds)(c \<mapsto> drop 2 new)"
    by (auto simp: wf_optset_Cons optset_map_Cons split: if_splits)
  show ?case
  proof (cases "d ! OPT_CODE < c")
    case True
    with Cons.prems IH assms(3) show ?thesis
      by (auto simp: wf_optset_Cons optset_map_Cons set_insert_block fun_eq_iff simp del: set_append)
  next
    case False
    with Cons.prems have "c < d ! OPT_CODE"
      by (auto simp: optset_map_Cons split: if_splits)
    with Cons.prems False assms(2,3) show ?thesis
      by (auto simp: wf_optset_Cons optset_map_Cons fun_eq_iff dest: order.strict_trans)
  qed
qed

lemma extend_block:
  assumes "wf_block d" and "len \<le> length buffer" and "unat (d ! OPT_LEN) + len \<le> 255"
  defines "d' \<equiv> (take (unat (d ! OPT_LEN) + 2) d @ take len buffer)[OPT_LEN := d ! OPT_LEN + of_nat len]"
  shows "wf_block d' \<and> d' ! OPT_CODE = d ! OPT_CODE \<and> drop 2 d' = drop 2 d @ take len buffer"
proof -
  obtain c l v where d: "d = c # l # v" and v: "length v = unat l" "c \<noteq> DHCP_PADDING" "c \<noteq> DHCP_END"
    using assms(1) unfolding wf_block_def
    by (cases d; cases "tl d") auto
  have "unat (l + of_nat len) = unat l + len"
    using assms(3) d by (subst unat_word_ariths) simp
  then show ?thesis
    using v assms(2) by (simp add: d'_def d wf_block_def)
qed

lemma extend_existing_correct:
  assumes "wf_optset ds" and "len \<le> length buffer" and "optset_map ds c = Some v"
  shows "wf_optset (extend_existing c buffer len ds) \<and>
     (\<lambda>d. d ! OPT_CODE) ` set (extend_existing c buffer len ds) = (\<lambda>d. d ! OPT_CODE) ` set ds \<and>
     optset_map (extend_existing c buffer len ds) =
       (optset_map ds)(c \<mapsto> if length v + len \<le> 255 then v @ take len buffer else v)"
  using assms(1,3)
proof (induction ds)
  case Nil
  then show ?case by simp
next
  case (Cons d ds)
  show ?case
  proof (cases "d ! OPT_CODE < c")
    case True
    with Cons.prems have "optset_map ds c = Some v"
      by (auto simp: optset_map_Cons split: if_splits)
    with Cons.IH Cons.prems(1)
    have IH: "wf_optset (extend_existing c buffer len ds)"
      "(\<lambda>d. d ! OPT_CODE) ` set (extend_existing c buffer len ds) = (\<lambda>d. d ! OPT_CODE) ` set ds"
      "optset_map (extend_existing c buffer len ds) =
         (optset_map ds)(c \<mapsto> if length v + len \<le> 255 then v @ take len buffer else v)"
      by (auto simp: wf_optset_Cons)
    from IH(2) Cons.prems(1) have "\<forall>e \<in> set (extend_existing c buffer len ds). d ! OPT_CODE < e ! OPT_CODE"
      by (metis (no_types, lifting) image_iff wf_optset_Cons)
    with IH True Cons.prems(1) show ?thesis
      by (auto simp: wf_optset_Cons optset_map_Cons fun_eq_iff)
  next
    case False
    with Cons.prems have dc: "d ! OPT_CODE = c" and v: "v = drop 2 d"
      by (auto simp: optset_map_Cons wf_optset_Cons optset_map_def find_Some_iff split: if_splits)
    have d: "wf_block d" and "length v = unat (d ! OPT_LEN)"
      using Cons.prems(1) v by (auto simp: wf_optset_Cons wf_block_def)
    then show ?thesis
      using extend_block [OF d assms(2)] Cons.prems(1) dc v False
      by (auto simp: wf_optset_Cons optset_map_Cons fun_eq_iff simp del: One_nat_def)
  qed
qed

text \<open>\<open>attach_option\<close> refines the update of a finite map from codes to values: a new code gets
  the value, a list-valued option that still fits in 255 bytes is extended, and everything else
  is left alone.\<close>

definition optmap_attach ::
  "(byte \<Rightarrow> byte list option) \<Rightarrow> dhcp_option \<Rightarrow> byte list \<Rightarrow> byte \<Rightarrow> byte list option" where
  "optmap_attach m opt v = m(opt_code opt \<mapsto>
     (case m (opt_code opt) of
        None \<Rightarrow> v
      | Some old \<Rightarrow> if opt_flags opt AND OPTION_LIST \<noteq> 0 \<and> length old + length v \<le> 255
                    then old @ v else old))"

lemma attach_option_correct:
  assumes "wf_optset ds" and "len \<le> length buffer" and "len \<le> 255"
    and "opt_code opt \<noteq> DHCP_PADDING" and "opt_code opt \<noteq> DHCP_END"
  shows "wf_optset (attach_option ds opt buffer len) \<and>
     optset_map (attach_option ds opt buffer len) =
       optmap_attach (optset_map ds) opt (take len buffer)"
proof (cases "optset_map ds (opt_code opt)")
  case None
  have "wf_block ([opt_code opt, of_nat len] @ take len buffer)"
    using assms(2-5) by (simp add: wf_block_def)
  from insert_block [OF assms(1) this _ None] None optset_map_find_option [OF assms(1)]
  show ?thesis
    by (simp add: attach_option_def optmap_attach_def)
next
  case (Some v)
  then obtain d where "find_option ds (opt_code opt) = Some d"
    using optset_map_find_option [OF assms(1)] by auto
  with extend_existing_correct [OF assms(1,2) Some] Some assms(1,2) show ?thesis
    by (auto simp: attach_option_def optmap_attach_def min_def fun_eq_iff)
qed

subsection \<open>Properties\<close>

text \<open>C18: Whatever bytes a message holds, a pointer that \<open>get_option\<close> returns is preceded by the
  requested code and the length byte, and the value lies inside the array it points into.\<close>

theorem get_option_in_bounds:
  assumes "wf_msg p" and "get_option p code = Some (Some (f, off, len))"
  shows "2 \<le> off \<and> off + len \<le> length (opt_array p f) \<and> opt_array p f ! (off - 2) = code \<and>
     unat (opt_array p f ! (off - 1)) = len"
  using get_option_ok [OF assms] by (simp add: optptr_ok_def)

text \<open>A message with a server identifier and a message type, used by the witnesses below.\<close>

abbreviation (input) sample_opts :: "tlv list" where
  "sample_opts \<equiv> [(DHCP_MESSAGE_TYPE, [5]), (DHCP_SERVER_ID, [192, 168, 0, 1])]"

definition sample_msg :: dhcpMessage where
  "sample_msg = zero_msg\<lparr>m_options := enc_tlvs sample_opts @ DHCP_END # replicate 298 0\<rparr>"

lemma sample_msg_wf: "wf_msg sample_msg" and sample_msg_opts: "msg_opts sample_msg sample_opts"
  by (simp_all add: sample_msg_def wf_msg_def zero_msg_def msg_opts_def opt_area_def wf_tlv_def)

theorem get_option_in_bounds_witness:
  "2 \<le> (5 :: nat) \<and> 5 + 4 \<le> length (opt_array sample_msg OPTION_FIELD) \<and>
   opt_array sample_msg OPTION_FIELD ! (5 - 2) = DHCP_SERVER_ID \<and>
   unat (opt_array sample_msg OPTION_FIELD ! (5 - 1)) = 4"
proof (rule get_option_in_bounds)
  show "get_option sample_msg DHCP_SERVER_ID = Some (Some (OPTION_FIELD, 5, 4))"
    by (subst get_option_area [OF sample_msg_opts]) (simp_all add: no_overload_def)
qed (rule sample_msg_wf)

text \<open>C16: In a message with a well-formed option area and no overload option, an option that
  fits (with its two header bytes and the end mark below 308 bytes) is stored by \<open>add_option_string\<close> so that \<open>get_option\<close> returns it when
  the message had no option of that code, while an earlier option of the same code hides it.
  Every option that was there before is still returned, with the value it had.\<close>

theorem add_option_get_option:
  assumes "msg_opts p ts" and "wf_tlv t" and "no_overload (ts @ [t])"
    and "length (enc_tlvs ts) + length (snd t) + 3 < 308"
  shows "\<exists>p'. msg_add_string p (enc_tlv t) = Some p' \<and>
     opt_value p' (fst t) = Some (Some (case map_of ts (fst t) of None \<Rightarrow> snd t | Some d \<Rightarrow> d)) \<and>
     (\<forall>c d. c \<noteq> DHCP_END \<and> opt_value p c = Some (Some d) \<longrightarrow> opt_value p' c = Some (Some d))"
proof -
  obtain p' where p': "msg_add_string p (enc_tlv t) = Some p'" "msg_opts p' (ts @ [t])"
    using opts.add_fits [OF assms(1,2,4)] by blast
  have "no_overload ts" "fst t \<noteq> DHCP_END"
    using assms(2,3) by (auto simp: no_overload_def wf_tlv_def)
  moreover have "opt_value p' (fst t) = Some (Some (case map_of ts (fst t) of None \<Rightarrow> snd t | Some d \<Rightarrow> d))"
    using opts.val_repr [OF p'(2) assms(3) calculation(2)]
    by (cases t) (simp add: map_add_def split: option.splits)
  ultimately show ?thesis
    using p' opts.val_kept [OF p'(2) assms(3)] opts.val_repr [OF assms(1)] by auto
qed

theorem add_option_get_option_witness:
  "\<exists>p'. msg_add_string sample_msg (enc_tlv (DHCP_LEASE_TIME, [0, 0, 14, 16])) = Some p' \<and>
     opt_value p' (fst (DHCP_LEASE_TIME, [0, 0, 14, 16 :: byte])) =
       Some (Some (case map_of sample_opts (fst (DHCP_LEASE_TIME, [0, 0, 14, 16 :: byte])) of
         None \<Rightarrow> snd (DHCP_LEASE_TIME, [0, 0, 14, 16]) | Some d \<Rightarrow> d)) \<and>
     (\<forall>c d. c \<noteq> DHCP_END \<and> opt_value sample_msg c = Some (Some d) \<longrightarrow> opt_value p' c = Some (Some d))"
  by (rule add_option_get_option [OF sample_msg_opts]) (simp_all add: wf_tlv_def no_overload_def)

text \<open>C17: The configured option list behaves as a finite map from codes to values, kept in strictly
  increasing order of the codes with exact length bytes: \<open>attach_option\<close> inserts a new code,
  extends a list-valued option while it fits in 255 bytes, and changes nothing otherwise.\<close>

theorem attach_option_refines:
  assumes "wf_optset ds" and "len \<le> length buffer" and "len \<le> 255"
    and "opt_code opt \<noteq> DHCP_PADDING" and "opt_code opt \<noteq> DHCP_END"
  shows "wf_optset (attach_option ds opt buffer len) \<and>
     optset_map (attach_option ds opt buffer len) =
       optmap_attach (optset_map ds) opt (take len buffer)"
  using attach_option_correct [OF assms] .

theorem attach_option_refines_witness:
  "wf_optset (attach_option [[1, 1, 9], [6, 2, 7, 8]] \<lparr>opt_name = ''dns'', opt_flags = OPTION_IP OR OPTION_LIST, opt_code = 6\<rparr> [5, 5] 2) \<and>
   optset_map (attach_option [[1, 1, 9], [6, 2, 7, 8]] \<lparr>opt_name = ''dns'', opt_flags = OPTION_IP OR OPTION_LIST, opt_code = 6\<rparr> [5, 5] 2) =
     optmap_attach (optset_map [[1, 1, 9], [6, 2, 7, 8]])
       \<lparr>opt_name = ''dns'', opt_flags = OPTION_IP OR OPTION_LIST, opt_code = 6\<rparr> (take 2 [5, 5])"
  by (rule attach_option_refines) (simp_all add: wf_optset_def wf_block_def)

text \<open>The value of the overload option is taken from the byte after the option instead of its
  value byte.  In a message that starts with the overload value 1 (the \<^verbatim>\<open>file\<close> field holds options)
  and a server identifier, the code of that second option is taken as the overload value and the
  \<^verbatim>\<open>file\<close> field is not searched, whatever it holds.\<close>

theorem get_option_overload_misread:
  assumes "m_options p = [DHCP_OPTION_OVER, 1, 1, DHCP_SERVER_ID, 4, a, b, c, d, DHCP_END] @ junk"
  shows "get_option p DHCP_HOST_NAME = Some None"
proof -
  have "get_option_loop p DHCP_HOST_NAME OPTION_FIELD 9 DHCP_SERVER_ID = Some None"
    using assms by (subst get_option_loop.simps) (simp add: rd_def)
  then have "get_option_loop p DHCP_HOST_NAME OPTION_FIELD 3 DHCP_SERVER_ID = Some None"
    using assms by (subst get_option_loop.simps) (simp add: rd_def)
  then show ?thesis
    using assms unfolding get_option_def
    by (subst get_option_loop.simps) (simp add: rd_def numeral_3_eq_3)
qed

theorem get_option_overload_misread_witness:
  "get_option (zero_msg\<lparr>m_options := [DHCP_OPTION_OVER, 1, 1, DHCP_SERVER_ID, 4, 192, 168, 0, 1, DHCP_END]
       @ replicate 298 0,
     m_file := [DHCP_HOST_NAME, 1, 0x61, DHCP_END] @ replicate 124 0\<rparr>) DHCP_HOST_NAME = Some None"
  by (rule get_option_overload_misread) simp

lemma get_option_loop_padding:
  assumes "\<forall>j. i \<le> j \<and> j < n \<longrightarrow> rd (m_options p) j = Some DHCP_PADDING" and "i \<le> n" and "n \<le> 308"
    and "code \<noteq> DHCP_PADDING"
  shows "get_option_loop p code OPTION_FIELD i over = get_option_loop p code OPTION_FIELD n over"
  using assms(2,1)
proof (induction rule: inc_induct)
  case (step i)
  then show ?case
    using assms(3,4) by (subst get_option_loop.simps) simp
qed simp

text \<open>The length byte of an option whose code is the last byte of the option area is read
  beyond the area, because the test against the length of the area comes after the read.\<close>

theorem get_option_reads_past_end:
  assumes "m_options p = replicate 307 DHCP_PADDING @ [code]" and "code \<noteq> DHCP_PADDING"
  shows "get_option p code = None"
proof -
  have "get_option_loop p code OPTION_FIELD 0 0 = get_option_loop p code OPTION_FIELD 307 0"
    using assms by (intro get_option_loop_padding) (auto simp: rd_def nth_append)
  moreover have "get_option_loop p code OPTION_FIELD 307 0 = None"
    using assms by (subst get_option_loop.simps) (simp add: rd_def nth_append)
  ultimately show ?thesis
    by (simp add: get_option_def)
qed

theorem get_option_reads_past_end_witness:
  "get_option (zero_msg\<lparr>m_options := replicate 307 DHCP_PADDING @ [DHCP_MESSAGE_TYPE]\<rparr>)
     DHCP_MESSAGE_TYPE = None"
  by (rule get_option_reads_past_end) simp_all

end
