(* ===== verification/Dhcp_Packet.thy ===== *)
theory Dhcp_Packet
  imports Dhcp_Options
begin

section \<open>Packets on the wire (\<^verbatim>\<open>udhcp-0.9.8/packet.c\<close>, \<open>get_raw_packet\<close> of \<^verbatim>\<open>clientpacket.c\<close>)\<close>

text \<open>
  Header initialisation, the Internet checksum, the IP/UDP frame that \<open>raw_packet\<close> builds, the
  datagram that \<open>kernel_packet\<close> hands to the kernel, and the two receive routines.  The results
  of the socket calls are arguments of the definitions (\<open>sock_env\<close>, the bytes \<^verbatim>\<open>read\<close> delivers).
\<close>

subsection \<open>Message header\<close>

definition init_header :: "byte \<Rightarrow> dhcpMessage option" where
  "init_header type =
    (let p = zero_msg;
         p = (if type \<in> {DHCPDISCOVER, DHCPREQUEST, DHCPRELEASE, DHCPINFORM}
              then p\<lparr>m_op := BOOTREQUEST\<rparr>
              else if type \<in> {DHCPOFFER, DHCPACK, DHCPNAK} then p\<lparr>m_op := BOOTREPLY\<rparr> else p);
         p = p\<lparr>m_htype := ETH_10MB, m_hlen := ETH_10MB_LEN, m_cookie := htonl DHCP_MAGIC,
               m_options := (m_options p)[0 := DHCP_END]\<rparr>
     in msg_add_simple p DHCP_MESSAGE_TYPE (ucast type))"

subsection \<open>Internet checksum\<close>

text \<open>The accumulator is an \<^verbatim>\<open>int32_t\<close>; lemma \<open>checksum_sum_bound\<close> below shows that it stays
  below \<open>2 ^ 31\<close> for every block of at most 65536 bytes, so a natural number is exact.\<close>

fun checksum_sum :: "nat \<Rightarrow> byte list \<Rightarrow> nat" where
  "checksum_sum s (a # b # bs) = checksum_sum (s + unat (le16 a b)) bs"
| "checksum_sum s [a] = s + unat (le16 a 0)"
| "checksum_sum s [] = s"

function checksum_fold :: "nat \<Rightarrow> nat" where
  "checksum_fold s =
    (if s div 65536 \<noteq> 0 then checksum_fold (s mod 65536 + s div 65536) else s)"
  by pat_completeness auto
termination
proof (relation "measure id")
  fix s :: nat
  assume "s div 65536 \<noteq> 0"
  then have "s mod 65536 + s div 65536 < s"
    using div_mult_mod_eq [of s 65536] by linarith
  then show "(s mod 65536 + s div 65536, s) \<in> measure id"
    by simp
qed simp

declare checksum_fold.simps [simp del]

definition checksum :: "byte list \<Rightarrow> u16" where
  "checksum addr = NOT (of_nat (checksum_fold (checksum_sum 0 addr)))"

subsection \<open>IP and UDP headers\<close>

record iphdr =
  ip_ihl :: "4 word"
  ip_version :: "4 word"
  ip_tos :: byte
  ip_tot_len :: u16
  ip_id :: u16
  ip_frag_off :: u16
  ip_ttl :: byte
  ip_protocol :: byte
  ip_check :: u16
  ip_saddr :: u32
  ip_daddr :: u32

record udphdr =
  udp_source :: u16
  udp_dest :: u16
  udp_len :: u16
  udp_check :: u16

record udp_dhcp_packet =
  pk_ip :: iphdr
  pk_udp :: udphdr
  pk_data :: dhcpMessage

definition ip_bytes :: "iphdr \<Rightarrow> byte list" where
  "ip_bytes h = [ucast (ip_ihl h) OR push_bit 4 (ucast (ip_version h)), ip_tos h] @
     bytes_le16 (ip_tot_len h) @ bytes_le16 (ip_id h) @ bytes_le16 (ip_frag_off h) @
     [ip_ttl h, ip_protocol h] @ bytes_le16 (ip_check h) @
     bytes_le32 (ip_saddr h) @ bytes_le32 (ip_daddr h)"

definition ip_of_bytes :: "byte list \<Rightarrow> iphdr" where
  "ip_of_bytes bs = \<lparr>ip_ihl = ucast (bs ! 0), ip_version = ucast (drop_bit 4 (bs ! 0)),
     ip_tos = bs ! 1, ip_tot_len = le16_of (fld bs 2 2), ip_id = le16_of (fld bs 4 2),
     ip_frag_off = le16_of (fld bs 6 2), ip_ttl = bs ! 8, ip_protocol = bs ! 9,
     ip_check = le16_of (fld bs 10 2), ip_saddr = le32_of (fld bs 12 4),
     ip_daddr = le32_of (fld bs 16 4)\<rparr>"

definition udp_bytes :: "udphdr \<Rightarrow> byte list" where
  "udp_bytes h = bytes_le16 (udp_source h) @ bytes_le16 (udp_dest h) @
     bytes_le16 (udp_len h) @ bytes_le16 (udp_check h)"

definition udp_of_bytes :: "byte list \<Rightarrow> udphdr" where
  "udp_of_bytes bs = \<lparr>udp_source = le16_of (fld bs 0 2), udp_dest = le16_of (fld bs 2 2),
     udp_len = le16_of (fld bs 4 2), udp_check = le16_of (fld bs 6 2)\<rparr>"

definition packet_bytes :: "udp_dhcp_packet \<Rightarrow> byte list" where
  "packet_bytes k = ip_bytes (pk_ip k) @ udp_bytes (pk_udp k) @ dhcp_bytes (pk_data k)"

definition packet_of_bytes :: "byte list \<Rightarrow> udp_dhcp_packet" where
  "packet_of_bytes bs = \<lparr>pk_ip = ip_of_bytes (fld bs 0 20), pk_udp = udp_of_bytes (fld bs 20 8),
     pk_data = dhcp_of_bytes (fld bs 28 548)\<rparr>"

definition zero_ip :: iphdr where
  "zero_ip = \<lparr>ip_ihl = 0, ip_version = 0, ip_tos = 0, ip_tot_len = 0, ip_id = 0, ip_frag_off = 0,
     ip_ttl = 0, ip_protocol = 0, ip_check = 0, ip_saddr = 0, ip_daddr = 0\<rparr>"

abbreviation sizeof_packet :: nat where "sizeof_packet \<equiv> 576"
abbreviation (input) IPPROTO_UDP :: byte where "IPPROTO_UDP \<equiv> 17"
abbreviation (input) IPVERSION :: "4 word" where "IPVERSION \<equiv> 4"
abbreviation (input) IPDEFTTL :: byte where "IPDEFTTL \<equiv> 64"

subsection \<open>Sending\<close>

text \<open>The frame of \<open>raw_packet\<close>, from the first \<^verbatim>\<open>memset\<close> to the second checksum.\<close>

definition raw_frame :: "dhcpMessage \<Rightarrow> u32 \<Rightarrow> u16 \<Rightarrow> u32 \<Rightarrow> u16 \<Rightarrow> udp_dhcp_packet" where
  "raw_frame payload source_ip source_port dest_ip dest_port =
    (let ip = zero_ip\<lparr>ip_protocol := IPPROTO_UDP, ip_saddr := source_ip, ip_daddr := dest_ip\<rparr>;
         udp = \<lparr>udp_source = htons source_port, udp_dest = htons dest_port,
                udp_len = htons (8 + 548), udp_check = 0\<rparr>;
         ip = ip\<lparr>ip_tot_len := udp_len udp\<rparr>;
         packet = \<lparr>pk_ip = ip, pk_udp = udp, pk_data = payload\<rparr>;
         udp = udp\<lparr>udp_check := checksum (packet_bytes packet)\<rparr>;
         ip = ip\<lparr>ip_tot_len := htons 576, ip_ihl := 5, ip_version := IPVERSION,
                 ip_ttl := IPDEFTTL\<rparr>;
         ip = ip\<lparr>ip_check := checksum (ip_bytes ip)\<rparr>
     in \<lparr>pk_ip = ip, pk_udp = udp, pk_data = payload\<rparr>)"

text \<open>What the program gives to the network: a link-layer frame with its destination and
  interface, or a UDP datagram with its addresses (in the byte order the caller passed).\<close>

datatype net_out =
    RawFrame "byte list" int "byte list"
  | KernelUdp u32 u16 u32 u16 "byte list"

record sock_env =
  so_socket :: int
  so_setsockopt :: int
  so_bind :: int
  so_connect :: int
  so_send :: int

definition raw_packet :: "sock_env \<Rightarrow> dhcpMessage \<Rightarrow> u32 \<Rightarrow> u16 \<Rightarrow> u32 \<Rightarrow> u16 \<Rightarrow> byte list \<Rightarrow> int
    \<Rightarrow> int \<times> net_out list" where
  "raw_packet so payload source_ip source_port dest_ip dest_port dest_arp ifindex =
    (if so_socket so < 0 then (-1, [])
     else if so_bind so < 0 then (-1, [])
     else (so_send so,
           [RawFrame (take 6 dest_arp) ifindex
              (packet_bytes (raw_frame payload source_ip source_port dest_ip dest_port))]))"

definition kernel_packet :: "sock_env \<Rightarrow> dhcpMessage \<Rightarrow> u32 \<Rightarrow> u16 \<Rightarrow> u32 \<Rightarrow> u16
    \<Rightarrow> int \<times> net_out list" where
  "kernel_packet so payload source_ip source_port dest_ip dest_port =
    (if so_socket so < 0 then (-1, [])
     else if so_setsockopt so = -1 then (-1, [])
     else if so_bind so = -1 then (-1, [])
     else if so_connect so = -1 then (-1, [])
     else (so_send so,
           [KernelUdp source_ip source_port dest_ip dest_port (dhcp_bytes payload)]))"

subsection \<open>Receiving\<close>

text \<open>\<^verbatim>\<open>read\<close> into a zeroed structure of \<open>n\<close> bytes; \<open>None\<close> is a failed \<^verbatim>\<open>read\<close>.\<close>

definition pad_read :: "nat \<Rightarrow> byte list \<Rightarrow> byte list" where
  "pad_read n bs = take n bs @ replicate (n - length bs) 0"

abbreviation (input) MSFT_98 :: "byte list" where
  "MSFT_98 \<equiv> [0x4d, 0x53, 0x46, 0x54, 0x20, 0x39, 0x38]"

text \<open>The loop over \<^verbatim>\<open>broken_vendors\<close>, whose only entry is \<^verbatim>\<open>"MSFT 98"\<close>.  \<^verbatim>\<open>vendor[OPT_LEN - 2]\<close> is
  the byte before the option's value, its length.\<close>

definition broken_vendor :: "dhcpMessage \<Rightarrow> optptr \<Rightarrow> bool option" where
  "broken_vendor p op = (case op of (f, off, len) \<Rightarrow> do {
     l \<leftarrow> rd (opt_array p f) (off - 1);
     if unat l = length MSFT_98 then do {
       v \<leftarrow> rd_n (opt_array p f) off (unat l);
       Some (v = MSFT_98)
     } else Some False
   })"

definition get_packet :: "byte list option \<Rightarrow> (int \<times> dhcpMessage) option" where
  "get_packet input = (case input of
     None \<Rightarrow> Some (-1, zero_msg)
   | Some bs \<Rightarrow>
      let p = dhcp_of_bytes (pad_read sizeof_dhcpMessage bs);
          bytes = int (min (length bs) sizeof_dhcpMessage) in
      if ntohl (m_cookie p) \<noteq> DHCP_MAGIC then Some (-2, p)
      else if m_op p = BOOTREQUEST then do {
        vendor \<leftarrow> get_option p DHCP_VENDOR;
        case vendor of
          None \<Rightarrow> Some (bytes, p)
        | Some op \<Rightarrow> do {
            broken \<leftarrow> broken_vendor p op;
            Some (bytes, if broken then p\<lparr>m_flags := m_flags p OR htons BROADCAST_FLAG\<rparr> else p)
          }
      }
      else Some (bytes, p))"

text \<open>\<open>get_raw_packet\<close>; \<open>payload\<close> is the caller's structure before the call.  The last copy has
  length \<^verbatim>\<open>bytes - 28\<close> as a \<^verbatim>\<open>size_t\<close>: when \<^verbatim>\<open>bytes\<close> is below 28 it runs out of both
  structures.\<close>

definition get_raw_packet ::
  "dhcpMessage \<Rightarrow> byte list option \<Rightarrow> (int \<times> dhcpMessage) option" where
  "get_raw_packet payload input = (case input of
     None \<Rightarrow> Some (-1, payload)
   | Some bs \<Rightarrow>
      let packet = packet_of_bytes (pad_read sizeof_packet bs);
          got = min (length bs) sizeof_packet;
          bytes = unat (ntohs (ip_tot_len (pk_ip packet))) in
      if got < 20 + 8 then Some (-2, payload)
      else if got < bytes then Some (-2, payload)
      else if ip_protocol (pk_ip packet) \<noteq> IPPROTO_UDP \<or> ip_version (pk_ip packet) \<noteq> IPVERSION \<or>
        ip_ihl (pk_ip packet) \<noteq> 5 \<or> udp_dest (pk_udp packet) \<noteq> htons CLIENT_PORT \<or>
        bytes > sizeof_packet \<or>
        int (unat (ntohs (udp_len (pk_udp packet)))) \<noteq> int bytes - 20
      then Some (-2, payload)
      else
        let check = ip_check (pk_ip packet); ip = (pk_ip packet)\<lparr>ip_check := 0\<rparr> in
        if check \<noteq> checksum (ip_bytes ip) then Some (-1, payload)
        else
          let source = ip_saddr ip; dest = ip_daddr ip;
              check = udp_check (pk_udp packet);
              udp = (pk_udp packet)\<lparr>udp_check := 0\<rparr>;
              ip = zero_ip\<lparr>ip_protocol := IPPROTO_UDP, ip_saddr := source, ip_daddr := dest,
                           ip_tot_len := udp_len udp\<rparr>;
              packet = packet\<lparr>pk_ip := ip, pk_udp := udp\<rparr> in
          if check \<noteq> 0 \<and> check \<noteq> checksum (take bytes (packet_bytes packet))
          then Some (-2, payload)
          else if bytes < 28 then None
          else
            let n = bytes - 28;
                payload = dhcp_of_bytes (take n (dhcp_bytes (pk_data packet)) @
                                         drop n (dhcp_bytes payload)) in
            if ntohl (m_cookie payload) \<noteq> DHCP_MAGIC then Some (-2, payload)
            else Some (int n, payload))"

subsection \<open>The checksum verifies\<close>

text \<open>One's-complement folding is reduction modulo 65535 with 65535 as the second zero.\<close>

lemma checksum_fold_lt: "checksum_fold s < 65536"
  by (induction s rule: checksum_fold.induct) (subst checksum_fold.simps, simp add: div_eq_0_iff)

lemma fold_step_mod: "(s mod 65536 + s div 65536) mod 65535 = s mod (65535 :: nat)"
proof -
  have "s = (s mod 65536 + s div 65536) + 65535 * (s div 65536)"
    using div_mult_mod_eq [of s 65536] by linarith
  then show ?thesis
    by (metis mod_mult_self2)
qed

lemma checksum_fold_mod: "checksum_fold s mod 65535 = s mod 65535"
  by (induction s rule: checksum_fold.induct)
    (subst checksum_fold.simps, auto simp: fold_step_mod)

lemma checksum_fold_0: "checksum_fold s = 0 \<longleftrightarrow> s = 0"
proof (induction s rule: checksum_fold.induct)
  case (1 s)
  show ?case
  proof (cases "s div 65536 = 0")
    case False
    then show ?thesis
      using 1 by (subst checksum_fold.simps) auto
  qed (subst checksum_fold.simps, simp)
qed

lemma checksum_fold_multiple:
  assumes "0 < s" and "s mod 65535 = 0"
  shows "checksum_fold s = 65535"
proof -
  have "checksum_fold s mod 65535 = 0" "checksum_fold s \<noteq> 0"
    using assms by (simp_all add: checksum_fold_mod checksum_fold_0)
  then show ?thesis
    using checksum_fold_lt [of s] by (auto simp: mod_eq_0_iff_dvd dvd_def)
qed

lemma checksum_complement:
  "(s + (65535 - checksum_fold s)) mod 65535 = 0 \<and> 0 < s + (65535 - checksum_fold s)"
proof
  have f: "checksum_fold s \<le> 65535"
    using checksum_fold_lt [of s] by simp
  have "(s + (65535 - checksum_fold s)) mod 65535 =
      (checksum_fold s + (65535 - checksum_fold s)) mod 65535"
    by (metis checksum_fold_mod mod_add_left_eq)
  then show "(s + (65535 - checksum_fold s)) mod 65535 = 0"
    using f by simp
  show "0 < s + (65535 - checksum_fold s)"
    using checksum_fold_0 [of s] by (cases "s = 0") simp_all
qed

lemma checksum_sum_acc: "checksum_sum s bs = s + checksum_sum 0 bs"
proof (induction bs arbitrary: s rule: induct_list012)
  case (3 a b bs)
  show ?case
    using "3.IH"(1) [of "s + unat (le16 a b)"] "3.IH"(1) [of "unat (le16 a b)"] by simp
qed simp_all

lemma checksum_sum_append:
  "even (length xs) \<Longrightarrow> checksum_sum 0 (xs @ ys) = checksum_sum 0 xs + checksum_sum 0 ys"
proof (induction xs rule: induct_list012)
  case (3 a b bs)
  then show ?case
    using checksum_sum_acc [of "unat (le16 a b)" "bs @ ys"]
      checksum_sum_acc [of "unat (le16 a b)" bs] by simp
qed simp_all

lemma unat_u16_le: "unat (w :: u16) \<le> 65535"
  using unat_u16_lt [of w] by linarith

lemma checksum_sum_bound: "checksum_sum 0 bs \<le> 65535 * ((length bs + 1) div 2)"
proof (induction bs rule: induct_list012)
  case (3 a b bs)
  then show ?case
    using checksum_sum_acc [of "unat (le16 a b)" bs] unat_u16_le [of "le16 a b"] by simp
next
  case (2 a)
  then show ?case
    using unat_u16_le [of "le16 a 0"] by simp
qed simp

lemma checksum_sum_int32: "length bs \<le> 65535 \<Longrightarrow> checksum_sum 0 bs < 2 ^ 31"
  using checksum_sum_bound [of bs] by simp

lemma unat_checksum: "unat (checksum bs) = 65535 - checksum_fold (checksum_sum 0 bs)"
proof -
  let ?f = "checksum_fold (checksum_sum 0 bs)"
  have "checksum bs = of_nat (65535 - ?f)"
    using checksum_fold_lt [of "checksum_sum 0 bs"]
    by (simp add: checksum_def not_eq_complement of_nat_diff)
  then show ?thesis
    by (simp add: unsigned_of_nat take_bit_nat_eq_self)
qed

text \<open>Writing the checksum of a block into its own (zeroed, 16-bit aligned) checksum field
  makes the checksum of the whole block zero, which is the test a receiver applies.\<close>

lemma checksum_verifies:
  assumes "even (length pre)"
  shows "checksum (pre @ bytes_le16 (checksum (pre @ [0, 0] @ post)) @ post) = 0"
proof -
  let ?s = "checksum_sum 0 (pre @ [0, 0] @ post)"
  let ?c = "checksum (pre @ [0, 0] @ post)"
  have s: "?s = checksum_sum 0 pre + checksum_sum 0 post"
    using assms checksum_sum_append [of pre "[0, 0] @ post"] checksum_sum_append [of "[0,0]" post]
    by (simp add: le16_def)
  have c: "checksum_sum 0 (bytes_le16 ?c @ post) = unat ?c + checksum_sum 0 post"
    using checksum_sum_acc [of "unat ?c" post] by (simp add: bytes_le16_def le16_bytes)
  have "checksum_sum 0 (pre @ bytes_le16 ?c @ post) = ?s + (65535 - checksum_fold ?s)"
    using assms checksum_sum_append [of pre "bytes_le16 ?c @ post"] c s
    by (simp add: unat_checksum)
  moreover note checksum_complement [of ?s]
  ultimately have "unat (checksum (pre @ bytes_le16 ?c @ post)) = 0"
    by (simp add: unat_checksum checksum_fold_multiple)
  then show ?thesis
    by (simp add: unat_eq_0)
qed

subsection \<open>Frames decode to the message they carry\<close>

lemma length_ip_bytes [simp]: "length (ip_bytes h) = 20"
  by (simp add: ip_bytes_def)

lemma length_udp_bytes [simp]: "length (udp_bytes h) = 8"
  by (simp add: udp_bytes_def)

lemma length_packet_bytes [simp]:
  "wf_msg (pk_data k) \<Longrightarrow> length (packet_bytes k) = sizeof_packet"
  by (simp add: packet_bytes_def)

lemma ip_nibbles [wire]:
  fixes l h :: "4 word"
  shows "ucast (ucast l OR push_bit 4 (ucast h) :: byte) = l"
    and "ucast (drop_bit 4 (ucast l) OR drop_bit 4 (push_bit 4 (ucast h)) :: byte) = h"
  by (rule bit_word_eqI, auto simp: bit_simps dest: bit_imp_le_length)+

lemma ip_of_bytes_ip_bytes [simp]: "ip_of_bytes (ip_bytes h) = h"
  by (cases h) (simp add: ip_of_bytes_def ip_bytes_def wire nth_append)

lemma udp_of_bytes_udp_bytes [simp]: "udp_of_bytes (udp_bytes h) = h"
  by (cases h) (simp add: udp_of_bytes_def udp_bytes_def wire)

lemma packet_of_bytes_packet_bytes [simp]:
  "wf_msg (pk_data k) \<Longrightarrow> packet_of_bytes (packet_bytes k) = k"
  by (cases k) (simp add: packet_of_bytes_def packet_bytes_def wire)

lemma pad_read_full [simp]: "length bs = n \<Longrightarrow> pad_read n bs = bs"
  by (simp add: pad_read_def)

lemma length_pad_read [simp]: "length (pad_read n bs) = n"
  by (simp add: pad_read_def)

lemma raw_frame_fields:
  "pk_data (raw_frame p s sp d dp) = p"
  "ip_protocol (pk_ip (raw_frame p s sp d dp)) = IPPROTO_UDP"
  "ip_version (pk_ip (raw_frame p s sp d dp)) = IPVERSION"
  "ip_ihl (pk_ip (raw_frame p s sp d dp)) = 5"
  "ip_tot_len (pk_ip (raw_frame p s sp d dp)) = htons 576"
  "udp_dest (pk_udp (raw_frame p s sp d dp)) = htons dp"
  "udp_len (pk_udp (raw_frame p s sp d dp)) = htons 556"
  "ip_saddr (pk_ip (raw_frame p s sp d dp)) = s"
  "ip_daddr (pk_ip (raw_frame p s sp d dp)) = d"
  by (simp_all add: raw_frame_def Let_def)

lemma raw_frame_ip_check:
  "ip_check (pk_ip (raw_frame p s sp d dp)) =
     checksum (ip_bytes ((pk_ip (raw_frame p s sp d dp))\<lparr>ip_check := 0\<rparr>))"
  by (simp add: raw_frame_def Let_def zero_ip_def)

lemma raw_frame_udp_check:
  "udp_check (pk_udp (raw_frame p s sp d dp)) =
     checksum (packet_bytes ((raw_frame p s sp d dp)
       \<lparr>pk_ip := zero_ip\<lparr>ip_protocol := IPPROTO_UDP, ip_saddr := s, ip_daddr := d,
                         ip_tot_len := htons 556\<rparr>,
        pk_udp := (pk_udp (raw_frame p s sp d dp))\<lparr>udp_check := 0\<rparr>\<rparr>))"
  by (simp add: raw_frame_def Let_def zero_ip_def)

lemma raw_frame_received:
  assumes "wf_msg p" and "wf_msg old" and "ntohl (m_cookie p) = DHCP_MAGIC"
  shows "get_raw_packet old (Some (packet_bytes (raw_frame p s sp d CLIENT_PORT))) = Some (548, p)"
proof -
  let ?k = "raw_frame p s sp d CLIENT_PORT"
  have k: "length (packet_bytes ?k) = sizeof_packet" "packet_of_bytes (packet_bytes ?k) = ?k"
    "pad_read sizeof_packet (packet_bytes ?k) = packet_bytes ?k"
    using assms(1) by (simp_all add: raw_frame_fields)
  show ?thesis
    using assms k raw_frame_ip_check [of p s sp d CLIENT_PORT]
      raw_frame_udp_check [of p s sp d CLIENT_PORT]
    by (simp add: get_raw_packet_def Let_def raw_frame_fields)
qed

text \<open>C13: A frame that \<open>raw_packet\<close> sends to the client port, read back by \<open>get_raw_packet\<close>,
  passes both checksum tests and yields exactly the message that was sent, whatever the
  receiver's buffer held before.\<close>

theorem raw_packet_received:
  assumes "wf_msg p" and "wf_msg old" and "ntohl (m_cookie p) = DHCP_MAGIC"
    and "raw_packet so p s sp d CLIENT_PORT arp ifindex = (r, [RawFrame dst i bs])"
  shows "get_raw_packet old (Some bs) = Some (548, p)"
  using assms raw_frame_received [OF assms(1-3), of s sp d]
  by (simp add: raw_packet_def split: if_splits)

theorem raw_packet_received_witness:
  "get_raw_packet zero_msg (Some (packet_bytes
     (raw_frame (zero_msg\<lparr>m_cookie := htonl DHCP_MAGIC\<rparr>) 0x0100a8c0 67 INADDR_BROADCAST 68))) =
   Some (548, zero_msg\<lparr>m_cookie := htonl DHCP_MAGIC\<rparr>)"
  by (rule raw_packet_received [where so = "\<lparr>so_socket = 3, so_setsockopt = 0, so_bind = 0,
        so_connect = 0, so_send = 576\<rparr>" and arp = MAC_BCAST_ADDR and ifindex = 2])
    (auto simp: raw_packet_def wf_msg_def zero_msg_def)

text \<open>A new message holds its type and nothing else.\<close>

lemma init_header_opts:
  "\<exists>p. init_header type = Some p \<and> wf_msg p \<and> msg_opts p [(DHCP_MESSAGE_TYPE, [type])] \<and>
     m_cookie p = htonl DHCP_MAGIC"
proof -
  define q where "q = (let p = zero_msg;
         p = (if type \<in> {DHCPDISCOVER, DHCPREQUEST, DHCPRELEASE, DHCPINFORM}
              then p\<lparr>m_op := BOOTREQUEST\<rparr>
              else if type \<in> {DHCPOFFER, DHCPACK, DHCPNAK} then p\<lparr>m_op := BOOTREPLY\<rparr> else p)
     in p\<lparr>m_htype := ETH_10MB, m_hlen := ETH_10MB_LEN, m_cookie := htonl DHCP_MAGIC,
               m_options := (m_options p)[0 := DHCP_END]\<rparr>)"
  have "take (Suc 0) ((replicate 308 0)[0 := DHCP_END]) = [DHCP_END]"
    by (simp add: take_Suc hd_conv_nth flip: length_0_conv)
  then have q: "wf_msg q" "msg_opts q []" "m_cookie q = htonl DHCP_MAGIC"
    by (auto simp: q_def Let_def wf_msg_def zero_msg_def msg_opts_def opt_area_def)
  have b: "take 1 (bytes_le32 (ucast type)) = [type]"
    by (simp add: bytes_le32_def)
  have "init_header type = msg_add_string q (enc_tlv (DHCP_MESSAGE_TYPE, [type]))"
    unfolding init_header_def q_def Let_def
    by (subst msg_add_simple_string [OF simple_lengths(1)]) (simp_all only: b insert_iff simp_thms)
  moreover obtain p where p: "msg_add_string q (enc_tlv (DHCP_MESSAGE_TYPE, [type])) = Some p"
    "msg_opts p ([] @ [(DHCP_MESSAGE_TYPE, [type])])"
    using msg_add_string_fits [OF q(2), of "(DHCP_MESSAGE_TYPE, [type])"] by (auto simp: wf_tlv_def)
  ultimately show ?thesis
    using q msg_add_string_wf [OF q(1) p(1)] msg_add_string_frame [OF p(1)]
    by (auto intro!: exI [of _ p]) (metis dhcpMessage.select_convs(15) dhcpMessage.update_convs(16) dhcpMessage.surjective)
qed

subsection \<open>What the receive routines deliver\<close>

lemma wf_packet_data: "wf_msg (pk_data (packet_of_bytes (pad_read sizeof_packet bs)))"
  by (simp add: packet_of_bytes_def wf_dhcp_of_bytes fld_def)

lemma wf_overlay:
  assumes "wf_msg p" and "wf_msg q" and "n \<le> 548"
  shows "wf_msg (dhcp_of_bytes (take n (dhcp_bytes q) @ drop n (dhcp_bytes p)))"
  using assms by (intro wf_dhcp_of_bytes) simp

text \<open>C19: For a frame whose IP total length covers the two headers, \<open>get_raw_packet\<close> returns;
  the result is a well-formed message with a length of at most 548 and the DHCP magic cookie, or
  one of the two error codes.\<close>

theorem get_raw_packet_result:
  assumes "wf_msg payload"
    and "28 \<le> unat (ntohs (ip_tot_len (pk_ip (packet_of_bytes (pad_read sizeof_packet bs)))))"
  shows "\<exists>r p. get_raw_packet payload (Some bs) = Some (r, p) \<and> wf_msg p \<and>
     (r \<in> {-1, -2} \<or> 0 \<le> r \<and> r \<le> 548 \<and> ntohl (m_cookie p) = DHCP_MAGIC)"
proof -
  define k where "k = packet_of_bytes (pad_read sizeof_packet bs)"
  define n where "n = unat (ntohs (ip_tot_len (pk_ip k)))"
  define q where "q = dhcp_of_bytes (take (n - 28) (dhcp_bytes (pk_data k)) @
    drop (n - 28) (dhcp_bytes payload))"
  have "28 \<le> n" "n \<le> 576 \<Longrightarrow> wf_msg q"
    using assms wf_packet_data [of bs]
    by (auto simp: n_def k_def q_def intro!: wf_overlay)
  then show ?thesis
    using assms(1)
    by (auto simp: get_raw_packet_def Let_def k_def [symmetric] n_def [symmetric]
        q_def [symmetric])
qed

theorem get_raw_packet_result_witness:
  "\<exists>r p. get_raw_packet zero_msg (Some (packet_bytes (raw_frame zero_msg 1 67 2 68))) = Some (r, p) \<and>
     wf_msg p \<and> (r \<in> {-1, -2} \<or> 0 \<le> r \<and> r \<le> 548 \<and> ntohl (m_cookie p) = DHCP_MAGIC)"
  by (rule get_raw_packet_result) (simp_all add: raw_frame_fields)

text \<open>C20: Without that condition the last copy of \<open>get_raw_packet\<close> runs off both structures: for
  every total length from 20 to 27 there is a frame that passes every test of the function, has a
  correct IP header checksum, and makes the length of the copy negative.\<close>

theorem get_raw_packet_short_total_length:
  assumes "wf_msg p" and "20 \<le> n" and "n < 28"
  shows "\<exists>k. pk_data k = p \<and> unat (ntohs (ip_tot_len (pk_ip k))) = n \<and>
     get_raw_packet old (Some (packet_bytes k)) = None"
proof -
  define w l :: u16 where "w = of_nat n" and "l = of_nat (n - 20)"
  have n: "unat w = n" "unat l = n - 20" "int (n - 20) = int n - 20"
    using assms(2,3) unat_of_nat_u16 [of "n - 20"] unat_of_nat_u16 [of n]
    unfolding w_def l_def by linarith+
  then have u: "uint l = uint w - 20"
    by (metis uint_nat)
  define ip where "ip = zero_ip\<lparr>ip_ihl := 5, ip_version := IPVERSION, ip_protocol := IPPROTO_UDP,
    ip_tot_len := htons w\<rparr>"
  define k where "k = \<lparr>pk_ip = ip\<lparr>ip_check := checksum (ip_bytes ip)\<rparr>,
    pk_udp = \<lparr>udp_source = 0, udp_dest = htons CLIENT_PORT, udp_len = htons l,
      udp_check = 0\<rparr>, pk_data = p\<rparr>"
  have "wf_msg (pk_data k)"
    using assms(1) by (simp add: k_def)
  moreover have "ip\<lparr>ip_check := 0\<rparr> = ip"
    by (simp add: ip_def zero_ip_def)
  ultimately have "get_raw_packet old (Some (packet_bytes k)) = None"
    using n u assms(3)
    by (simp add: get_raw_packet_def Let_def) (simp add: k_def, simp add: ip_def)
  moreover have "pk_data k = p \<and> unat (ntohs (ip_tot_len (pk_ip k))) = n"
    using n by (simp add: k_def ip_def)
  ultimately show ?thesis by blast
qed

theorem get_raw_packet_short_total_length_witness:
  "\<exists>k. pk_data k = zero_msg \<and> unat (ntohs (ip_tot_len (pk_ip k))) = 24 \<and>
     get_raw_packet zero_msg (Some (packet_bytes k)) = None"
  by (rule get_raw_packet_short_total_length) simp_all

text \<open>A frame of \<open>raw_packet\<close> whose IP header checksum was damaged is answered with -1, the
  code that the function's comment reserves for errors that are fatal for the socket.\<close>

theorem get_raw_packet_bad_ip_checksum:
  assumes "wf_msg p" and "c \<noteq> ip_check (pk_ip (raw_frame p s sp d CLIENT_PORT))"
    and "k = raw_frame p s sp d CLIENT_PORT"
  shows "get_raw_packet old (Some (packet_bytes (k\<lparr>pk_ip := (pk_ip k)\<lparr>ip_check := c\<rparr>\<rparr>))) =
     Some (-1, old)"
proof -
  have "wf_msg (pk_data k)"
    using assms by (simp add: raw_frame_fields)
  then show ?thesis
    using assms(2,3) raw_frame_ip_check [of p s sp d CLIENT_PORT]
    by (simp add: get_raw_packet_def Let_def raw_frame_fields)
qed

theorem get_raw_packet_bad_ip_checksum_witness:
  "get_raw_packet zero_msg (Some (packet_bytes ((raw_frame zero_msg 1 67 2 CLIENT_PORT)
     \<lparr>pk_ip := (pk_ip (raw_frame zero_msg 1 67 2 CLIENT_PORT))
        \<lparr>ip_check := ip_check (pk_ip (raw_frame zero_msg 1 67 2 CLIENT_PORT)) + 1\<rparr>\<rparr>))) =
   Some (-1, zero_msg)"
  by (rule get_raw_packet_bad_ip_checksum [OF _ _ refl]) simp_all

text \<open>\<open>get_packet\<close> delivers the datagram with at most the broadcast flag added.\<close>

lemma get_packet_result:
  assumes "get_packet (Some bs) = Some (r, p)"
  shows "wf_msg p \<and> r \<le> 548 \<and> (r = -2 \<or> 0 \<le> r \<and> ntohl (m_cookie p) = DHCP_MAGIC) \<and>
     (\<exists>f. p = (dhcp_of_bytes (pad_read sizeof_dhcpMessage bs))\<lparr>m_flags := f\<rparr>)"
proof -
  let ?q = "dhcp_of_bytes (pad_read sizeof_dhcpMessage bs)"
  have q: "wf_msg (?q\<lparr>m_flags := f\<rparr>)" "?q = ?q\<lparr>m_flags := m_flags ?q\<rparr>" for f
    using wf_dhcp_of_bytes [of "pad_read sizeof_dhcpMessage bs"] by (simp_all add: wf_msg_def)
  show ?thesis
    using assms q(1) [of "m_flags ?q"] q(1) [of "m_flags ?q OR htons BROADCAST_FLAG"]
    by (auto simp: get_packet_def Let_def split: if_splits bind_splits option.splits
        intro: exI [of _ "m_flags ?q"])
qed

end
