(* ===== verification/Dhcp_Leases.thy ===== *)
theory Dhcp_Leases
  imports Dhcp_Packet
begin

section \<open>The lease tables (\<^verbatim>\<open>udhcp-0.9.8/leases.c\<close>, \<^verbatim>\<open>leases.h\<close>, configuration of \<^verbatim>\<open>dhcpd.h\<close>)\<close>

text \<open>
  The two tables are lists of records whose length is \<^verbatim>\<open>max_leases\<close> and \<^verbatim>\<open>max_static\<close>; a pointer
  into a table is an index.  \<^verbatim>\<open>time(0)\<close> is the argument \<open>now\<close>, the answer of \<^verbatim>\<open>arpping\<close> is a
  function of the address, and the address of the local interface, which \<^verbatim>\<open>get_ifconfig\<close>
  delivers, is an argument of \<open>find_address\<close>.  The invariant \<open>lease_inv\<close> says that an address is
  leased once and that a client holds one lease.
\<close>

record dhcpOfferedAddr =
  l_chaddr :: "byte list"
  l_yiaddr :: u32
  l_expires :: u32
  l_hostname :: "byte list"

record dhcpOfferedStaticAddr =
  s_chaddr :: "byte list"
  s_yiaddr :: u32
  s_expires :: u32

type_synonym lease_table = "dhcpOfferedAddr list"
type_synonym static_table = "dhcpOfferedStaticAddr list"

abbreviation (input) HOSTNAME_LEN :: nat where "HOSTNAME_LEN \<equiv> 24"

definition blank_chaddr :: "byte list" where
  "blank_chaddr = replicate 16 0"

definition zero_lease :: dhcpOfferedAddr where
  "zero_lease = \<lparr>l_chaddr = blank_chaddr, l_yiaddr = 0, l_expires = 0,
     l_hostname = replicate HOSTNAME_LEN 0\<rparr>"

text \<open>\<^verbatim>\<open>struct server_config_t\<close>.  C strings are the lists of their bytes, without terminator.\<close>

record server_config_t =
  c_server :: u32
  c_start :: u32
  c_end :: u32
  c_options :: option_set
  c_interface :: "byte list"
  c_ifindex :: int
  c_arp :: "byte list"
  c_lease :: u32
  c_max_leases :: u32
  c_remaining :: bool
  c_auto_time :: u32
  c_decline_time :: u32
  c_conflict_time :: u32
  c_offer_time :: u32
  c_min_lease :: u32
  c_lease_file :: "byte list"
  c_pidfile :: "byte list"
  c_notify_file :: "byte list option"
  c_siaddr :: u32
  c_sname :: "byte list option"
  c_boot_file :: "byte list option"
  c_static_lease_file :: "byte list"
  c_max_static :: u32
  c_sys_netmask :: u32

subsection \<open>Operations\<close>

text \<open>Addresses are compared on 16 bytes; every caller passes an array of at least that size.\<close>

definition clear_lease :: "lease_table \<Rightarrow> byte list \<Rightarrow> u32 \<Rightarrow> lease_table" where
  "clear_lease leases chaddr yiaddr =
    (let j = length (takeWhile (\<lambda>b. b = 0) (take 16 chaddr)) in
     map (\<lambda>l. if (j \<noteq> 16 \<and> l_chaddr l = take 16 chaddr) \<or> (yiaddr \<noteq> 0 \<and> l_yiaddr l = yiaddr)
              then zero_lease else l) leases)"

definition lease_expired :: "u32 \<Rightarrow> dhcpOfferedAddr \<Rightarrow> bool" where
  "lease_expired now lease \<longleftrightarrow> l_expires lease < now"

fun oldest_loop :: "u32 \<Rightarrow> nat \<Rightarrow> nat option \<Rightarrow> lease_table \<Rightarrow> nat option" where
  "oldest_loop oldest_lease i oldest [] = oldest"
| "oldest_loop oldest_lease i oldest (l # ls) =
    (if oldest_lease > l_expires l then oldest_loop (l_expires l) (i + 1) (Some i) ls
     else oldest_loop oldest_lease (i + 1) oldest ls)"

definition oldest_expired_lease :: "u32 \<Rightarrow> lease_table \<Rightarrow> nat option" where
  "oldest_expired_lease now leases = oldest_loop now 0 None leases"

text \<open>\<^verbatim>\<open>strcpy\<close> of a C string, given without its terminator, into a fixed array.\<close>

definition strcpy_to :: "byte list \<Rightarrow> byte list \<Rightarrow> byte list option" where
  "strcpy_to dst src = wr dst 0 (src @ [0])"

definition add_lease :: "u32 \<Rightarrow> lease_table \<Rightarrow> byte list \<Rightarrow> u32 \<Rightarrow> u32 \<Rightarrow> byte list option
    \<Rightarrow> (lease_table \<times> nat option) option" where
  "add_lease now leases chaddr yiaddr lease hostname =
    (let leases = clear_lease leases chaddr yiaddr in
     case oldest_expired_lease now leases of
       None \<Rightarrow> Some (leases, None)
     | Some i \<Rightarrow> do {
         h \<leftarrow> strcpy_to (l_hostname (leases ! i)) (case hostname of Some s \<Rightarrow> s | None \<Rightarrow> []);
         Some (leases[i := (leases ! i)\<lparr>l_chaddr := take 16 chaddr, l_yiaddr := yiaddr,
                            l_expires := now + lease, l_hostname := h\<rparr>], Some i)
       })"

fun find_index :: "('a \<Rightarrow> bool) \<Rightarrow> 'a list \<Rightarrow> nat option" where
  "find_index P [] = None"
| "find_index P (x # xs) = (if P x then Some 0 else map_option Suc (find_index P xs))"

definition find_lease_by_chaddr :: "lease_table \<Rightarrow> byte list \<Rightarrow> nat option" where
  "find_lease_by_chaddr leases chaddr = find_index (\<lambda>l. l_chaddr l = take 16 chaddr) leases"

definition find_lease_by_yiaddr :: "lease_table \<Rightarrow> u32 \<Rightarrow> nat option" where
  "find_lease_by_yiaddr leases yiaddr = find_index (\<lambda>l. l_yiaddr l = yiaddr) leases"

definition find_static_lease_by_chaddr :: "static_table \<Rightarrow> byte list \<Rightarrow> u32" where
  "find_static_lease_by_chaddr statics chaddr =
    (case find_index (\<lambda>s. s_chaddr s = take 16 chaddr) statics of
       Some i \<Rightarrow> s_yiaddr (statics ! i)
     | None \<Rightarrow> 0)"

definition find_static_lease_by_yiaddr :: "static_table \<Rightarrow> u32 \<Rightarrow> nat option" where
  "find_static_lease_by_yiaddr statics yiaddr = find_index (\<lambda>s. s_yiaddr s = yiaddr) statics"

text \<open>The loop of \<open>add_static_lease\<close> has no \<^verbatim>\<open>break\<close>: it selects the last free entry.\<close>

fun last_free_static :: "nat \<Rightarrow> nat option \<Rightarrow> static_table \<Rightarrow> nat option" where
  "last_free_static i new [] = new"
| "last_free_static i new (s # ss) =
    last_free_static (i + 1) (if s_yiaddr s = 0 then Some i else new) ss"

definition add_static_lease ::
  "u32 \<Rightarrow> static_table \<Rightarrow> byte list \<Rightarrow> u32 \<Rightarrow> u32 \<Rightarrow> static_table \<times> nat option" where
  "add_static_lease now statics chaddr yiaddr lease =
    (case last_free_static 0 None statics of
       None \<Rightarrow> (statics, None)
     | Some i \<Rightarrow>
         (statics[i := \<lparr>s_chaddr = take 16 chaddr, s_yiaddr = yiaddr, s_expires = now + lease\<rparr>],
          Some i))"

definition check_ip :: "server_config_t \<Rightarrow> u32 \<Rightarrow> (u32 \<Rightarrow> int) \<Rightarrow> lease_table \<Rightarrow> u32
    \<Rightarrow> (lease_table \<times> bool) option" where
  "check_ip cfg now arpping leases addr =
    (if arpping addr = 0 then do {
       (leases, l) \<leftarrow> add_lease now leases blank_chaddr addr (c_conflict_time cfg) None;
       Some (leases, True)
     }
     else Some (leases, False))"

text \<open>The tests of the loop of \<open>find_address\<close> that skip an address (in host order) without
  looking at the table of dynamic leases.\<close>

definition skip_address :: "static_table \<Rightarrow> u32 \<Rightarrow> u32 \<Rightarrow> bool" where
  "skip_address statics local_ip addr \<longleftrightarrow>
     addr = ntohl local_ip \<or> addr AND 0xFF = 0 \<or> addr AND 0xFF = 0xFF \<or>
     find_static_lease_by_yiaddr statics (htonl addr) \<noteq> None"

text \<open>The test on the dynamic leases.\<close>

definition lease_allows :: "u32 \<Rightarrow> bool \<Rightarrow> lease_table \<Rightarrow> u32 \<Rightarrow> bool" where
  "lease_allows now check_expired leases ret \<longleftrightarrow>
     (case find_lease_by_yiaddr leases ret of
        None \<Rightarrow> True
      | Some i \<Rightarrow> check_expired \<and> lease_expired now (leases ! i))"

text \<open>The loop itself.  The clock and the answers to the ARP probes are fixed for one call: the loop
  probes every address at most once per pass over the range.  \<open>None\<close> is a loop that does not end.\<close>

partial_function (option) find_address_loop ::
  "server_config_t \<Rightarrow> u32 \<Rightarrow> (u32 \<Rightarrow> int) \<Rightarrow> u32 \<Rightarrow> static_table \<Rightarrow> bool \<Rightarrow> lease_table \<Rightarrow> u32
    \<Rightarrow> (lease_table \<times> u32) option" where
  "find_address_loop cfg now arpping local_ip statics check_expired leases addr =
    (if \<not> addr \<le> ntohl (c_end cfg) then Some (leases, 0)
     else if skip_address statics local_ip addr then
       find_address_loop cfg now arpping local_ip statics check_expired leases (addr + 1)
     else if lease_allows now check_expired leases (htonl addr) then
       Option.bind (check_ip cfg now arpping leases (htonl addr)) (\<lambda>r.
         if snd r then
           find_address_loop cfg now arpping local_ip statics check_expired (fst r) (addr + 1)
         else Some (fst r, htonl addr))
     else find_address_loop cfg now arpping local_ip statics check_expired leases (addr + 1))"

definition find_address :: "server_config_t \<Rightarrow> u32 \<Rightarrow> (u32 \<Rightarrow> int) \<Rightarrow> u32 \<Rightarrow> static_table
    \<Rightarrow> lease_table \<Rightarrow> bool \<Rightarrow> (lease_table \<times> u32) option" where
  "find_address cfg now arpping local_ip statics leases check_expired =
     find_address_loop cfg now arpping local_ip statics check_expired leases (ntohl (c_start cfg))"

subsection \<open>Searching and uniqueness\<close>

lemma find_index_Some:
  "find_index P xs = Some i \<longleftrightarrow> i < length xs \<and> P (xs ! i) \<and> (\<forall>j < i. \<not> P (xs ! j))"
proof (induction xs arbitrary: i)
  case (Cons x xs)
  show ?case
  proof (cases "P x")
    case True
    then show ?thesis by (cases i) auto
  next
    case False
    then show ?thesis
      by (cases i) (simp_all add: Cons.IH All_less_Suc2)
  qed
qed simp

lemma find_index_None: "find_index P xs = None \<longleftrightarrow> (\<forall>x \<in> set xs. \<not> P x)"
  by (induction xs) auto

lemma find_index_unique:
  assumes "i < length xs" and "P (xs ! i)" and "\<And>j. j < length xs \<Longrightarrow> P (xs ! j) \<Longrightarrow> j = i"
  shows "find_index P xs = Some i"
  unfolding find_index_Some
proof (intro conjI allI impI notI)
  fix j assume "j < i" and "P (xs ! j)"
  then have "j = i"
    using assms(1) by (intro assms(3)) simp_all
  with \<open>j < i\<close> show False by simp
qed (use assms(1,2) in simp_all)

text \<open>\<open>uniq f z xs\<close>: no two entries agree on \<open>f\<close>, unless the common value is \<open>z\<close>.\<close>

definition uniq :: "('a \<Rightarrow> 'b) \<Rightarrow> 'b \<Rightarrow> 'a list \<Rightarrow> bool" where
  "uniq f z xs \<longleftrightarrow> sorted_wrt (\<lambda>a b. f a = z \<or> f a \<noteq> f b) xs"

lemma uniq_nth:
  "uniq f z xs \<longleftrightarrow>
     (\<forall>i j. i < length xs \<and> j < length xs \<and> i \<noteq> j \<and> f (xs ! i) = f (xs ! j) \<longrightarrow> f (xs ! i) = z)"
proof
  assume u: "uniq f z xs"
  show "\<forall>i j. i < length xs \<and> j < length xs \<and> i \<noteq> j \<and> f (xs ! i) = f (xs ! j) \<longrightarrow> f (xs ! i) = z"
  proof (intro allI impI)
    fix i j assume ij: "i < length xs \<and> j < length xs \<and> i \<noteq> j \<and> f (xs ! i) = f (xs ! j)"
    have "a < b \<Longrightarrow> b < length xs \<Longrightarrow> f (xs ! a) = z \<or> f (xs ! a) \<noteq> f (xs ! b)" for a b
      using u unfolding uniq_def sorted_wrt_iff_nth_less by blast
    from this [of i j] this [of j i] ij show "f (xs ! i) = z"
      by (cases "i < j") auto
  qed
next
  assume r: "\<forall>i j. i < length xs \<and> j < length xs \<and> i \<noteq> j \<and> f (xs ! i) = f (xs ! j) \<longrightarrow> f (xs ! i) = z"
  show "uniq f z xs"
    unfolding uniq_def sorted_wrt_iff_nth_less
  proof (intro allI impI)
    fix i j assume "i < j" and "j < length xs"
    then show "f (xs ! i) = z \<or> f (xs ! i) \<noteq> f (xs ! j)"
      using r [rule_format, of i j] by auto
  qed
qed

lemma uniq_clear:
  assumes "uniq f z xs" and "f d = z"
  shows "uniq f z (map (\<lambda>x. if P x then d else x) xs)"
  unfolding uniq_def sorted_wrt_map
  by (rule sorted_wrt_mono_rel [OF _ assms(1) [unfolded uniq_def]]) (simp add: assms(2))

lemma uniq_update:
  assumes "uniq f z xs" and "\<forall>j < length xs. f (xs ! j) = f x \<longrightarrow> f x = z"
  shows "uniq f z (xs[i := x])"
proof (cases "i < length xs")
  case True
  show ?thesis
    unfolding uniq_nth
  proof (intro allI impI)
    fix a b
    assume ab: "a < length (xs[i := x]) \<and> b < length (xs[i := x]) \<and> a \<noteq> b \<and>
      f (xs[i := x] ! a) = f (xs[i := x] ! b)"
    consider "a = i" "b \<noteq> i" | "a \<noteq> i" "b = i" | "a \<noteq> i" "b \<noteq> i"
      using ab by blast
    then show "f (xs[i := x] ! a) = z"
    proof cases
      case 1
      with ab True have "f (xs ! b) = f x" and "b < length xs" by auto
      with assms(2) 1 True show ?thesis by simp
    next
      case 2
      with ab True have "f (xs ! a) = f x" and "a < length xs" by auto
      with assms(2) 2 show ?thesis by simp
    next
      case 3
      with ab have "f (xs ! a) = f (xs ! b)" "a < length xs" "b < length xs" "a \<noteq> b" by auto
      with assms(1) 3 show ?thesis unfolding uniq_nth by (metis nth_list_update_neq)
    qed
  qed
qed (use assms(1) in \<open>simp add: list_update_beyond\<close>)

definition wf_lease :: "dhcpOfferedAddr \<Rightarrow> bool" where
  "wf_lease l \<longleftrightarrow> length (l_chaddr l) = 16 \<and> length (l_hostname l) = HOSTNAME_LEN \<and>
     0 \<in> set (l_hostname l)"

definition lease_inv :: "lease_table \<Rightarrow> bool" where
  "lease_inv ls \<longleftrightarrow> list_all wf_lease ls \<and> uniq l_yiaddr 0 ls \<and> uniq l_chaddr blank_chaddr ls"

lemma wf_zero_lease [simp]: "wf_lease zero_lease"
  by (simp add: wf_lease_def zero_lease_def blank_chaddr_def)

lemma zero_lease_sel [simp]:
  "l_chaddr zero_lease = blank_chaddr" "l_yiaddr zero_lease = 0" "l_expires zero_lease = 0"
  by (simp_all add: zero_lease_def)

text \<open>\<open>hit\<close>: the entries that \<open>clear_lease\<close> clears.\<close>

definition hit :: "byte list \<Rightarrow> u32 \<Rightarrow> dhcpOfferedAddr \<Rightarrow> bool" where
  "hit c y l \<longleftrightarrow> (take 16 c \<noteq> blank_chaddr \<and> l_chaddr l = take 16 c) \<or> (y \<noteq> 0 \<and> l_yiaddr l = y)"

lemma leading_zeros:
  "length (takeWhile (\<lambda>b. b = 0) xs) = length xs \<longleftrightarrow> xs = replicate (length xs) (0 :: byte)"
  by (induction xs) auto

lemma clear_lease_map:
  assumes "16 \<le> length c"
  shows "clear_lease ls c y = map (\<lambda>l. if hit c y l then zero_lease else l) ls"
  using leading_zeros [of "take 16 c"] assms
  by (auto simp: clear_lease_def hit_def blank_chaddr_def Let_def)

lemma clear_lease_length [simp]: "length (clear_lease ls c y) = length ls"
  by (simp add: clear_lease_def Let_def)

lemma clear_lease_nth:
  "16 \<le> length c \<Longrightarrow> i < length ls \<Longrightarrow>
     clear_lease ls c y ! i = (if hit c y (ls ! i) then zero_lease else ls ! i)"
  by (simp add: clear_lease_map)

lemma clear_lease_inv: "16 \<le> length c \<Longrightarrow> lease_inv ls \<Longrightarrow> lease_inv (clear_lease ls c y)"
  by (auto simp: lease_inv_def clear_lease_map uniq_clear list_all_iff)

lemma clear_lease_not_hit:
  "16 \<le> length c \<Longrightarrow> i < length ls \<Longrightarrow> y \<noteq> 0 \<Longrightarrow> l_yiaddr (clear_lease ls c y ! i) \<noteq> y"
  "16 \<le> length c \<Longrightarrow> i < length ls \<Longrightarrow> take 16 c \<noteq> blank_chaddr \<Longrightarrow>
     l_chaddr (clear_lease ls c y ! i) \<noteq> take 16 c"
  by (auto simp: clear_lease_nth hit_def)

text \<open>\<open>oldest_expired_lease\<close> selects an expired entry with the smallest expiry time.\<close>

lemma oldest_loop_spec:
  assumes "oldest_loop t i b ls = r"
  shows "(r = b \<and> (\<forall>l \<in> set ls. t \<le> l_expires l)) \<or>
    (\<exists>k < length ls. r = Some (i + k) \<and> l_expires (ls ! k) < t \<and>
       (\<forall>l \<in> set ls. l_expires (ls ! k) \<le> l_expires l))"
  using assms
proof (induction ls arbitrary: t i b)
  case (Cons l ls)
  show ?case
  proof (cases "l_expires l < t")
    case True
    then have "oldest_loop (l_expires l) (i + 1) (Some i) ls = r"
      using Cons.prems by simp
    from Cons.IH [OF this] show ?thesis
    proof
      assume "r = Some i \<and> (\<forall>l' \<in> set ls. l_expires l \<le> l_expires l')"
      with True show ?thesis by (intro disjI2 exI [of _ 0]) simp
    next
      assume "\<exists>k < length ls. r = Some (i + 1 + k) \<and> l_expires (ls ! k) < l_expires l \<and>
        (\<forall>l' \<in> set ls. l_expires (ls ! k) \<le> l_expires l')"
      then obtain k where "k < length ls" "r = Some (i + 1 + k)" "l_expires (ls ! k) < l_expires l"
        "\<forall>l' \<in> set ls. l_expires (ls ! k) \<le> l_expires l'" by blast
      with True less_trans [of "l_expires (ls ! k)" "l_expires l" t] show ?thesis
        by (intro disjI2 exI [of _ "Suc k"]) (simp add: less_imp_le)
    qed
  next
    case False
    then have "oldest_loop t (i + 1) b ls = r"
      using Cons.prems by simp
    from Cons.IH [OF this] show ?thesis
    proof
      assume "r = b \<and> (\<forall>l' \<in> set ls. t \<le> l_expires l')"
      with False show ?thesis by (simp add: not_less)
    next
      assume "\<exists>k < length ls. r = Some (i + 1 + k) \<and> l_expires (ls ! k) < t \<and>
        (\<forall>l' \<in> set ls. l_expires (ls ! k) \<le> l_expires l')"
      then obtain k where "k < length ls" "r = Some (i + 1 + k)" "l_expires (ls ! k) < t"
        "\<forall>l' \<in> set ls. l_expires (ls ! k) \<le> l_expires l'" by blast
      with False less_le_trans [of "l_expires (ls ! k)" t "l_expires l"] show ?thesis
        by (intro disjI2 exI [of _ "Suc k"]) (simp add: less_imp_le)
    qed
  qed
qed simp

lemma oldest_expired_lease_Some:
  assumes "oldest_expired_lease now ls = Some i"
  shows "i < length ls \<and> lease_expired now (ls ! i) \<and> (\<forall>l \<in> set ls. l_expires (ls ! i) \<le> l_expires l)"
  using oldest_loop_spec [of now 0 None ls "Some i"] assms
  by (auto simp: oldest_expired_lease_def lease_expired_def)

lemma oldest_expired_lease_None:
  "oldest_expired_lease now ls = None \<longleftrightarrow> (\<forall>l \<in> set ls. \<not> lease_expired now l)"
proof (cases "oldest_expired_lease now ls")
  case None
  then show ?thesis
    using oldest_loop_spec [of now 0 None ls None]
    by (auto simp: oldest_expired_lease_def lease_expired_def not_less)
next
  case (Some i)
  then show ?thesis
    using oldest_expired_lease_Some [OF Some] by auto
qed

subsection \<open>Adding a lease\<close>

lemma strcpy_to_Some:
  "length s < length dst \<Longrightarrow> strcpy_to dst s = Some (s @ 0 # drop (Suc (length s)) dst)"
  by (simp add: strcpy_to_def wr_def)

lemma strcpy_to_length: "strcpy_to dst s = Some h \<Longrightarrow> length h = length dst \<and> 0 \<in> set h"
  by (auto simp: strcpy_to_def wr_def split: if_splits)

definition opt_name_len :: "byte list option \<Rightarrow> nat" where
  "opt_name_len h = (case h of None \<Rightarrow> 0 | Some s \<Rightarrow> length s)"

lemma add_lease_cases:
  assumes "add_lease now ls c y d h = Some (ls', r)"
  obtains (full) "r = None" "ls' = clear_lease ls c y"
      "\<forall>l \<in> set (clear_lease ls c y). \<not> lease_expired now l"
    | (entry) i e where "r = Some i" "i < length ls" "lease_expired now (clear_lease ls c y ! i)"
      "ls' = (clear_lease ls c y)[i := e]" "l_chaddr e = take 16 c" "l_yiaddr e = y"
      "l_expires e = now + d" "length (l_hostname e) = length (l_hostname (clear_lease ls c y ! i))"
      "0 \<in> set (l_hostname e)"
proof (cases "oldest_expired_lease now (clear_lease ls c y)")
  case None
  with assms have "r = None" "ls' = clear_lease ls c y"
    by (simp_all add: add_lease_def)
  with None show thesis
    by (intro full) (simp_all add: oldest_expired_lease_None)
next
  case (Some i)
  with assms show thesis
    using oldest_expired_lease_Some [OF Some]
    by (auto simp: add_lease_def Let_def split: bind_splits dest!: strcpy_to_length intro!: entry)
qed

lemma add_lease_defined:
  assumes "list_all wf_lease ls" and "opt_name_len h < HOSTNAME_LEN" and "16 \<le> length c"
  shows "\<exists>ls' r. add_lease now ls c y d h = Some (ls', r)"
proof (cases "oldest_expired_lease now (clear_lease ls c y)")
  case (Some i)
  then have "i < length ls"
    using oldest_expired_lease_Some [OF Some] by simp
  then have "length (l_hostname (clear_lease ls c y ! i)) = HOSTNAME_LEN"
    using assms(1,3) wf_zero_lease
    by (auto simp: clear_lease_nth list_all_length wf_lease_def)
  with Some assms(2) show ?thesis
    by (cases h) (simp_all add: add_lease_def Let_def strcpy_to_Some opt_name_len_def)
qed (simp add: add_lease_def)

lemma add_lease_length: "add_lease now ls c y d h = Some (ls', r) \<Longrightarrow> length ls' = length ls"
  by (erule add_lease_cases) simp_all

lemma add_lease_inv:
  assumes "lease_inv ls" and "16 \<le> length c" and "add_lease now ls c y d h = Some (ls', r)"
  shows "lease_inv ls'"
  using assms(3)
proof (cases rule: add_lease_cases)
  case full
  then show ?thesis using clear_lease_inv [OF assms(2,1)] by simp
next
  case (entry i e)
  let ?t = "clear_lease ls c y"
  have t: "lease_inv ?t"
    using clear_lease_inv [OF assms(2,1)] .
  then have "wf_lease e"
    using entry assms(2) by (auto simp: lease_inv_def wf_lease_def list_all_length)
  moreover have "uniq l_yiaddr 0 (?t[i := e])"
    using t entry(6) clear_lease_not_hit(1) [OF assms(2)]
    by (intro uniq_update) (auto simp: lease_inv_def)
  moreover have "uniq l_chaddr blank_chaddr (?t[i := e])"
    using t entry(5) clear_lease_not_hit(2) [OF assms(2)]
    by (intro uniq_update) (auto simp: lease_inv_def)
  ultimately show ?thesis
    using t entry(2,4) by (auto simp: lease_inv_def list_all_length nth_list_update)
qed

lemma add_lease_lookup:
  assumes "16 \<le> length c" and "add_lease now ls c y d h = Some (ls', Some i)"
  shows "i < length ls'" and "l_chaddr (ls' ! i) = take 16 c" and "l_yiaddr (ls' ! i) = y"
    and "l_expires (ls' ! i) = now + d"
    and "y \<noteq> 0 \<Longrightarrow> find_lease_by_yiaddr ls' y = Some i"
    and "take 16 c \<noteq> blank_chaddr \<Longrightarrow> find_lease_by_chaddr ls' c = Some i"
proof -
  obtain e where e: "i < length ls" "ls' = (clear_lease ls c y)[i := e]" "l_chaddr e = take 16 c"
    "l_yiaddr e = y" "l_expires e = now + d"
    using assms(2) by (cases rule: add_lease_cases) auto
  then show "i < length ls'" and "l_chaddr (ls' ! i) = take 16 c" and "l_yiaddr (ls' ! i) = y"
    and "l_expires (ls' ! i) = now + d" by auto
  have other: "ls' ! j = clear_lease ls c y ! j" if "j \<noteq> i" for j
    using that e by simp
  have len: "length ls' = length ls"
    using e by simp
  show "find_lease_by_yiaddr ls' y = Some i" if "y \<noteq> 0"
    unfolding find_lease_by_yiaddr_def
  proof (rule find_index_unique)
    fix j assume "j < length ls'" and "l_yiaddr (ls' ! j) = y"
    then show "j = i"
      using clear_lease_not_hit(1) [OF assms(1), of j ls y] other [of j] len that by metis
  qed (use e in simp_all)
  show "find_lease_by_chaddr ls' c = Some i" if "take 16 c \<noteq> blank_chaddr"
    unfolding find_lease_by_chaddr_def
  proof (rule find_index_unique)
    fix j assume "j < length ls'" and "l_chaddr (ls' ! j) = take 16 c"
    then show "j = i"
      using clear_lease_not_hit(2) [OF assms(1), of j ls y] other [of j] len that by metis
  qed (use e in simp_all)
qed

text \<open>An unexpired lease of another client on another address survives.\<close>

lemma add_lease_keeps:
  assumes "16 \<le> length c" and "add_lease now ls c y d h = Some (ls', r)"
    and "j < length ls" and "\<not> hit c y (ls ! j)" and "\<not> lease_expired now (ls ! j)"
  shows "ls' ! j = ls ! j"
  using assms(2)
proof (cases rule: add_lease_cases)
  case full
  then show ?thesis using assms by (simp add: clear_lease_nth)
next
  case (entry i e)
  then have "i \<noteq> j"
    using assms(1,3,4,5) by (auto simp: clear_lease_nth)
  then show ?thesis using entry assms by (simp add: clear_lease_nth)
qed

subsection \<open>The interface of the lease table\<close>

text \<open>The operations by which the server changes the table, as data, and the execution of a
  sequence of them with given implementations.\<close>

datatype lease_op =
    Op_add u32 "byte list" u32 u32 "byte list option"
  | Op_clear "byte list" u32

fun op_ok :: "lease_op \<Rightarrow> bool" where
  "op_ok (Op_add now c y d h) \<longleftrightarrow> 16 \<le> length c \<and> opt_name_len h < HOSTNAME_LEN"
| "op_ok (Op_clear c y) \<longleftrightarrow> 16 \<le> length c"

fun run_ops ::
  "(u32 \<Rightarrow> 't \<Rightarrow> byte list \<Rightarrow> u32 \<Rightarrow> u32 \<Rightarrow> byte list option \<Rightarrow> ('t \<times> nat option) option) \<Rightarrow>
   ('t \<Rightarrow> byte list \<Rightarrow> u32 \<Rightarrow> 't) \<Rightarrow> 't \<Rightarrow> lease_op list \<Rightarrow> 't option" where
  "run_ops add clear t [] = Some t"
| "run_ops add clear t (Op_add now c y d h # ops) =
     Option.bind (add now t c y d h) (\<lambda>r. run_ops add clear (fst r) ops)"
| "run_ops add clear t (Op_clear c y # ops) = run_ops add clear (clear t c y) ops"

locale lease_store =
  fixes inv :: "'t \<Rightarrow> bool"
    and add :: "u32 \<Rightarrow> 't \<Rightarrow> byte list \<Rightarrow> u32 \<Rightarrow> u32 \<Rightarrow> byte list option \<Rightarrow> ('t \<times> nat option) option"
    and clear :: "'t \<Rightarrow> byte list \<Rightarrow> u32 \<Rightarrow> 't"
    and entry :: "'t \<Rightarrow> nat \<Rightarrow> dhcpOfferedAddr"
    and by_yiaddr :: "'t \<Rightarrow> u32 \<Rightarrow> nat option"
    and by_chaddr :: "'t \<Rightarrow> byte list \<Rightarrow> nat option"
  assumes clear_ok: "inv t \<Longrightarrow> 16 \<le> length c \<Longrightarrow> inv (clear t c y)"
    and add_ok: "inv t \<Longrightarrow> 16 \<le> length c \<Longrightarrow> opt_name_len h < HOSTNAME_LEN \<Longrightarrow>
      \<exists>t' r. add now t c y d h = Some (t', r) \<and> inv t'"
    and add_found: "16 \<le> length c \<Longrightarrow> add now t c y d h = Some (t', Some i) \<Longrightarrow> y \<noteq> 0 \<Longrightarrow>
      take 16 c \<noteq> blank_chaddr \<Longrightarrow>
      by_yiaddr t' y = Some i \<and> by_chaddr t' c = Some i \<and>
      l_chaddr (entry t' i) = take 16 c \<and> l_yiaddr (entry t' i) = y \<and>
      l_expires (entry t' i) = now + d"
begin

lemma run_inv:
  "inv t \<Longrightarrow> list_all op_ok ops \<Longrightarrow> \<exists>t'. run_ops add clear t ops = Some t' \<and> inv t'"
proof (induction ops arbitrary: t)
  case (Cons oper ops)
  show ?case
  proof (cases oper)
    case (Op_add now c y d h)
    with Cons.prems obtain t' r where "add now t c y d h = Some (t', r)" "inv t'"
      using add_ok [of t c h now y d] by auto
    with Op_add Cons show ?thesis by simp
  next
    case (Op_clear c y)
    with Cons clear_ok [of t c y] show ?thesis by simp
  qed
qed simp

lemma renew_keeps_address:
  assumes "16 \<le> length c" and "y \<noteq> 0" and "take 16 c \<noteq> blank_chaddr"
    and "add now t c y d h = Some (t', Some i)" and "add now' t' c y d' h' = Some (t'', Some j)"
  shows "by_chaddr t'' c = Some j \<and> l_yiaddr (entry t'' j) = l_yiaddr (entry t' i)"
  using add_found [OF assms(1,4,2,3)] add_found [OF assms(1,5,2,3)] by simp

end

interpretation lt: lease_store lease_inv add_lease clear_lease nth find_lease_by_yiaddr
  find_lease_by_chaddr
proof unfold_locales
  fix t :: lease_table and c :: "byte list" and h now y d
  assume "lease_inv t" and "16 \<le> length c" and "opt_name_len h < HOSTNAME_LEN"
  moreover from this obtain t' r where "add_lease now t c y d h = Some (t', r)"
    using add_lease_defined [of t h c now y d] by (auto simp: lease_inv_def)
  ultimately show "\<exists>t' r. add_lease now t c y d h = Some (t', r) \<and> lease_inv t'"
    using add_lease_inv by blast
next
  fix c :: "byte list" and now t y d h t' i
  assume "16 \<le> length c" and "add_lease now t c y d h = Some (t', Some i)" and "y \<noteq> 0"
    and "take 16 c \<noteq> blank_chaddr"
  then show "find_lease_by_yiaddr t' y = Some i \<and> find_lease_by_chaddr t' c = Some i \<and>
      l_chaddr (t' ! i) = take 16 c \<and> l_yiaddr (t' ! i) = y \<and> l_expires (t' ! i) = now + d"
    using add_lease_lookup [of c now t y d h t' i] by simp
qed (rule clear_lease_inv)

subsection \<open>Finding an address\<close>

lemma find_by_yiaddr_None: "find_lease_by_yiaddr ls y = None \<longleftrightarrow> (\<forall>l \<in> set ls. l_yiaddr l \<noteq> y)"
  by (simp add: find_lease_by_yiaddr_def find_index_None)

lemma add_lease_no_new:
  assumes "16 \<le> length c" and "add_lease now ls c y d h = Some (ls', r)"
    and "find_lease_by_yiaddr ls y' = None" and "y' \<noteq> y" and "y' \<noteq> 0"
  shows "find_lease_by_yiaddr ls' y' = None"
proof -
  have t: "\<forall>l \<in> set (clear_lease ls c y). l_yiaddr l \<noteq> y'"
    using assms by (auto simp: find_by_yiaddr_None clear_lease_map)
  from assms(2) show ?thesis
  proof (cases rule: add_lease_cases)
    case full
    with t show ?thesis by (simp add: find_by_yiaddr_None)
  next
    case (entry i e)
    with t assms(4) show ?thesis
      by (auto simp: find_by_yiaddr_None dest: set_update_subset_insert [THEN subsetD])
  qed
qed

lemma check_ip_cases:
  assumes "lease_inv ls"
  obtains (silent) "check_ip cfg now arpping ls a = Some (ls, False)" "arpping a \<noteq> 0"
    | (conflict) ls' where "check_ip cfg now arpping ls a = Some (ls', True)" "arpping a = 0"
      "lease_inv ls'" "length ls' = length ls"
      "\<And>y. find_lease_by_yiaddr ls y = None \<Longrightarrow> y \<noteq> a \<Longrightarrow> y \<noteq> 0 \<Longrightarrow> find_lease_by_yiaddr ls' y = None"
proof (cases "arpping a = 0")
  case True
  have b: "16 \<le> length blank_chaddr" "opt_name_len None < HOSTNAME_LEN"
    by (simp_all add: blank_chaddr_def opt_name_len_def)
  obtain ls' r where a: "add_lease now ls blank_chaddr a (c_conflict_time cfg) None = Some (ls', r)"
    and "lease_inv ls'"
    using lt.add_ok [OF assms b] by blast
  then show thesis
    using True add_lease_length [OF a] add_lease_no_new [OF b(1) a]
    by (intro conflict [of ls']) (simp_all add: check_ip_def)
qed (simp add: check_ip_def silent)

text \<open>The result of the search: 0, or an address of the range that no test excludes.\<close>

definition found_ok :: "server_config_t \<Rightarrow> u32 \<Rightarrow> (u32 \<Rightarrow> int) \<Rightarrow> u32 \<Rightarrow> static_table \<Rightarrow> bool
    \<Rightarrow> u32 \<Rightarrow> lease_table \<Rightarrow> u32 \<Rightarrow> bool" where
  "found_ok cfg now arpping local_ip statics check_expired low ls r \<longleftrightarrow>
     low \<le> ntohl r \<and> ntohl r \<le> ntohl (c_end cfg) \<and> \<not> skip_address statics local_ip (ntohl r) \<and>
     arpping r \<noteq> 0 \<and> lease_allows now check_expired ls r"

lemma found_ok_low:
  "found_ok cfg now arpping local_ip statics ce low ls r \<Longrightarrow> low' \<le> low \<Longrightarrow>
     found_ok cfg now arpping local_ip statics ce low' ls r"
  by (auto simp: found_ok_def)

lemma skip_address_0: "skip_address statics local_ip 0"
  by (simp add: skip_address_def)

lemma unat_le_u32_max: "unat (w :: u32) \<le> 4294967295"
  using unsigned_less [of w, where 'a = nat] by simp

lemma u32_max_le:
  assumes "(0xffffffff :: u32) \<le> w"
  shows "w = 0xffffffff"
proof -
  have "unat w = unat (0xffffffff :: u32)"
    using assms unat_le_u32_max [of w] by (simp add: word_le_nat_alt)
  then show ?thesis by (metis word_eq_iff_unsigned)
qed

lemma find_address_loop_total:
  assumes "ntohl (c_end cfg) \<noteq> 0xffffffff" and "lease_inv ls"
  shows "\<exists>ls' r. find_address_loop cfg now arpping local_ip statics ce ls addr = Some (ls', r) \<and>
     lease_inv ls' \<and> length ls' = length ls \<and>
     (r \<noteq> 0 \<longrightarrow> found_ok cfg now arpping local_ip statics ce addr ls' r) \<and>
     (r = 0 \<longrightarrow> (\<forall>a. addr \<le> a \<and> a \<le> ntohl (c_end cfg) \<and> \<not> skip_address statics local_ip a \<and>
        find_lease_by_yiaddr ls (htonl a) = None \<longrightarrow> arpping (htonl a) = 0))"
  (is "?Q ls addr")
  using assms(2)
proof (induction "unat (ntohl (c_end cfg)) + 1 - unat addr" arbitrary: ls addr rule: less_induct)
  case less
  note unroll = find_address_loop.simps [of cfg now arpping local_ip statics ce ls addr]
  show ?case
  proof (cases "addr \<le> ntohl (c_end cfg)")
    case False
    then show ?thesis
      using less.prems by (auto simp: unroll dest: order_trans)
  next
    case True
    then have "addr \<noteq> 0xffffffff"
      using assms(1) u32_max_le by auto
    note up = less_u32_Suc [OF this] and S = unat_u32_Suc [OF this]
    have dec: "unat (ntohl (c_end cfg)) + 1 - unat (addr + 1) < unat (ntohl (c_end cfg)) + 1 - unat addr"
      using True by (simp add: word_le_nat_alt S)
    have cont: "?Q ls addr"
      if eq: "find_address_loop cfg now arpping local_ip statics ce ls addr =
          find_address_loop cfg now arpping local_ip statics ce ls2 (addr + 1)"
        and inv: "lease_inv ls2" and len: "length ls2 = length ls"
        and keep: "\<And>y. find_lease_by_yiaddr ls y = None \<Longrightarrow> y \<noteq> htonl addr \<Longrightarrow> y \<noteq> 0 \<Longrightarrow>
          find_lease_by_yiaddr ls2 y = None"
        and here: "skip_address statics local_ip addr \<or> find_lease_by_yiaddr ls (htonl addr) \<noteq> None \<or>
          arpping (htonl addr) = 0" for ls2
    proof -
      obtain ls' r where r: "find_address_loop cfg now arpping local_ip statics ce ls2 (addr + 1) = Some (ls', r)"
        "lease_inv ls'" "length ls' = length ls2"
        "r \<noteq> 0 \<Longrightarrow> found_ok cfg now arpping local_ip statics ce (addr + 1) ls' r"
        "\<And>a. r = 0 \<Longrightarrow> addr + 1 \<le> a \<Longrightarrow> a \<le> ntohl (c_end cfg) \<Longrightarrow> \<not> skip_address statics local_ip a \<Longrightarrow>
           find_lease_by_yiaddr ls2 (htonl a) = None \<Longrightarrow> arpping (htonl a) = 0"
        using less.hyps [OF dec inv] by blast
      have "arpping (htonl a) = 0" if "r = 0" "addr \<le> a" "a \<le> ntohl (c_end cfg)"
        "\<not> skip_address statics local_ip a" "find_lease_by_yiaddr ls (htonl a) = None" for a
      proof (cases "a = addr")
        case False
        then have "addr < a"
          using that(2) by simp
        then have "addr + 1 \<le> a"
          by (simp add: word_le_nat_alt word_less_nat_alt S)
        moreover have "a \<noteq> 0"
          using that(4) skip_address_0 by metis
        ultimately show ?thesis
          using that r(5) keep [of "htonl a"] False by simp
      qed (use here that in simp)
      then show ?thesis
        using r(1-4) eq len up found_ok_low by (metis less_imp_le)
    qed
    show ?thesis
    proof (cases "skip_address statics local_ip addr \<or> \<not> lease_allows now ce ls (htonl addr)")
      case True
      then show ?thesis
        using less.prems \<open>addr \<le> ntohl (c_end cfg)\<close>
        by (intro cont [of ls]) (auto simp: unroll lease_allows_def split: option.splits)
    next
      case False
      from less.prems show ?thesis
      proof (cases rule: check_ip_cases [of ls cfg now arpping "htonl addr"])
        case silent
        then have "find_address_loop cfg now arpping local_ip statics ce ls addr = Some (ls, htonl addr)"
          using True False by (simp add: unroll)
        moreover have "htonl addr \<noteq> 0"
          using False skip_address_0 by force
        ultimately show ?thesis
          using True False silent less.prems by (simp add: found_ok_def)
      next
        case (conflict ls')
        then show ?thesis
          using True False by (intro cont [of ls']) (auto simp: unroll)
      qed
    qed
  qed
qed

text \<open>Whatever the range is, a table that the loop returns keeps the invariant and its length.\<close>

lemma find_address_loop_inv:
  assumes "find_address_loop cfg now arpping local_ip statics ce ls addr = Some r"
  shows "lease_inv ls \<longrightarrow> lease_inv (fst r) \<and> length (fst r) = length ls"
proof (rule find_address_loop.raw_induct [where P = "\<lambda>cfg now arpping local_ip statics ce ls addr r.
    lease_inv ls \<longrightarrow> lease_inv (fst r) \<and> length (fst r) = length ls", OF _ assms])
  fix loop cfg now arpping local_ip statics ce ls addr r
  assume IH: "\<And>cfg now arpping local_ip statics ce ls addr r.
      loop cfg now arpping local_ip statics ce ls addr = Some r \<Longrightarrow>
      lease_inv ls \<longrightarrow> lease_inv (fst r) \<and> length (fst r) = length ls"
    and eq: "(if \<not> addr \<le> ntohl (c_end cfg) then Some (ls, 0)
     else if skip_address statics local_ip addr then
       loop cfg now arpping local_ip statics ce ls (addr + 1)
     else if lease_allows now ce ls (htonl addr) then
       Option.bind (check_ip cfg now arpping ls (htonl addr)) (\<lambda>r.
         if snd r then loop cfg now arpping local_ip statics ce (fst r) (addr + 1)
         else Some (fst r, htonl addr))
     else loop cfg now arpping local_ip statics ce ls (addr + 1)) = Some r"
  have "lease_inv (fst r) \<and> length (fst r) = length ls" if inv: "lease_inv ls"
  proof (cases rule: check_ip_cases [OF inv, of cfg now arpping "htonl addr"])
    case 1
    with eq inv IH show ?thesis by (auto split: if_splits)
  next
    case (2 ls')
    with eq inv IH show ?thesis by (auto split: if_splits)
  qed
  then show "lease_inv ls \<longrightarrow> lease_inv (fst r) \<and> length (fst r) = length ls" ..
qed

text \<open>With a range that ends at 255.255.255.255 the loop variable wraps around, so the loop only
  ends by finding an address.\<close>

lemma find_address_loop_result:
  assumes "find_address_loop cfg now arpping local_ip statics ce ls addr = Some r"
  shows "ntohl (c_end cfg) = 0xffffffff \<longrightarrow> (\<exists>a. arpping a \<noteq> 0)"
proof (rule find_address_loop.raw_induct [where P = "\<lambda>cfg now arpping local_ip statics ce ls addr r.
    ntohl (c_end cfg) = 0xffffffff \<longrightarrow> (\<exists>a. arpping a \<noteq> 0)", OF _ assms])
  fix loop cfg now arpping local_ip statics ce ls addr r
  assume IH: "\<And>cfg now arpping local_ip statics ce ls addr r.
      loop cfg now arpping local_ip statics ce ls addr = Some r \<Longrightarrow>
      ntohl (c_end cfg) = 0xffffffff \<longrightarrow> (\<exists>a. arpping a \<noteq> 0)"
    and eq: "(if \<not> addr \<le> ntohl (c_end cfg) then Some (ls, 0)
     else if skip_address statics local_ip addr then
       loop cfg now arpping local_ip statics ce ls (addr + 1)
     else if lease_allows now ce ls (htonl addr) then
       Option.bind (check_ip cfg now arpping ls (htonl addr)) (\<lambda>r.
         if snd r then loop cfg now arpping local_ip statics ce (fst r) (addr + 1)
         else Some (fst r, htonl addr))
     else loop cfg now arpping local_ip statics ce ls (addr + 1)) = Some r"
  have "addr \<le> 0xffffffff"
    by (simp add: word_le_nat_alt unat_le_u32_max)
  with eq show "ntohl (c_end cfg) = 0xffffffff \<longrightarrow> (\<exists>a. arpping a \<noteq> 0)"
    by (auto simp: check_ip_def split: if_splits bind_splits dest: IH)
qed

subsection \<open>Properties\<close>

text \<open>A configuration for the witnesses: the range 192.168.0.2 to 192.168.0.254.\<close>

definition sample_cfg :: server_config_t where
  "sample_cfg = \<lparr>c_server = htonl 0xc0a80001, c_start = htonl 0xc0a80002,
     c_end = htonl 0xc0a800fe, c_options = [], c_interface = [0x62, 0x72, 0x30], c_ifindex = 1,
     c_arp = replicate 6 2, c_lease = 7200, c_max_leases = 2, c_remaining = True, c_auto_time = 0,
     c_decline_time = 3600, c_conflict_time = 3600, c_offer_time = 60, c_min_lease = 60,
     c_lease_file = [], c_pidfile = [], c_notify_file = None, c_siaddr = 0, c_sname = None,
     c_boot_file = None, c_static_lease_file = [], c_max_static = 0, c_sys_netmask = 0\<rparr>"

text \<open>C21: Every sequence of additions and removals, from the empty table on, runs without a memory
  error and leaves a table in which no address is leased twice and no client holds two
  leases, provided hardware addresses have 16 bytes and host names fit their field.\<close>

theorem lease_table_unique:
  assumes "list_all op_ok ops"
  shows "\<exists>t. run_ops add_lease clear_lease (replicate n zero_lease) ops = Some t \<and> lease_inv t"
proof -
  have "lease_inv (replicate n zero_lease)"
    by (simp add: lease_inv_def uniq_def sorted_wrt_iff_nth_less list_all_length)
  then show ?thesis
    using assms by (rule lt.run_inv)
qed

theorem lease_table_unique_witness:
  "\<exists>t. run_ops add_lease clear_lease (replicate 2 zero_lease)
     [Op_add 100 (replicate 16 1) 5 60 None, Op_add 110 (replicate 16 2) 5 60 (Some [0x61]),
      Op_clear (replicate 16 2) 0] = Some t \<and> lease_inv t"
  by (rule lease_table_unique) (simp add: opt_name_len_def)

text \<open>C24: A lease that \<open>add_lease\<close> grants is found again by its address and by its client with the
  requested expiry time, and the unexpired lease of any other client on any other
  address is left as it was.\<close>

theorem add_lease_grants:
  assumes "16 \<le> length c" and "take 16 c \<noteq> blank_chaddr" and "y \<noteq> 0"
    and "add_lease now ls c y d h = Some (ls', Some i)"
  shows "find_lease_by_yiaddr ls' y = Some i \<and> find_lease_by_chaddr ls' c = Some i \<and>
     l_expires (ls' ! i) = now + d \<and>
     (\<forall>j < length ls. l_chaddr (ls ! j) \<noteq> take 16 c \<and> l_yiaddr (ls ! j) \<noteq> y \<and>
        \<not> lease_expired now (ls ! j) \<longrightarrow> ls' ! j = ls ! j)"
  using add_lease_lookup [OF assms(1,4)] assms(2,3) add_lease_keeps [OF assms(1,4)]
  by (auto simp: hit_def)

theorem add_lease_grants_witness:
  "\<exists>ls'. find_lease_by_yiaddr ls' 5 = Some 0 \<and> find_lease_by_chaddr ls' (replicate 16 1) = Some 0 \<and>
     l_expires (ls' ! 0) = 100 + 60"
proof -
  have "add_lease 100 [zero_lease] (replicate 16 1) 5 60 None =
    Some ([zero_lease\<lparr>l_chaddr := replicate 16 1, l_yiaddr := 5, l_expires := 160\<rparr>], Some 0)"
    by (simp add: add_lease_def clear_lease_def oldest_expired_lease_def strcpy_to_def wr_def
        zero_lease_def blank_chaddr_def Let_def flip: replicate_Suc)
  from add_lease_grants [OF _ _ _ this] show ?thesis
    by (intro exI [of _ "[zero_lease\<lparr>l_chaddr := replicate 16 1, l_yiaddr := 5, l_expires := 160\<rparr>]"])
      (simp add: blank_chaddr_def)
qed

text \<open>C22: The address search ends whenever the configured range does not end at 255.255.255.255.
  A result other than 0 lies in the range, is neither a network nor a broadcast address, is not
  the router's own, is not reserved by a static lease, did not answer the ARP probe, and is free
  in the table (or expired, when expired leases may be reused).  A result of 0 means that every
  eligible address without a lease answered the probe.\<close>

theorem find_address_correct:
  assumes "ntohl (c_end cfg) \<noteq> 0xffffffff" and "lease_inv ls"
  shows "\<exists>ls' r. find_address cfg now arpping local_ip statics ls ce = Some (ls', r) \<and> lease_inv ls' \<and>
     (r \<noteq> 0 \<longrightarrow> found_ok cfg now arpping local_ip statics ce (ntohl (c_start cfg)) ls' r) \<and>
     (r = 0 \<longrightarrow> (\<forall>a. ntohl (c_start cfg) \<le> a \<and> a \<le> ntohl (c_end cfg) \<and>
        \<not> skip_address statics local_ip a \<and> find_lease_by_yiaddr ls (htonl a) = None \<longrightarrow>
        arpping (htonl a) = 0))"
  unfolding find_address_def using find_address_loop_total [OF assms] by blast

theorem find_address_correct_witness:
  "\<exists>ls' r. find_address sample_cfg 100 (\<lambda>_. 1) (htonl 0xc0a80001) [] [zero_lease] False = Some (ls', r) \<and>
     lease_inv ls'"
proof -
  have "lease_inv [zero_lease]"
    by (simp add: lease_inv_def uniq_def)
  then show ?thesis
    using find_address_correct [of sample_cfg "[zero_lease]" 100 "\<lambda>_. 1" "htonl 0xc0a80001" "[]" False]
    by (auto simp: sample_cfg_def)
qed

text \<open>With a range that ends at 255.255.255.255, on a network where every probe is answered, the
  search never returns.\<close>

theorem find_address_diverges:
  assumes "ntohl (c_end cfg) = 0xffffffff" and "\<forall>a. arpping a = 0"
  shows "find_address cfg now arpping local_ip statics ls ce = None"
  using find_address_loop_result [of cfg now arpping local_ip statics ce ls "ntohl (c_start cfg)"]
    assms by (cases "find_address cfg now arpping local_ip statics ls ce") (auto simp: find_address_def)

theorem find_address_diverges_witness:
  "find_address (sample_cfg\<lparr>c_end := INADDR_BROADCAST\<rparr>) 100 (\<lambda>_. 0) 0 [] [zero_lease] False = None"
  by (rule find_address_diverges) (simp_all add: ntohl_def le32_def)

end
