(* ===== verification/Dhcp_Config.thy ===== *)
theory Dhcp_Config
  imports Dhcp_Leases
begin

section \<open>The configuration file (\<^verbatim>\<open>udhcp-0.9.8/files.c\<close>, parsers and \<open>read_config\<close>)\<close>

text \<open>
  The functions of the C library that the parsers use are defined first (\<^verbatim>\<open>strtoul\<close> and \<^verbatim>\<open>strtol\<close>
  with base 0 for 32-bit \<^verbatim>\<open>long\<close>, \<^verbatim>\<open>strtok\<close>, \<^verbatim>\<open>strcasecmp\<close>, \<^verbatim>\<open>inet_aton\<close>, \<^verbatim>\<open>fgets\<close>).  The resolver
  \<^verbatim>\<open>gethostbyname\<close> is an argument, and so are the two build constants of the keyword table
  (the name of the local interface and the default size of the lease table).
\<close>

subsection \<open>C library\<close>

definition str :: "string \<Rightarrow> byte list" where
  "str s = map of_char s"

definition isspace :: "byte \<Rightarrow> bool" where
  "isspace c \<longleftrightarrow> c = 0x20 \<or> 9 \<le> c \<and> c \<le> 13"

definition isdigit :: "byte \<Rightarrow> bool" where
  "isdigit c \<longleftrightarrow> 0x30 \<le> c \<and> c \<le> 0x39"

definition tolower :: "byte \<Rightarrow> byte" where
  "tolower c = (if 0x41 \<le> c \<and> c \<le> 0x5a then c + 0x20 else c)"

definition strcasecmp_eq :: "byte list \<Rightarrow> byte list \<Rightarrow> bool" where
  "strcasecmp_eq a b \<longleftrightarrow> map tolower a = map tolower b"

definition digit_val :: "byte \<Rightarrow> nat" where
  "digit_val c = (if isdigit c then unat c - 0x30
     else if 0x61 \<le> tolower c \<and> tolower c \<le> 0x7a then unat (tolower c) - 0x61 + 10 else 36)"

text \<open>The digits at the start of a string: their value, whether there is one, and the rest.\<close>

fun digits :: "nat \<Rightarrow> nat \<Rightarrow> byte list \<Rightarrow> nat \<times> byte list" where
  "digits base acc [] = (acc, [])"
| "digits base acc (c # cs) =
    (if digit_val c < base then digits base (acc * base + digit_val c) cs else (acc, c # cs))"

definition num_base :: "byte list \<Rightarrow> nat \<times> byte list" where
  "num_base s = (case s of
     c # x # d # _ \<Rightarrow> if c = 0x30 \<and> tolower x = 0x78 \<and> digit_val d < 16 then (16, drop 2 s)
                      else if c = 0x30 then (8, s) else (10, s)
   | c # _ \<Rightarrow> if c = 0x30 then (8, s) else (10, s)
   | [] \<Rightarrow> (10, s))"

text \<open>The sign, the magnitude and the rest of the string; \<open>None\<close> when there is no number, in which case
  the C functions return 0 and leave the end pointer at the start of the string.\<close>

definition scan_number :: "byte list \<Rightarrow> (bool \<times> nat \<times> byte list) option" where
  "scan_number s =
    (let t = dropWhile isspace s;
         neg = (t \<noteq> [] \<and> hd t = 0x2d);
         u = (if t \<noteq> [] \<and> (hd t = 0x2d \<or> hd t = 0x2b) then tl t else t);
         (base, v) = num_base u;
         (n, rest) = digits base 0 v in
     if v \<noteq> [] \<and> digit_val (hd v) < base then Some (neg, n, rest) else None)"

definition strtoul :: "byte list \<Rightarrow> u32 \<times> byte list" where
  "strtoul s = (case scan_number s of
     None \<Rightarrow> (0, s)
   | Some (neg, n, rest) \<Rightarrow>
       (if n \<ge> 2 ^ 32 then 0xffffffff else if neg then - of_nat n else of_nat n, rest))"

definition strtol :: "byte list \<Rightarrow> u32 \<times> byte list" where
  "strtol s = (case scan_number s of
     None \<Rightarrow> (0, s)
   | Some (neg, n, rest) \<Rightarrow>
       (if neg then (if n > 2 ^ 31 then 0x80000000 else - of_nat n)
        else (if n \<ge> 2 ^ 31 then 0x7fffffff else of_nat n), rest))"

text \<open>\<^verbatim>\<open>strtok\<close>: the next token and the string that the following call continues with.\<close>

definition strtok :: "byte list \<Rightarrow> byte list \<Rightarrow> (byte list \<times> byte list) option" where
  "strtok delims s =
    (let t = dropWhile (\<lambda>c. c \<in> set delims) s in
     if t = [] then None
     else Some (takeWhile (\<lambda>c. c \<notin> set delims) t, tl (dropWhile (\<lambda>c. c \<notin> set delims) t)))"

text \<open>\<^verbatim>\<open>inet_aton\<close>: one to four numbers with dots, the last one filling the remaining octets; the
  result is in network order.  \<open>acc\<close> holds the octets read so far.\<close>

function inet_aton_loop :: "nat list \<Rightarrow> byte list \<Rightarrow> u32 option" where
  "inet_aton_loop acc s =
    (if s = [] \<or> \<not> isdigit (hd s) then None
     else case scan_number s of
       None \<Rightarrow> None
     | Some (neg, n, rest) \<Rightarrow>
         if rest \<noteq> [] \<and> hd rest = 0x2e then
           (if n \<le> 255 \<and> length acc < 3 then inet_aton_loop (acc @ [n]) (tl rest) else None)
         else if rest \<noteq> [] \<and> \<not> isspace (hd rest) then None
         else if n < 2 ^ (32 - 8 * length acc)
         then Some (htonl (of_nat (foldl (\<lambda>a b. a * 256 + b) 0 acc * 2 ^ (32 - 8 * length acc) + n)))
         else None)"
  by pat_completeness auto
termination
  by (relation "measure (\<lambda>(acc, s). 3 - length acc)") auto

declare inet_aton_loop.simps [simp del]

definition inet_aton :: "byte list \<Rightarrow> u32 option" where
  "inet_aton s = inet_aton_loop [] s"

definition inet_addr :: "byte list \<Rightarrow> u32" where
  "inet_addr s = (case inet_aton s of None \<Rightarrow> 0xffffffff | Some a \<Rightarrow> a)"

subsection \<open>Value parsers\<close>

type_synonym resolver = "byte list \<Rightarrow> u32 option"

text \<open>The parsers return whether the line was understood and the new value of the variable.\<close>

definition read_ip :: "resolver \<Rightarrow> byte list \<Rightarrow> u32 \<Rightarrow> bool \<times> u32" where
  "read_ip gethostbyname line old = (case inet_aton line of
     Some a \<Rightarrow> (True, a)
   | None \<Rightarrow> (case gethostbyname line of Some a \<Rightarrow> (True, a) | None \<Rightarrow> (False, old)))"

definition read_str :: "byte list \<Rightarrow> bool \<times> byte list" where
  "read_str line = (True, line)"

definition read_u32 :: "byte list \<Rightarrow> bool \<times> u32" where
  "read_u32 line = (snd (strtoul line) = [], fst (strtoul line))"

definition read_yn :: "byte list \<Rightarrow> bool \<Rightarrow> bool \<times> bool" where
  "read_yn line old =
    (if strcasecmp_eq (str ''yes'') line then (True, True)
     else if strcasecmp_eq (str ''no'') line then (True, False)
     else (False, old))"

text \<open>The \<^verbatim>\<open>switch\<close> of \<open>read_opt\<close> on one token: the bytes to attach (\<open>None\<close> when \<^verbatim>\<open>retval\<close> is 0), the
  string left for \<^verbatim>\<open>strtok\<close>, and whether \<^verbatim>\<open>val\<close> is still non-null.\<close>

definition opt_bytes :: "resolver \<Rightarrow> byte \<Rightarrow> byte list \<Rightarrow> byte list \<Rightarrow> byte list option \<times> byte list \<times> bool" where
  "opt_bytes gethostbyname type val rest =
    (let ip = (\<lambda>v. case read_ip gethostbyname v 0 of (ok, a) \<Rightarrow> if ok then Some (bytes_le32 a) else None);
         num = (\<lambda>(n, e) bs. if e = [] then Some bs else None) in
     if type = OPTION_IP then (ip val, rest, True)
     else if type = OPTION_IP_PAIR then
       (case strtok (str '', '' @ [9] @ str ''/-'') rest of
          None \<Rightarrow> (None, rest, False)
        | Some (val2, rest2) \<Rightarrow>
            (case (ip val, ip val2) of (Some a, Some b) \<Rightarrow> Some (a @ b) | _ \<Rightarrow> None, rest2, True))
     else if type = OPTION_STRING then
       (if 0 < length val then Some (take 254 val) else None, rest, True)
     else if type = OPTION_BOOLEAN then
       (case read_yn val False of (ok, b) \<Rightarrow> if ok then Some [if b then 1 else 0] else None, rest, True)
     else if type = OPTION_U8 then (num (strtoul val) [ucast (fst (strtoul val))], rest, True)
     else if type = OPTION_U16 then
       (num (strtoul val) (bytes_le16 (htons (ucast (fst (strtoul val))))), rest, True)
     else if type = OPTION_S16 then
       (num (strtol val) (bytes_le16 (htons (ucast (fst (strtol val))))), rest, True)
     else if type = OPTION_U32 then (num (strtoul val) (bytes_le32 (htonl (fst (strtoul val)))), rest, True)
     else if type = OPTION_S32 then (num (strtol val) (bytes_le32 (htonl (fst (strtol val)))), rest, True)
     else (None, rest, True))"

lemma strtok_shorter:
  assumes "strtok ds s = Some (v, r)"
  shows "length r < length s"
proof -
  let ?t = "dropWhile (\<lambda>c. c \<in> set ds) s"
  have "?t \<noteq> []" "r = tl (dropWhile (\<lambda>c. c \<notin> set ds) ?t)"
    using assms by (auto simp: strtok_def Let_def split: if_splits)
  moreover have "hd ?t \<notin> set ds"
    using hd_dropWhile [OF \<open>?t \<noteq> []\<close>] by simp
  ultimately have "length r < length ?t"
    using length_dropWhile_le [of "\<lambda>c. c \<notin> set ds" "tl ?t"]
    by (cases ?t) auto
  then show ?thesis
    using length_dropWhile_le [of "\<lambda>c. c \<in> set ds" s] by linarith
qed

lemma opt_bytes_rest: "opt_bytes g ty val rest = (b, rest', cont) \<Longrightarrow> length rest' \<le> length rest"
  by (auto simp: opt_bytes_def Let_def split: if_splits option.splits prod.splits
      dest!: strtok_shorter)

function read_opt_loop ::
  "resolver \<Rightarrow> dhcp_option \<Rightarrow> byte list \<Rightarrow> option_set \<Rightarrow> bool \<Rightarrow> bool \<times> option_set" where
  "read_opt_loop gethostbyname opt s opt_list retval =
    (case strtok (str '', '' @ [9]) s of
       None \<Rightarrow> (retval, opt_list)
     | Some (val, rest) \<Rightarrow>
         (case opt_bytes gethostbyname (opt_flags opt AND TYPE_MASK) val rest of
            (None, rest, cont) \<Rightarrow> (False, opt_list)
          | (Some buffer, rest, cont) \<Rightarrow>
              let opt_list = attach_option opt_list opt buffer (length buffer) in
              if cont \<and> opt_flags opt AND OPTION_LIST \<noteq> 0
              then read_opt_loop gethostbyname opt rest opt_list True
              else (True, opt_list)))"
  by pat_completeness auto
termination
  by (relation "measure (\<lambda>(g, opt, s, ol, r). length s)")
    (auto dest!: strtok_shorter dest: opt_bytes_rest [OF sym])

declare read_opt_loop.simps [simp del]

text \<open>The table search of \<open>read_opt\<close> has no \<^verbatim>\<open>break\<close>: the last entry with the name is taken.\<close>

definition option_by_name :: "byte list \<Rightarrow> dhcp_option option" where
  "option_by_name name =
     find (\<lambda>d. str (opt_name d) = name) (rev (takeWhile (\<lambda>d. opt_code d \<noteq> 0) dhcp_options))"

definition read_opt :: "resolver \<Rightarrow> byte list \<Rightarrow> option_set \<Rightarrow> bool \<times> option_set" where
  "read_opt gethostbyname line opt_list =
    (case strtok (str '' '' @ [9] @ str ''='') line of
       None \<Rightarrow> (False, opt_list)
     | Some (opt, rest) \<Rightarrow>
         (case option_by_name opt of
            None \<Rightarrow> (False, opt_list)
          | Some option \<Rightarrow> read_opt_loop gethostbyname option rest opt_list False))"

subsection \<open>Keywords\<close>

text \<open>The table of keywords; a handler updates its variable of the configuration.\<close>

record config_keyword =
  k_keyword :: "byte list"
  k_handler :: "byte list \<Rightarrow> server_config_t \<Rightarrow> bool \<times> server_config_t"
  k_def :: "byte list"

definition h_ip where
  "h_ip g get upd line cfg = (case read_ip g line (get cfg) of (ok, a) \<Rightarrow> (ok, upd (\<lambda>_. a) cfg))"

definition h_u32 where
  "h_u32 upd line cfg = (case read_u32 line of (ok, v) \<Rightarrow> (ok, upd (\<lambda>_. v) cfg))"

definition h_str where
  "h_str upd line cfg = (case read_str line of (ok, v) \<Rightarrow> (ok, upd (\<lambda>_. v) cfg))"

definition h_str_opt where
  "h_str_opt upd line cfg = (case read_str line of (ok, v) \<Rightarrow> (ok, upd (\<lambda>_. Some v) cfg))"

definition h_yn where
  "h_yn line cfg = (case read_yn line (c_remaining cfg) of (ok, b) \<Rightarrow> (ok, cfg\<lparr>c_remaining := b\<rparr>))"

definition h_opt where
  "h_opt g line cfg = (case read_opt g line (c_options cfg) of (ok, ol) \<Rightarrow> (ok, cfg\<lparr>c_options := ol\<rparr>))"

definition config_keywords :: "resolver \<Rightarrow> byte list \<Rightarrow> byte list \<Rightarrow> config_keyword list" where
  "config_keywords g if_local max_lease =
    map (\<lambda>(k, h, d). \<lparr>k_keyword = str k, k_handler = h, k_def = d\<rparr>)
    [(''start'', h_ip g c_start c_start_update, str ''192.168.0.20''),
     (''end'', h_ip g c_end c_end_update, str ''192.168.0.254''),
     (''interface'', h_str c_interface_update, if_local),
     (''option'', h_opt g, []),
     (''opt'', h_opt g, []),
     (''max_leases'', h_u32 c_max_leases_update, max_lease),
     (''remaining'', h_yn, str ''yes''),
     (''auto_time'', h_u32 c_auto_time_update, str ''30''),
     (''decline_time'', h_u32 c_decline_time_update, str ''3600''),
     (''conflict_time'', h_u32 c_conflict_time_update, str ''3600''),
     (''offer_time'', h_u32 c_offer_time_update, str ''60''),
     (''min_lease'', h_u32 c_min_lease_update, str ''60''),
     (''lease_file'', h_str c_lease_file_update, str ''/var/lib/dhcp/udhcpd.leases''),
     (''pidfile'', h_str c_pidfile_update, str ''/var/run/dhcpd.pid''),
     (''notify_file'', h_str_opt c_notify_file_update, []),
     (''siaddr'', h_ip g c_siaddr c_siaddr_update, str ''0.0.0.0''),
     (''sname'', h_str_opt c_sname_update, []),
     (''boot_file'', h_str_opt c_boot_file_update, []),
     (''static_file'', h_str c_static_lease_file_update, str ''/var/lib/dhcp/udhcpd.static''),
     (''max_static'', h_u32 c_max_static_update, str ''200'')]"

definition set_defaults :: "config_keyword list \<Rightarrow> server_config_t \<Rightarrow> server_config_t" where
  "set_defaults ks cfg =
     fold (\<lambda>k cfg. if k_def k \<noteq> [] then snd (k_handler k (k_def k) cfg) else cfg) ks cfg"

text \<open>\<^verbatim>\<open>fgets(buffer, 80, in)\<close>: a line with its newline, at most 79 characters.\<close>

definition fgets :: "nat \<Rightarrow> byte list \<Rightarrow> byte list \<times> byte list" where
  "fgets sz s =
    (let l = takeWhile (\<lambda>c. c \<noteq> 10) s;
         n = min (sz - 1) (min (length l + 1) (length s)) in (take n s, drop n s))"

definition c_str :: "byte list \<Rightarrow> byte list" where
  "c_str = takeWhile (\<lambda>c. c \<noteq> 0)"

text \<open>One line of the file: token and value, or nothing to do.\<close>

definition split_line :: "byte list \<Rightarrow> (byte list \<times> byte list) option" where
  "split_line buffer =
    (let buffer = takeWhile (\<lambda>c. c \<noteq> 10) (c_str buffer);
         buffer = takeWhile (\<lambda>c. c \<noteq> 0x23) buffer;
         t = dropWhile (\<lambda>c. c \<in> {0x20, 9}) buffer in
     if t = [] then None
     else
       let line = dropWhile (\<lambda>c. c \<notin> {0x20, 9, 0x3d}) t in
       if line = [] then None
       else Some (takeWhile (\<lambda>c. c \<notin> {0x20, 9, 0x3d}) t,
         rev (dropWhile isspace (rev (dropWhile (\<lambda>c. c \<in> {0x20, 9, 0x3d}) (tl line))))))"

definition apply_keyword :: "byte list \<Rightarrow> byte list \<Rightarrow> config_keyword \<Rightarrow> server_config_t \<Rightarrow> server_config_t" where
  "apply_keyword tok line k cfg =
    (if strcasecmp_eq tok (k_keyword k) then
       (case k_handler k line cfg of
          (True, cfg) \<Rightarrow> cfg
        | (False, cfg) \<Rightarrow> snd (k_handler k (k_def k) cfg))
     else cfg)"

definition config_line :: "config_keyword list \<Rightarrow> byte list \<Rightarrow> server_config_t \<Rightarrow> server_config_t" where
  "config_line ks buffer cfg = (case split_line buffer of
     None \<Rightarrow> cfg
   | Some (tok, line) \<Rightarrow> fold (apply_keyword tok line) ks cfg)"

function read_config_loop :: "config_keyword list \<Rightarrow> byte list \<Rightarrow> server_config_t \<Rightarrow> server_config_t" where
  "read_config_loop ks f cfg =
    (if f = [] then cfg
     else case fgets 80 f of (buffer, f) \<Rightarrow> read_config_loop ks f (config_line ks buffer cfg))"
  by pat_completeness auto
termination
  by (relation "measure (\<lambda>(ks, f, cfg). length f)")
    (auto simp: fgets_def Let_def min_def split: if_splits)

declare read_config_loop.simps [simp del]

definition read_config ::
  "resolver \<Rightarrow> byte list \<Rightarrow> byte list \<Rightarrow> byte list option \<Rightarrow> server_config_t \<Rightarrow> bool \<times> server_config_t" where
  "read_config g if_local max_lease file cfg =
    (let ks = config_keywords g if_local max_lease;
         cfg = set_defaults ks cfg in
     case file of
       None \<Rightarrow> (False, cfg)
     | Some f \<Rightarrow> (True, read_config_loop ks f cfg))"

subsection \<open>Numbers read back\<close>

text \<open>Decimal notation of a number, the reference for the number parsers.\<close>

fun dec :: "nat \<Rightarrow> byte list" where
  "dec n = (if n < 10 then [0x30 + of_nat n] else dec (n div 10) @ [0x30 + of_nat (n mod 10)])"

declare dec.simps [simp del]

lemma unat_digit: "d < 10 \<Longrightarrow> unat (0x30 + of_nat d :: byte) = 0x30 + d"
  by (simp add: unat_word_ariths unsigned_of_nat take_bit_nat_eq_self)

lemma isdigit_digit: "d < 10 \<Longrightarrow> isdigit (0x30 + of_nat d)"
  by (simp add: isdigit_def word_le_nat_alt unat_digit)

lemma digit_val_digit: "d < 10 \<Longrightarrow> digit_val (0x30 + of_nat d) = d"
  by (simp add: digit_val_def isdigit_digit unat_digit)

lemma dec_nonempty [simp]: "dec n \<noteq> []"
  by (subst dec.simps) simp

lemma dec_isdigit: "c \<in> set (dec n) \<Longrightarrow> isdigit c"
proof (induction n rule: dec.induct)
  case (1 n)
  show ?case
    using "1.prems" "1.IH" isdigit_digit [of "n mod 10"] isdigit_digit [of n]
    by (subst (asm) dec.simps) (auto split: if_splits)
qed

lemma digits_append:
  "\<forall>c \<in> set ds. digit_val c < base \<Longrightarrow>
     digits base acc (ds @ rest) = digits base (fst (digits base acc ds)) rest"
  by (induction ds arbitrary: acc) simp_all

lemma dec_digit_val: "c \<in> set (dec n) \<Longrightarrow> digit_val c < 10"
proof -
  assume "c \<in> set (dec n)"
  then have "isdigit c" by (rule dec_isdigit)
  then have "unat c \<le> 0x39" "0x30 \<le> unat c"
    by (simp_all add: isdigit_def word_le_nat_alt)
  with \<open>isdigit c\<close> show ?thesis by (simp add: digit_val_def)
qed

lemma digits_dec: "fst (digits 10 0 (dec n)) = n"
proof (induction n rule: dec.induct)
  case (1 n)
  show ?case
  proof (cases "n < 10")
    case True
    then show ?thesis by (subst dec.simps) (simp add: digit_val_digit)
  next
    case False
    then have "digits 10 0 (dec n) = digits 10 (fst (digits 10 0 (dec (n div 10)))) [0x30 + of_nat (n mod 10)]"
      by (subst dec.simps) (simp add: digits_append dec_digit_val)
    with False 1 show ?thesis
      by (simp add: digit_val_digit)
  qed
qed

text \<open>The first digit of a number with more than one digit is not 0, so base 10 is recognised.\<close>

lemma dec_hd: "10 \<le> n \<Longrightarrow> hd (dec n) \<noteq> 0x30"
proof (induction n rule: dec.induct)
  case (1 n)
  show ?case
  proof (cases "n div 10 < 10")
    case True
    have "hd (dec n) = 0x30 + of_nat (n div 10)"
      using 1(2) True by (subst dec.simps, subst dec.simps [of "n div 10"]) simp
    moreover have "unat (0x30 + of_nat (n div 10) :: byte) \<noteq> unat (0x30 :: byte)"
      using 1(2) True by (simp only: unat_digit) simp
    ultimately show ?thesis by metis
  next
    case False
    then have "hd (dec (n div 10)) \<noteq> 0x30"
      using 1 by simp
    then show ?thesis
      using 1(2) by (subst dec.simps) simp
  qed
qed

lemma dec_single: "n < 10 \<Longrightarrow> dec n = [0x30 + of_nat n]"
  by (subst dec.simps) simp

lemma dec_length: "\<lbrakk>n < 10 ^ k; 0 < k\<rbrakk> \<Longrightarrow> length (dec n) \<le> k"
proof (induction n arbitrary: k rule: dec.induct)
  case (1 n)
  show ?case
  proof (cases "n < 10")
    case True
    then show ?thesis using 1(3) by (simp add: dec_single)
  next
    case False
    obtain j where j: "k = Suc j" using 1(3) by (cases k) auto
    with 1(2) False have k: "k = Suc j" "0 < j" by (auto intro: gr0I)
    then have "n div 10 < 10 ^ j" using 1(2) by (simp add: less_mult_imp_div_less mult.commute)
    then have "length (dec (n div 10)) \<le> j" using 1(1) False k by blast
    then show ?thesis using False k by (subst dec.simps) simp
  qed
qed

lemma dec_u8: "length (dec (unat (b :: byte))) \<le> 3"
  by (rule dec_length [OF order.strict_trans [OF unat_byte_lt]]) simp_all

lemma num_base_10: "s \<noteq> [] \<Longrightarrow> hd s \<noteq> 0x30 \<Longrightarrow> num_base s = (10, s)"
  by (auto simp: num_base_def split: list.splits)

lemma num_base_8: "rest = [] \<or> tolower (hd rest) \<noteq> 0x78 \<Longrightarrow> num_base (0x30 # rest) = (8, 0x30 # rest)"
  by (auto simp: num_base_def split: list.splits)

lemma isdigit_not: "isdigit c \<Longrightarrow> \<not> isspace c \<and> c \<noteq> 0x2d \<and> c \<noteq> 0x2b"
  by (auto simp: isdigit_def isspace_def word_le_nat_alt)

lemma digits_stop: "rest = [] \<or> \<not> digit_val (hd rest) < base \<Longrightarrow> digits base n rest = (n, rest)"
  by (cases rest) auto

lemma digits_dec_rest:
  "rest = [] \<or> \<not> digit_val (hd rest) < 10 \<Longrightarrow> digits 10 0 (dec n @ rest) = (n, rest)"
  by (simp add: digits_append dec_digit_val digits_dec digits_stop)

lemma scan_dec:
  assumes "rest = [] \<or> \<not> digit_val (hd rest) < 10" and "rest = [] \<or> tolower (hd rest) \<noteq> 0x78"
  shows "scan_number (dec n @ rest) = Some (False, n, rest)"
proof -
  let ?s = "dec n @ rest"
  have "isdigit (hd ?s)"
    using dec_isdigit [of "hd (dec n)" n] by simp
  then have "dropWhile isspace ?s = ?s" and "hd ?s \<noteq> 0x2d \<and> hd ?s \<noteq> 0x2b"
    using isdigit_not [of "hd ?s"] by (simp_all add: dropWhile_eq_self_iff)
  moreover have "(case num_base ?s of (base, v) \<Rightarrow> (digits base 0 v, v \<noteq> [] \<and> digit_val (hd v) < base)) =
      ((n, rest), True)"
  proof (cases "n = 0")
    case True
    have "digit_val 0x30 = 0"
      using digit_val_digit [of 0] by simp
    then show ?thesis
      using True assms by (auto simp: dec_single num_base_8 digits_stop)
  next
    case False
    have "hd (dec n) \<noteq> 0x30"
    proof (cases "n < 10")
      case True
      then have "unat (0x30 + of_nat n :: byte) \<noteq> unat (0x30 :: byte)"
        using \<open>n \<noteq> 0\<close> by (simp only: unat_digit) simp
      then show ?thesis
        using True by (metis dec_single list.sel(1))
    qed (use dec_hd in simp)
    then show ?thesis
      using assms(1) dec_digit_val [of "hd (dec n)" n] by (simp add: num_base_10 digits_dec_rest)
  qed
  ultimately show ?thesis
    by (auto simp: scan_number_def Let_def split: prod.splits)
qed

lemma scan_dec_end: "scan_number (dec n) = Some (False, n, [])"
  using scan_dec [of "[]" n] by simp

text \<open>\<^verbatim>\<open>inet_aton\<close> reads dotted decimal notation.\<close>

lemma scan_dec_dot: "scan_number (dec n @ 0x2e # rest) = Some (False, n, 0x2e # rest)"
  by (rule scan_dec) (simp_all add: digit_val_def isdigit_def tolower_def)

lemma inet_aton_step:
  assumes "a \<le> 255" and "length acc < 3"
  shows "inet_aton_loop acc (dec a @ 0x2e # rest) = inet_aton_loop (acc @ [a]) rest"
  using assms dec_isdigit [of "hd (dec a)" a]
  by (subst inet_aton_loop.simps) (simp add: scan_dec_dot)

lemma inet_aton_last:
  assumes "d \<le> 255" and "length acc = 3"
  shows "inet_aton_loop acc (dec d) =
    Some (htonl (of_nat (foldl (\<lambda>a b. a * 256 + b) 0 acc * 256 + d)))"
  using assms dec_isdigit [of "hd (dec d)" d]
  by (subst inet_aton_loop.simps) (simp add: scan_dec_end)

lemma inet_aton_quad:
  assumes "a \<le> 255" and "b \<le> 255" and "c \<le> 255" and "d \<le> 255"
  shows "inet_aton (dec a @ 0x2e # dec b @ 0x2e # dec c @ 0x2e # dec d) =
    Some (htonl (of_nat (((a * 256 + b) * 256 + c) * 256 + d)))"
  using assms by (simp add: inet_aton_def inet_aton_step inet_aton_last)

lemma strtoul_dec: "n < 2 ^ 32 \<Longrightarrow> strtoul (dec n) = (of_nat n, [])"
  by (simp add: strtoul_def scan_dec_end)

subsection \<open>The option list stays well formed\<close>

lemma opt_bytes_length: "opt_bytes g ty val rest = (Some b, r, m) \<Longrightarrow> length b \<le> 255"
  by (auto simp: opt_bytes_def Let_def split: if_splits option.splits prod.splits)

lemma read_opt_loop_wf:
  assumes "opt_code opt \<noteq> DHCP_PADDING" and "opt_code opt \<noteq> DHCP_END"
  shows "wf_optset ol \<Longrightarrow> wf_optset (snd (read_opt_loop g opt s ol r))"
proof (induction "length s" arbitrary: s ol r rule: less_induct)
  case less
  show ?case
  proof (cases "strtok (str '', '' @ [9]) s")
    case None
    then show ?thesis using less.prems by (simp add: read_opt_loop.simps [of g opt s])
  next
    case (Some vr)
    obtain v rest where vr: "vr = (v, rest)" by fastforce
    obtain b rest' m where b: "opt_bytes g (opt_flags opt AND TYPE_MASK) v rest = (b, rest', m)"
      using prod_cases3 by blast
    have short: "length rest' < length s"
      using opt_bytes_rest [OF b] strtok_shorter [of _ s v rest] Some vr by fastforce
    show ?thesis
    proof (cases b)
      case None
      then show ?thesis
        using Some vr b less.prems by (simp add: read_opt_loop.simps [of g opt s])
    next
      case (Some buf)
      then have "wf_optset (attach_option ol opt buf (length buf))"
        using attach_option_correct [OF less.prems _ _ assms] opt_bytes_length b by blast
      with Some \<open>strtok _ s = Some vr\<close> vr b less.hyps [OF short] show ?thesis
        by (simp add: read_opt_loop.simps [of g opt s] Let_def)
    qed
  qed
qed

lemma find_in_set: "find P xs = Some x \<Longrightarrow> x \<in> set xs \<and> P x"
  by (induction xs) (auto split: if_splits)

lemma option_by_name_code:
  assumes "option_by_name n = Some d"
  shows "opt_code d \<noteq> DHCP_PADDING \<and> opt_code d \<noteq> DHCP_END"
proof -
  have "d \<in> set (takeWhile (\<lambda>d. opt_code d \<noteq> 0) dhcp_options)"
    using find_in_set [OF assms [unfolded option_by_name_def]] by simp
  moreover have "\<forall>d \<in> set dhcp_options. opt_code d \<noteq> DHCP_END"
    by (simp add: dhcp_options_def)
  ultimately show ?thesis
    using set_takeWhileD by fastforce
qed

lemma read_opt_wf: "wf_optset ol \<Longrightarrow> wf_optset (snd (read_opt g line ol))"
  using option_by_name_code by (auto simp: read_opt_def intro!: read_opt_loop_wf split: option.splits)

lemmas handler_defs = h_ip_def h_u32_def h_str_def h_str_opt_def h_yn_def h_opt_def

lemma handler_wf:
  assumes "k \<in> set (config_keywords g il ml)" and "wf_optset (c_options cfg)"
  shows "wf_optset (c_options (snd (k_handler k line cfg)))"
  using assms read_opt_wf [OF assms(2), of g line]
  by (auto simp: config_keywords_def handler_defs split: prod.splits)

lemma set_defaults_wf:
  assumes "set ks \<subseteq> set (config_keywords g il ml)" and "wf_optset (c_options cfg)"
  shows "wf_optset (c_options (set_defaults ks cfg))"
  using assms unfolding set_defaults_def
  by (induction ks arbitrary: cfg) (auto intro!: handler_wf)

lemma apply_keyword_wf:
  assumes "k \<in> set (config_keywords g il ml)" and "wf_optset (c_options cfg)"
  shows "wf_optset (c_options (apply_keyword tok line k cfg))"
proof -
  obtain ok cfg' where h: "k_handler k line cfg = (ok, cfg')" by fastforce
  then have "wf_optset (c_options cfg')"
    using handler_wf [OF assms, of line] by simp
  with h assms(2) handler_wf [OF assms(1) this] show ?thesis
    by (simp add: apply_keyword_def split: bool.splits)
qed

lemma config_line_wf:
  assumes "set ks \<subseteq> set (config_keywords g il ml)" and "wf_optset (c_options cfg)"
  shows "wf_optset (c_options (config_line ks buffer cfg))"
proof -
  have "wf_optset (c_options (fold (apply_keyword tok line) ks cfg))" for tok line
    using assms by (induction ks arbitrary: cfg) (auto intro!: apply_keyword_wf)
  with assms show ?thesis by (auto simp: config_line_def split: option.splits)
qed

lemma read_config_loop_wf:
  assumes "set ks \<subseteq> set (config_keywords g il ml)" and "wf_optset (c_options cfg)"
  shows "wf_optset (c_options (read_config_loop ks f cfg))"
  using assms(2)
proof (induction "length f" arbitrary: f cfg rule: less_induct)
  case less
  obtain buffer f' where f: "fgets 80 f = (buffer, f')" by fastforce
  then have "length f' < length f \<or> f = []"
    by (auto simp: fgets_def Let_def min_def split: if_splits)
  with f show ?case
    using less.prems less.hyps [of f' "config_line ks buffer cfg"] config_line_wf [OF assms(1) less.prems]
    by (subst read_config_loop.simps) auto
qed

lemma read_config_wf:
  assumes "wf_optset (c_options cfg)"
  shows "wf_optset (c_options (snd (read_config g il ml file cfg)))"
  using read_config_loop_wf [OF subset_refl set_defaults_wf [OF subset_refl assms]]
    set_defaults_wf [OF subset_refl assms]
  by (auto simp: read_config_def Let_def split: option.splits)

subsection \<open>Properties\<close>

text \<open>C25: Whatever the configuration file holds, and whatever the resolver answers, reading it leaves
  an option list that is sorted by code without duplicates and whose length bytes are exact, as the
  packet builders need it.\<close>

theorem read_config_options_wf:
  assumes "wf_optset (c_options cfg)"
  shows "wf_optset (c_options (snd (read_config g il ml file cfg)))"
  using assms by (rule read_config_wf)

theorem read_config_options_wf_witness:
  "wf_optset (c_options (snd (read_config (\<lambda>_. None) (str ''br0'') (str ''1024'')
     (Some (str ''opt dns 10.0.0.1'')) sample_cfg)))"
  by (rule read_config_options_wf) (simp add: wf_optset_def sample_cfg_def)

text \<open>The number and address parsers read back decimal notation: a value below \<open>2 ^ 32\<close> is
  accepted unchanged, and dotted decimal notation gives the address in network order.\<close>

lemma config_values_roundtrip:
  assumes "n < 2 ^ 32" and "a \<le> 255" and "b \<le> 255" and "c \<le> 255" and "d \<le> 255"
  shows "read_u32 (dec n) = (True, of_nat n) \<and>
    read_ip g (dec a @ 0x2e # dec b @ 0x2e # dec c @ 0x2e # dec d) old =
      (True, htonl (of_nat (((a * 256 + b) * 256 + c) * 256 + d)))"
  using assms by (simp add: read_u32_def strtoul_dec read_ip_def inet_aton_quad)

lemma default_strings:
  "str ''192.168.0.20'' = dec 192 @ 0x2e # dec 168 @ 0x2e # dec 0 @ 0x2e # dec 20"
  "str ''192.168.0.254'' = dec 192 @ 0x2e # dec 168 @ 0x2e # dec 0 @ 0x2e # dec 254"
  "str ''0.0.0.0'' = dec 0 @ 0x2e # dec 0 @ 0x2e # dec 0 @ 0x2e # dec 0"
  "str ''30'' = dec 30" "str ''3600'' = dec 3600" "str ''60'' = dec 60" "str ''200'' = dec 200"
  by (simp_all add: str_def dec.simps)

lemma default_values:
  "inet_aton (str ''192.168.0.20'') = Some (htonl 0xc0a80014)"
  "inet_aton (str ''192.168.0.254'') = Some (htonl 0xc0a800fe)"
  "inet_aton (str ''0.0.0.0'') = Some 0"
  "strtoul (str ''30'') = (30, [])" "strtoul (str ''3600'') = (3600, [])"
  "strtoul (str ''60'') = (60, [])" "strtoul (str ''200'') = (200, [])"
  unfolding default_strings by (simp_all add: inet_aton_quad strtoul_dec ntohl_eq_0)

lemma str_Nil_iff: "str s = [] \<longleftrightarrow> s = []"
  by (simp add: str_def)

lemma read_yn_yes: "read_yn (str ''yes'') x = (True, True)"
  by (simp add: read_yn_def strcasecmp_eq_def)

text \<open>With an empty configuration file the server runs with the documented defaults: the range
  192.168.0.20 to 192.168.0.254 and the times of the keyword table.\<close>

lemma read_config_defaults:
  assumes "n < 2 ^ 32"
  shows "read_config g il (dec n) (Some []) cfg = (True, cfg\<lparr>c_start := htonl 0xc0a80014,
    c_end := htonl 0xc0a800fe, c_interface := (if il = [] then c_interface cfg else il),
    c_max_leases := of_nat n, c_remaining := True, c_auto_time := 30, c_decline_time := 3600,
    c_conflict_time := 3600, c_offer_time := 60, c_min_lease := 60,
    c_lease_file := str ''/var/lib/dhcp/udhcpd.leases'', c_pidfile := str ''/var/run/dhcpd.pid'',
    c_siaddr := 0, c_static_lease_file := str ''/var/lib/dhcp/udhcpd.static'', c_max_static := 200\<rparr>)"
proof -
  have i: "(if il \<noteq> [] then cfg\<lparr>c_interface := il\<rparr> else cfg) =
    cfg\<lparr>c_interface := (if il = [] then c_interface cfg else il)\<rparr>" for cfg :: server_config_t by simp
  have "read_config_loop ks [] c = c" for ks c by (subst read_config_loop.simps) simp
  then show ?thesis
    using assms
    by (simp add: read_config_def Let_def set_defaults_def i
        config_keywords_def handler_defs read_ip_def read_u32_def read_str_def default_values
        strtoul_dec read_yn_yes str_Nil_iff)
qed

end
