(* ===== verification/Dhcp_Files.thy ===== *)
theory Dhcp_Files
  imports Dhcp_Leases
begin

section \<open>The lease files (\<^verbatim>\<open>udhcp-0.9.8/files.c\<close>)\<close>

text \<open>
  A file is the list of its bytes.  \<open>write_leases\<close> is the content it writes; \<open>read_leases\<close> and
  \<open>read_static_leases\<close> fold the records of a file into the tables.
\<close>

subsection \<open>Lease files\<close>

text \<open>One record of the lease file: the fields in the order of \<^verbatim>\<open>struct dhcpOfferedAddr\<close>, the time
  in network order.\<close>

definition lease_time_field :: "server_config_t \<Rightarrow> u32 \<Rightarrow> dhcpOfferedAddr \<Rightarrow> u32" where
  "lease_time_field cfg now l =
    (if c_remaining cfg then (if lease_expired now l then 0 else l_expires l - now)
     else l_expires l)"

definition write_lease_record :: "server_config_t \<Rightarrow> u32 \<Rightarrow> dhcpOfferedAddr \<Rightarrow> byte list" where
  "write_lease_record cfg now l =
     l_chaddr l @ bytes_le32 (l_yiaddr l) @ bytes_le32 (htonl (lease_time_field cfg now l)) @
     l_hostname l"

definition write_leases :: "server_config_t \<Rightarrow> u32 \<Rightarrow> lease_table \<Rightarrow> byte list" where
  "write_leases cfg now leases =
     concat (map (\<lambda>l. if l_yiaddr l \<noteq> 0 then write_lease_record cfg now l else []) leases)"

abbreviation (input) sizeof_lease :: nat where "sizeof_lease \<equiv> 48"
abbreviation (input) sizeof_static :: nat where "sizeof_static \<equiv> 24"

definition lease_of_bytes :: "byte list \<Rightarrow> dhcpOfferedAddr" where
  "lease_of_bytes bs = \<lparr>l_chaddr = fld bs 0 16, l_yiaddr = le32_of (fld bs 16 4),
     l_expires = le32_of (fld bs 20 4), l_hostname = fld bs 24 HOSTNAME_LEN\<rparr>"

definition static_of_bytes :: "byte list \<Rightarrow> dhcpOfferedStaticAddr" where
  "static_of_bytes bs = \<lparr>s_chaddr = fld bs 0 16, s_yiaddr = le32_of (fld bs 16 4),
     s_expires = le32_of (fld bs 20 4)\<rparr>"

text \<open>The C string in a character array; reading it runs past an array without terminator.\<close>

definition c_string :: "byte list \<Rightarrow> byte list option" where
  "c_string a = (if 0 \<in> set a then Some (takeWhile (\<lambda>b. b \<noteq> 0) a) else None)"

function read_leases_loop ::
  "server_config_t \<Rightarrow> u32 \<Rightarrow> nat \<Rightarrow> lease_table \<Rightarrow> byte list \<Rightarrow> lease_table option" where
  "read_leases_loop cfg now i leases fp =
    (if i < unat (c_max_leases cfg) \<and> sizeof_lease \<le> length fp then
       let lease = lease_of_bytes (take sizeof_lease fp); fp = drop sizeof_lease fp in
       if c_start cfg \<le> l_yiaddr lease \<and> l_yiaddr lease \<le> c_end cfg then
         let expires = ntohl (l_expires lease);
             expires = (if c_remaining cfg then expires else expires - now) in
         (case c_string (l_hostname lease) of
            None \<Rightarrow> None
          | Some h \<Rightarrow>
              case add_lease now leases (l_chaddr lease) (l_yiaddr lease) expires (Some h) of
                None \<Rightarrow> None
              | Some (leases, None) \<Rightarrow> Some leases
              | Some (leases, Some _) \<Rightarrow> read_leases_loop cfg now (i + 1) leases fp)
       else read_leases_loop cfg now i leases fp
     else Some leases)"
  by pat_completeness auto
termination
  by (relation "measure (\<lambda>(cfg, now, i, ls, fp). length fp)") auto

declare read_leases_loop.simps [simp del]

text \<open>A file that cannot be opened is \<open>None\<close>.\<close>

definition read_leases ::
  "server_config_t \<Rightarrow> u32 \<Rightarrow> lease_table \<Rightarrow> byte list option \<Rightarrow> lease_table option" where
  "read_leases cfg now leases file = (case file of
     None \<Rightarrow> Some leases
   | Some fp \<Rightarrow> read_leases_loop cfg now 0 leases fp)"

function read_static_loop ::
  "server_config_t \<Rightarrow> u32 \<Rightarrow> nat \<Rightarrow> static_table \<Rightarrow> byte list \<Rightarrow> static_table" where
  "read_static_loop cfg now i statics fp =
    (if i < unat (c_max_static cfg) \<and> sizeof_static \<le> length fp then
       let lease = static_of_bytes (take sizeof_static fp); fp = drop sizeof_static fp in
       (case add_static_lease now statics (s_chaddr lease) (s_yiaddr lease) (ntohl (s_expires lease)) of
          (statics, None) \<Rightarrow> statics
        | (statics, Some _) \<Rightarrow> read_static_loop cfg now (i + 1) statics fp)
     else statics)"
  by pat_completeness auto
termination
  by (relation "measure (\<lambda>(cfg, now, i, ls, fp). length fp)") auto

declare read_static_loop.simps [simp del]

definition read_static_leases ::
  "server_config_t \<Rightarrow> u32 \<Rightarrow> static_table \<Rightarrow> byte list option \<Rightarrow> static_table" where
  "read_static_leases cfg now statics file = (case file of
     None \<Rightarrow> statics
   | Some fp \<Rightarrow> read_static_loop cfg now 0 statics fp)"

subsection \<open>A lease file restores the table\<close>

text \<open>What is left of a lease after it was written at time \<open>t1\<close> and read at time \<open>t2\<close>.\<close>

definition restore :: "server_config_t \<Rightarrow> u32 \<Rightarrow> u32 \<Rightarrow> dhcpOfferedAddr \<Rightarrow> dhcpOfferedAddr" where
  "restore cfg t1 t2 l = l\<lparr>
     l_expires := (if c_remaining cfg then t2 + lease_time_field cfg t1 l else l_expires l),
     l_hostname := takeWhile (\<lambda>b. b \<noteq> 0) (l_hostname l) @
       replicate (HOSTNAME_LEN - length (takeWhile (\<lambda>b. b \<noteq> 0) (l_hostname l))) 0\<rparr>"

lemma length_write_lease_record:
  "wf_lease l \<Longrightarrow> length (write_lease_record cfg now l) = sizeof_lease"
  by (simp add: write_lease_record_def wf_lease_def)

lemma lease_of_record:
  assumes "wf_lease l"
  shows "lease_of_bytes (write_lease_record cfg now l) =
     l\<lparr>l_expires := htonl (lease_time_field cfg now l)\<rparr>"
  using assms by (cases l) (simp add: lease_of_bytes_def write_lease_record_def wf_lease_def wire)

lemma c_string_wf: "wf_lease l \<Longrightarrow> c_string (l_hostname l) = Some (takeWhile (\<lambda>b. b \<noteq> 0) (l_hostname l))"
  by (simp add: c_string_def wf_lease_def)

lemma oldest_loop_skip:
  "\<forall>l \<in> set ls. t \<le> l_expires l \<Longrightarrow> oldest_loop t i b (ls @ ms) = oldest_loop t (i + length ls) b ms"
proof (induction ls arbitrary: i)
  case (Cons l ls)
  then have "\<not> l_expires l < t" by (simp add: not_less)
  with Cons show ?case by simp
qed simp

lemma oldest_first_free:
  assumes "\<forall>l \<in> set ls. now \<le> l_expires l" and "0 < now"
  shows "oldest_expired_lease now (ls @ replicate (Suc n) zero_lease) = Some (length ls)"
proof -
  have "oldest_loop 0 i b (replicate n zero_lease) = b" for i b
    by (induction n arbitrary: i) simp_all
  then show ?thesis
    using assms by (simp add: oldest_expired_lease_def oldest_loop_skip)
qed

lemma add_lease_fresh:
  assumes "\<forall>l \<in> set ds. now \<le> l_expires l \<and> \<not> hit c y l" and "0 < now" and "length c = 16"
    and "length h < HOSTNAME_LEN"
  shows "add_lease now (ds @ replicate (Suc n) zero_lease) c y d (Some h) =
    Some (ds @ \<lparr>l_chaddr = c, l_yiaddr = y, l_expires = now + d,
                 l_hostname = h @ replicate (HOSTNAME_LEN - length h) 0\<rparr> # replicate n zero_lease,
          Some (length ds))"
proof -
  let ?t = "ds @ replicate (Suc n) zero_lease"
  have "clear_lease ?t c y = ?t"
    using assms(1,3) by (auto simp: clear_lease_map hit_def intro!: map_idI)
  moreover have "strcpy_to (l_hostname zero_lease) h = Some (h @ replicate (HOSTNAME_LEN - length h) 0)"
    using assms(4)
    by (simp add: strcpy_to_Some zero_lease_def Suc_diff_Suc flip: replicate_Suc)
  moreover have "oldest_expired_lease now ?t = Some (length ds)"
    using assms(1,2) by (intro oldest_first_free) auto
  ultimately show ?thesis
    using assms(3) by (simp add: add_lease_def Let_def)
qed

text \<open>The range test of \<open>read_leases\<close>, in network byte order, and the condition that the expiry time
  of a lease that is read at \<open>t2\<close> does not pass the end of the 32 bit clock.\<close>

definition in_file_range :: "server_config_t \<Rightarrow> dhcpOfferedAddr \<Rightarrow> bool" where
  "in_file_range cfg l \<longleftrightarrow> c_start cfg \<le> l_yiaddr l \<and> l_yiaddr l \<le> c_end cfg"

definition storable :: "server_config_t \<Rightarrow> u32 \<Rightarrow> u32 \<Rightarrow> dhcpOfferedAddr \<Rightarrow> bool" where
  "storable cfg t1 t2 l \<longleftrightarrow> wf_lease l \<and> unat t2 + unat (lease_time_field cfg t1 l) < 2 ^ 32"

lemma le_plus_no_overflow: "unat (a :: u32) + unat b < 2 ^ 32 \<Longrightarrow> a \<le> a + b"
  using unat_add_lem [of a b] by (simp add: unat_plus_simple)

lemma length_takeWhile_less: "x \<in> set xs \<Longrightarrow> \<not> P x \<Longrightarrow> length (takeWhile P xs) < length xs"
  by (induction xs) auto

lemma read_leases_keep:
  assumes "c_remaining cfg" and "0 < t2" and "storable cfg t1 t2 l" and "in_file_range cfg l"
    and "\<forall>k \<in> set ds. t2 \<le> l_expires k \<and> \<not> hit (l_chaddr l) (l_yiaddr l) k"
    and "length ds < unat (c_max_leases cfg)"
  shows "read_leases_loop cfg t2 (length ds) (ds @ replicate (Suc n) zero_lease)
      (write_lease_record cfg t1 l @ fp) =
    read_leases_loop cfg t2 (length (ds @ [restore cfg t1 t2 l]))
      ((ds @ [restore cfg t1 t2 l]) @ replicate n zero_lease) fp"
proof -
  have l: "wf_lease l" "c_start cfg \<le> l_yiaddr l" "l_yiaddr l \<le> c_end cfg"
    using assms(3,4) by (auto simp: storable_def in_file_range_def)
  let ?h = "takeWhile (\<lambda>b. b \<noteq> 0) (l_hostname l)"
  have h: "length ?h < HOSTNAME_LEN"
    using l(1) length_takeWhile_less [of 0 "l_hostname l" "\<lambda>b. b \<noteq> 0"] by (simp add: wf_lease_def)
  have "add_lease t2 (ds @ replicate (Suc n) zero_lease) (l_chaddr l) (l_yiaddr l)
      (lease_time_field cfg t1 l) (Some ?h) =
    Some ((ds @ [restore cfg t1 t2 l]) @ replicate n zero_lease, Some (length ds))"
    using assms(1,2,5) l(1) h
    by (subst add_lease_fresh) (auto simp: restore_def wf_lease_def)
  then show ?thesis
    using l assms(1,6)
    by (subst read_leases_loop.simps)
      (simp add: length_write_lease_record lease_of_record c_string_wf)
qed

lemma read_leases_drop:
  assumes "wf_lease l" and "\<not> in_file_range cfg l" and "i < unat (c_max_leases cfg)"
  shows "read_leases_loop cfg t2 i tb (write_lease_record cfg t1 l @ fp) =
    read_leases_loop cfg t2 i tb fp"
  using assms
  by (subst read_leases_loop.simps)
    (auto simp: length_write_lease_record lease_of_record in_file_range_def)

lemma read_leases_restore:
  assumes "c_remaining cfg" and "0 < t2" and "list_all (storable cfg t1 t2) ls"
    and "\<forall>l \<in> set ds. t2 \<le> l_expires l \<and> (\<forall>m \<in> set ls. \<not> hit (l_chaddr m) (l_yiaddr m) l)"
    and "sorted_wrt (\<lambda>l m. \<not> hit (l_chaddr m) (l_yiaddr m) l) ls"
    and "length ds + length ls \<le> unat (c_max_leases cfg)" and "length ls \<le> n"
  shows "read_leases_loop cfg t2 (length ds) (ds @ replicate n zero_lease)
      (concat (map (write_lease_record cfg t1) ls)) =
    Some (ds @ map (restore cfg t1 t2) (filter (in_file_range cfg) ls) @
      replicate (n - length (filter (in_file_range cfg) ls)) zero_lease)"
  using assms(3-7)
proof (induction ls arbitrary: ds n)
  case Nil
  show ?case by (subst read_leases_loop.simps) simp
next
  case (Cons l ls)
  let ?rest = "concat (map (write_lease_record cfg t1) ls)"
  let ?ds = "ds @ [restore cfg t1 t2 l]"
  have l: "wf_lease l" "storable cfg t1 t2 l" "t2 \<le> t2 + lease_time_field cfg t1 l"
    using Cons.prems(1) le_plus_no_overflow by (auto simp: storable_def)
  obtain n' where n: "n = Suc n'"
    using Cons.prems(5) by (cases n) auto
  show ?case
  proof (cases "in_file_range cfg l")
    case True
    have "read_leases_loop cfg t2 (length ds) (ds @ replicate n zero_lease)
        (write_lease_record cfg t1 l @ ?rest) =
      read_leases_loop cfg t2 (length ?ds) (?ds @ replicate n' zero_lease) ?rest"
      unfolding n using Cons.prems(2,4) by (intro read_leases_keep assms(1,2) l(2) True) auto
    also have "\<dots> = Some (?ds @ map (restore cfg t1 t2) (filter (in_file_range cfg) ls) @
        replicate (n' - length (filter (in_file_range cfg) ls)) zero_lease)"
      using Cons.prems l(3) n assms(1) by (intro Cons.IH) (auto simp: restore_def hit_def)
    finally show ?thesis
      using True by (simp add: n)
  next
    case False
    have "read_leases_loop cfg t2 (length ds) (ds @ replicate n zero_lease)
        (write_lease_record cfg t1 l @ ?rest) =
      read_leases_loop cfg t2 (length ds) (ds @ replicate n zero_lease) ?rest"
      using Cons.prems(4) by (intro read_leases_drop l(1) False) simp
    also have "\<dots> = Some (ds @ map (restore cfg t1 t2) (filter (in_file_range cfg) ls) @
        replicate (n - length (filter (in_file_range cfg) ls)) zero_lease)"
      using Cons.prems by (intro Cons.IH) auto
    finally show ?thesis
      using False by simp
  qed
qed

lemma write_leases_filter:
  "write_leases cfg now ls =
     concat (map (write_lease_record cfg now) (filter (\<lambda>l. l_yiaddr l \<noteq> 0) ls))"
  by (induction ls) (simp_all add: write_leases_def)

lemma lease_inv_not_hit:
  assumes "lease_inv ls"
  shows "sorted_wrt (\<lambda>l m. \<not> hit (l_chaddr m) (l_yiaddr m) l) (filter (\<lambda>l. l_yiaddr l \<noteq> 0) ls)"
proof -
  have "sorted_wrt (\<lambda>l m. (l_yiaddr l = 0 \<or> l_yiaddr l \<noteq> l_yiaddr m) \<and>
      (l_chaddr l = blank_chaddr \<or> l_chaddr l \<noteq> l_chaddr m)) (filter (\<lambda>l. l_yiaddr l \<noteq> 0) ls)"
    using assms unfolding lease_inv_def uniq_def
    by (intro sorted_wrt_filter) (simp add: sorted_wrt_iff_nth_less)
  then show ?thesis
    using assms
    by (elim sorted_wrt_mono_rel [rotated]) (auto simp: hit_def lease_inv_def list_all_iff wf_lease_def)
qed

text \<open>C23: In the mode that stores remaining times (\<open>remaining\<close> is set) a table that is written to
  the lease file at time \<open>t1\<close> and read at a time \<open>t2 > 0\<close> into an empty table of the same size
  comes back with exactly those leases of clients whose address passes the range test of
  \<open>read_leases\<close>: same client, same address, same host name, and the same remaining time counted
  from \<open>t2\<close>.  The entries are moved to the front of the table in their old order.  The range test
  compares the addresses in network byte order, so leases that fail it are dropped even when their
  address lies in the configured range.  The table satisfies the lease invariant and is no larger
  than \<open>max_leases\<close>, and no remaining time carries \<open>t2\<close> past the end of the 32 bit clock.\<close>

theorem write_read_leases:
  assumes "lease_inv ls" and "c_remaining cfg" and "0 < t2" and "length ls \<le> unat (c_max_leases cfg)"
    and "\<forall>l \<in> set ls. l_yiaddr l \<noteq> 0 \<longrightarrow> unat t2 + unat (lease_time_field cfg t1 l) < 2 ^ 32"
  shows "let kept = filter (\<lambda>l. l_yiaddr l \<noteq> 0 \<and> c_start cfg \<le> l_yiaddr l \<and> l_yiaddr l \<le> c_end cfg) ls in
    read_leases cfg t2 (replicate (length ls) zero_lease) (Some (write_leases cfg t1 ls)) =
      Some (map (restore cfg t1 t2) kept @ replicate (length ls - length kept) zero_lease)"
proof -
  let ?f = "filter (\<lambda>l. l_yiaddr l \<noteq> 0) ls"
  have len: "length ?f \<le> length ls" by simp
  have "list_all (storable cfg t1 t2) ?f"
    using assms(1,5) by (auto simp: list_all_iff storable_def lease_inv_def)
  from read_leases_restore [OF assms(2,3) this, of "[]" "length ls"] lease_inv_not_hit [OF assms(1)]
    len assms(4)
  show ?thesis
    by (simp add: read_leases_def write_leases_filter in_file_range_def conj_commute conj_left_commute
        cong: filter_cong)
qed

definition sample_leases :: lease_table where
  "sample_leases = [zero_lease, \<lparr>l_chaddr = replicate 16 1, l_yiaddr = htonl 0xc0a80005,
     l_expires = 500, l_hostname = [0x61, 0x62] @ replicate 22 0\<rparr>]"

theorem write_read_leases_witness:
  "let kept = filter (\<lambda>l. l_yiaddr l \<noteq> 0 \<and> c_start sample_cfg \<le> l_yiaddr l \<and> l_yiaddr l \<le> c_end sample_cfg)
       sample_leases in
    read_leases sample_cfg 400 (replicate (length sample_leases) zero_lease)
      (Some (write_leases sample_cfg 300 sample_leases)) =
    Some (map (restore sample_cfg 300 400) kept @ replicate (length sample_leases - length kept) zero_lease)"
  by (rule write_read_leases)
    (simp_all add: sample_leases_def sample_cfg_def lease_inv_def uniq_def wf_lease_def zero_lease_def
      blank_chaddr_def storable_def lease_time_field_def lease_expired_def ntohl_def le32_def)

text \<open>The range test of \<open>read_leases\<close> compares addresses in network byte order on a little-endian
  CPU.  With the range 192.168.0.200 to 192.168.1.100, the lease of 192.168.0.250 that
  \<open>write_leases\<close> wrote is dropped when the file is read, although \<open>find_address\<close> hands out that
  address.\<close>

theorem read_leases_byte_order:
  fixes cfg :: server_config_t
  assumes "c_start cfg = htonl 0xc0a800c8" and "c_end cfg = htonl 0xc0a80164"
    and "wf_lease l" and "l_yiaddr l = htonl 0xc0a800fa"
  shows "ntohl (c_start cfg) \<le> ntohl (l_yiaddr l) \<and> ntohl (l_yiaddr l) \<le> ntohl (c_end cfg) \<and>
    read_leases cfg t2 ls (Some (write_leases cfg t1 [l])) = Some ls"
proof -
  have "\<not> l_yiaddr l \<le> c_end cfg" "ntohl (c_start cfg) \<le> ntohl (l_yiaddr l)"
    "ntohl (l_yiaddr l) \<le> ntohl (c_end cfg)" "l_yiaddr l \<noteq> 0"
    using assms by (simp_all add: ntohl_def le32_def)
  moreover have "read_leases_loop cfg t2 0 ls [] = Some ls"
    by (subst read_leases_loop.simps) simp
  ultimately show ?thesis
    using assms(3)
    by (simp add: read_leases_def write_leases_def read_leases_loop.simps [of _ _ _ _ "write_lease_record _ _ _"]
        length_write_lease_record lease_of_record)
qed

theorem read_leases_byte_order_witness:
  "read_leases (sample_cfg\<lparr>c_start := htonl 0xc0a800c8, c_end := htonl 0xc0a80164\<rparr>) 400 [zero_lease]
     (Some (write_leases (sample_cfg\<lparr>c_start := htonl 0xc0a800c8, c_end := htonl 0xc0a80164\<rparr>) 300
       [zero_lease\<lparr>l_yiaddr := htonl 0xc0a800fa\<rparr>])) = Some [zero_lease]"
  using read_leases_byte_order [of "sample_cfg\<lparr>c_start := htonl 0xc0a800c8, c_end := htonl 0xc0a80164\<rparr>"
      "zero_lease\<lparr>l_yiaddr := htonl 0xc0a800fa\<rparr>" 400 "[zero_lease]" 300]
  by (simp add: wf_lease_def zero_lease_def blank_chaddr_def)

text \<open>A record whose host name fills its 24 bytes without a terminator, which a damaged lease
  file may hold, makes \<open>read_leases\<close> read past the record.\<close>

lemma read_leases_unterminated:
  assumes "length c = 16" and "length h = HOSTNAME_LEN" and "0 \<notin> set h"
    and "c_start cfg \<le> y" and "y \<le> c_end cfg" and "0 < c_max_leases cfg"
  shows "read_leases cfg now ls (Some (c @ bytes_le32 y @ bytes_le32 t @ h)) = None"
proof -
  have "lease_of_bytes (c @ bytes_le32 y @ bytes_le32 t @ h) =
      \<lparr>l_chaddr = c, l_yiaddr = y, l_expires = t, l_hostname = h\<rparr>"
    using assms(1,2) by (simp add: lease_of_bytes_def wire)
  moreover have "0 < unat (c_max_leases cfg)"
    using assms(6) by (simp add: word_less_nat_alt)
  ultimately show ?thesis
    using assms by (simp add: read_leases_def read_leases_loop.simps [of _ _ 0] c_string_def)
qed

subsection \<open>The static lease file\<close>

definition zero_static :: dhcpOfferedStaticAddr where
  "zero_static = \<lparr>s_chaddr = blank_chaddr, s_yiaddr = 0, s_expires = 0\<rparr>"

definition static_bytes :: "dhcpOfferedStaticAddr \<Rightarrow> byte list" where
  "static_bytes l = s_chaddr l @ bytes_le32 (s_yiaddr l) @ bytes_le32 (s_expires l)"

lemma static_of_static_bytes:
  "length (s_chaddr l) = 16 \<Longrightarrow> static_of_bytes (static_bytes l) = l"
  by (cases l) (simp add: static_of_bytes_def static_bytes_def wire)

lemma length_static_bytes: "length (s_chaddr l) = 16 \<Longrightarrow> length (static_bytes l) = sizeof_static"
  by (simp add: static_bytes_def)

lemma last_free_used: "\<forall>s \<in> set us. s_yiaddr s \<noteq> 0 \<Longrightarrow> last_free_static i b us = b"
  by (induction us arbitrary: i) simp_all

lemma last_free_zeros:
  "\<forall>s \<in> set us. s_yiaddr s \<noteq> 0 \<Longrightarrow>
     last_free_static i b (replicate (Suc n) zero_static @ us) = Some (i + n)"
proof (induction n arbitrary: i b)
  case 0
  then show ?case by (simp add: last_free_used zero_static_def)
next
  case (Suc n)
  then show ?case by (simp add: zero_static_def)
qed

definition static_entry :: "u32 \<Rightarrow> dhcpOfferedStaticAddr \<Rightarrow> dhcpOfferedStaticAddr" where
  "static_entry now l = l\<lparr>s_expires := now + ntohl (s_expires l)\<rparr>"

lemma replicate_update_last: "(replicate (Suc k) z)[k := x] = replicate k z @ [x]"
proof -
  have "replicate (Suc k) z = replicate k z @ [z]"
    by (simp add: replicate_append_same)
  then show ?thesis
    by (simp only: list_update_append length_replicate) simp
qed

lemma read_static_restore:
  assumes "list_all (\<lambda>l. length (s_chaddr l) = 16 \<and> s_yiaddr l \<noteq> 0) rs"
    and "\<forall>s \<in> set us. s_yiaddr s \<noteq> 0" and "i + length rs \<le> unat (c_max_static cfg)"
  shows "read_static_loop cfg now i (replicate (n + length rs) zero_static @ us)
      (concat (map static_bytes rs)) =
    replicate n zero_static @ rev (map (static_entry now) rs) @ us"
  using assms
proof (induction rs arbitrary: i us)
  case Nil
  show ?case by (subst read_static_loop.simps) simp
next
  case (Cons l rs)
  have l: "length (s_chaddr l) = 16" "s_yiaddr l \<noteq> 0"
    using Cons.prems(1) by simp_all
  have "add_static_lease now (replicate (Suc (n + length rs)) zero_static @ us) (s_chaddr l)
      (s_yiaddr l) (ntohl (s_expires l)) =
    (replicate (n + length rs) zero_static @ static_entry now l # us, Some (n + length rs))"
    using l last_free_zeros [OF Cons.prems(2), of 0 None "n + length rs"]
    by (cases l) (simp add: add_static_lease_def static_entry_def list_update_append
        replicate_update_last del: replicate_Suc)
  then have "read_static_loop cfg now i (replicate (n + length (l # rs)) zero_static @ us)
      (static_bytes l @ concat (map static_bytes rs)) =
    read_static_loop cfg now (i + 1) (replicate (n + length rs) zero_static @ static_entry now l # us)
      (concat (map static_bytes rs))"
    using l Cons.prems(3)
    by (subst read_static_loop.simps) (simp add: length_static_bytes static_of_static_bytes)
  also have "\<dots> = replicate n zero_static @ rev (map (static_entry now) rs) @ static_entry now l # us"
    using Cons.prems l by (intro Cons.IH) (auto simp: static_entry_def)
  finally show ?case by simp
qed

lemma find_index_find:
  "(case find_index P xs of Some i \<Rightarrow> f (xs ! i) | None \<Rightarrow> d) =
   (case find P xs of Some x \<Rightarrow> f x | None \<Rightarrow> d)"
  by (induction xs) (auto split: option.splits)

lemma find_static_find:
  "find_static_lease_by_chaddr ss c =
     (case find (\<lambda>s. s_chaddr s = take 16 c) ss of Some s \<Rightarrow> s_yiaddr s | None \<Rightarrow> 0)"
  by (simp add: find_static_lease_by_chaddr_def find_index_find)

lemma find_append: "find P (xs @ ys) = (case find P xs of None \<Rightarrow> find P ys | r \<Rightarrow> r)"
  by (induction xs) simp_all

lemma find_map: "find P (map f xs) = map_option f (find (P \<circ> f) xs)"
  by (induction xs) simp_all

text \<open>After a static lease file has been read into an empty table, the address reserved for a
  client is the one of the last record of the file for that client, and 0 when there is none.\<close>

theorem read_static_leases_lookup:
  assumes "list_all (\<lambda>l. length (s_chaddr l) = 16 \<and> s_yiaddr l \<noteq> 0) rs"
    and "length rs \<le> unat (c_max_static cfg)" and "take 16 c \<noteq> blank_chaddr"
  shows "find_static_lease_by_chaddr
      (read_static_leases cfg now (replicate (unat (c_max_static cfg)) zero_static)
         (Some (concat (map static_bytes rs)))) c =
    (case find (\<lambda>l. s_chaddr l = take 16 c) (rev rs) of Some l \<Rightarrow> s_yiaddr l | None \<Rightarrow> 0)"
proof -
  let ?n = "unat (c_max_static cfg) - length rs"
  have "read_static_leases cfg now (replicate (unat (c_max_static cfg)) zero_static)
      (Some (concat (map static_bytes rs))) =
    replicate ?n zero_static @ map (static_entry now) (rev rs)"
    using read_static_restore [OF assms(1), of "[]" 0 cfg now ?n] assms(2)
    by (simp add: read_static_leases_def rev_map)
  moreover have "find (\<lambda>s. s_chaddr s = take 16 c) (replicate ?n zero_static) = None"
    using assms(3) by (auto simp: find_None_iff zero_static_def)
  moreover have "(\<lambda>s. s_chaddr s = take 16 c) \<circ> static_entry now = (\<lambda>s. s_chaddr s = take 16 c)"
    by (auto simp: static_entry_def)
  ultimately show ?thesis
    by (simp add: find_static_find find_append find_map static_entry_def split: option.splits)
qed

theorem read_static_leases_lookup_witness:
  "find_static_lease_by_chaddr
      (read_static_leases (sample_cfg\<lparr>c_max_static := 3\<rparr>) 100
         (replicate (unat (c_max_static (sample_cfg\<lparr>c_max_static := 3\<rparr>))) zero_static)
         (Some (concat (map static_bytes [\<lparr>s_chaddr = replicate 16 1, s_yiaddr = 7, s_expires = 0\<rparr>,
            \<lparr>s_chaddr = replicate 16 1, s_yiaddr = 8, s_expires = 0\<rparr>])))) (replicate 16 1) = 8"
  by (subst read_static_leases_lookup) (simp_all add: blank_chaddr_def)

end
