(* ===== verification/Dhcp_Server.thy ===== *)
theory Dhcp_Server
  imports Dhcp_Config Dhcp_Files
begin

section \<open>The DHCP server (\<^verbatim>\<open>udhcp-0.9.8/serverpacket.c\<close>, \<^verbatim>\<open>dhcpd.c\<close>)\<close>

text \<open>
  The packets the server sends and the body of its main loop.  A function of the server takes the
  environment, the configuration and the tables, and returns the new table of dynamic leases, the
  list of its effects in order, and the \<^verbatim>\<open>int\<close> result; \<open>None\<close> is an access outside an array (or an
  address search that does not end).  The definitions follow the product configuration
  \<^verbatim>\<open>configs/mv6281\<close> (twin IP, the ARP check of the extender patch, access policy).
  \<open>server_env\<close> holds what the functions read from outside: the clock, ARP probes, the contents of
  \<^verbatim>\<open>/proc/net/arp\<close>, the twin-IP setting, and the answers of library functions without source.
\<close>

record server_env =
  e_now :: u32
  e_arpping :: "u32 \<Rightarrow> int"
  e_local_ip :: u32
  e_sock :: sock_env
  e_proc_arp :: "byte list option"
  e_stale_hwaddr :: "byte list"
  e_strtomac :: "byte list \<Rightarrow> byte list"
  e_real_ipclone :: "byte list \<Rightarrow> byte list option"
  e_twinip_leasetime :: "byte list \<Rightarrow> u32 option"
  e_wan_type :: "byte list \<Rightarrow> byte list"
  e_if_wan :: "byte list"
  e_if_wan2 :: "byte list"
  e_wan_hw_ifname :: "byte list \<Rightarrow> byte list"
  e_gateway :: "byte list \<Rightarrow> u32"
  e_if_netmask :: "byte list \<Rightarrow> u32"
  e_dhcpd_op :: bool
  e_unpermitted :: "byte list \<Rightarrow> bool"
  e_syslog_flag :: bool
  e_access_policy :: bool
  e_auto_detect :: bool

datatype server_out =
    Out_net net_out
  | Out_lease_file "byte list"
  | Out_set_ipclone "byte list"
  | Out_syslog_flag int
  | Out_access_add "byte list" u32
  | Out_access_remove "byte list"

type_synonym server_result = "(lease_table \<times> server_out list \<times> int) option"

subsection \<open>Sending\<close>

definition send_packet_to_relay :: "server_env \<Rightarrow> server_config_t \<Rightarrow> dhcpMessage \<Rightarrow> int \<times> net_out list" where
  "send_packet_to_relay env cfg payload =
     kernel_packet (e_sock env) payload (c_server cfg) SERVER_PORT (m_giaddr payload) SERVER_PORT"

text \<open>\<^verbatim>\<open>inet_ntoa\<close> of an address in network order.\<close>

definition inet_ntoa :: "u32 \<Rightarrow> byte list" where
  "inet_ntoa a = (let b = bytes_le32 a in
     dec (unat (b ! 0)) @ 0x2e # dec (unat (b ! 1)) @ 0x2e # dec (unat (b ! 2)) @ 0x2e # dec (unat (b ! 3)))"

definition sf_strncpy :: "byte list \<Rightarrow> nat \<Rightarrow> byte list" where
  "sf_strncpy src n = (if length src \<ge> n then take (n - 1) src else src)"

abbreviation (input) arp_delims :: "byte list" where "arp_delims \<equiv> [0x20, 9, 10]"

text \<open>The loop over the lines of \<^verbatim>\<open>/proc/net/arp\<close>: the result and the address copied to
  \<^verbatim>\<open>hw_addr\<close>, which is the empty string when the line has no fourth column.\<close>

function arptable_loop :: "byte list \<Rightarrow> nat \<Rightarrow> byte list \<Rightarrow> int \<times> byte list" where
  "arptable_loop ip_addr line fp =
    (if fp = [] then (0, [])
     else case fgets 128 fp of (buffer, fp) \<Rightarrow>
       if line + 1 < 2 then arptable_loop ip_addr (line + 1) fp
       else (case strtok arp_delims (c_str buffer) of
           Some (ptr, r0) \<Rightarrow>
             if ip_addr = ptr then
               let rest = (\<lambda>s. case strtok arp_delims s of Some (_, r) \<Rightarrow> r | None \<Rightarrow> []) in
               (case strtok arp_delims (rest (rest r0)) of
                  Some (hw, _) \<Rightarrow> (1, sf_strncpy hw 32)
                | None \<Rightarrow> (1, []))
             else arptable_loop ip_addr (line + 1) fp
         | None \<Rightarrow> arptable_loop ip_addr (line + 1) fp))"
  by pat_completeness auto
termination
  by (relation "measure (\<lambda>(ip, line, fp). length fp)")
    (auto simp: fgets_def Let_def min_def split: if_splits)

declare arptable_loop.simps [simp del]

definition get_hwaddr_from_arptable :: "server_env \<Rightarrow> byte list \<Rightarrow> int \<times> byte list" where
  "get_hwaddr_from_arptable env ip_addr = (case e_proc_arp env of
     None \<Rightarrow> (-1, e_stale_hwaddr env)
   | Some fp \<Rightarrow> arptable_loop ip_addr 0 fp)"

definition client_dest :: "dhcpMessage \<Rightarrow> bool \<Rightarrow> u32 \<times> byte list" where
  "client_dest payload force_broadcast =
    (if force_broadcast then (INADDR_BROADCAST, MAC_BCAST_ADDR)
     else if m_ciaddr payload \<noteq> 0 then (m_ciaddr payload, m_chaddr payload)
     else if ntohs (m_flags payload) AND BROADCAST_FLAG \<noteq> 0 then (INADDR_BROADCAST, MAC_BCAST_ADDR)
     else (m_yiaddr payload, m_chaddr payload))"

definition arp_checked_dest :: "server_env \<Rightarrow> dhcpMessage \<Rightarrow> u32 \<times> byte list \<Rightarrow> u32 \<times> byte list" where
  "arp_checked_dest env payload dest = (case dest of (ciaddr, chaddr) \<Rightarrow>
     if ciaddr \<noteq> INADDR_BROADCAST then
       let addr = (if m_ciaddr payload \<noteq> 0 then m_ciaddr payload else m_yiaddr payload);
           (found, hwaddr) = get_hwaddr_from_arptable env (inet_ntoa addr) in
       if found = 0 then (INADDR_BROADCAST, MAC_BCAST_ADDR)
       else if take 6 chaddr \<noteq> take 6 (e_strtomac env hwaddr)
       then (INADDR_BROADCAST, MAC_BCAST_ADDR)
       else (ciaddr, chaddr)
     else (ciaddr, chaddr))"

definition send_packet_to_client ::
  "server_env \<Rightarrow> server_config_t \<Rightarrow> dhcpMessage \<Rightarrow> bool \<Rightarrow> int \<times> net_out list" where
  "send_packet_to_client env cfg payload force_broadcast =
    (case arp_checked_dest env payload (client_dest payload force_broadcast) of (ciaddr, chaddr) \<Rightarrow>
       raw_packet (e_sock env) payload (c_server cfg) SERVER_PORT ciaddr CLIENT_PORT chaddr
         (c_ifindex cfg))"

definition send_packet :: "server_env \<Rightarrow> server_config_t \<Rightarrow> dhcpMessage \<Rightarrow> bool \<Rightarrow> int \<times> server_out list" where
  "send_packet env cfg payload force_broadcast =
    (case (if m_giaddr payload \<noteq> 0 then send_packet_to_relay env cfg payload
           else send_packet_to_client env cfg payload force_broadcast) of
       (ret, net) \<Rightarrow> (ret, map Out_net net))"

subsection \<open>Building\<close>

definition init_packet :: "server_config_t \<Rightarrow> dhcpMessage \<Rightarrow> byte \<Rightarrow> dhcpMessage option" where
  "init_packet cfg oldpacket type = do {
     packet \<leftarrow> init_header type;
     msg_add_simple (packet\<lparr>m_xid := m_xid oldpacket, m_chaddr := m_chaddr oldpacket,
         m_flags := m_flags oldpacket, m_giaddr := m_giaddr oldpacket,
         m_ciaddr := m_ciaddr oldpacket\<rparr>) DHCP_SERVER_ID (c_server cfg)
   }"

definition strncpy_to :: "byte list \<Rightarrow> byte list \<Rightarrow> nat \<Rightarrow> byte list" where
  "strncpy_to dst src n = take n (src @ replicate n 0) @ drop n dst"

definition add_bootp_options :: "server_config_t \<Rightarrow> dhcpMessage \<Rightarrow> dhcpMessage" where
  "add_bootp_options cfg packet =
    (let packet = packet\<lparr>m_siaddr := c_siaddr cfg\<rparr>;
         packet = (case c_sname cfg of None \<Rightarrow> packet
                   | Some s \<Rightarrow> packet\<lparr>m_sname := strncpy_to (m_sname packet) s 63\<rparr>) in
     case c_boot_file cfg of None \<Rightarrow> packet
     | Some s \<Rightarrow> packet\<lparr>m_file := strncpy_to (m_file packet) s 127\<rparr>)"

text \<open>\<^verbatim>\<open>check_ipclone_ipaddr\<close> of \<^verbatim>\<open>lib/ul_lib/ipclone.c\<close>: the WAN whose twin-IP setting has the
  client's hardware address.\<close>

definition check_ipclone_ipaddr :: "server_env \<Rightarrow> byte list \<Rightarrow> bool \<times> byte list" where
  "check_ipclone_ipaddr env chaddr =
    (let is_clone = (\<lambda>w. case e_real_ipclone env w of
          None \<Rightarrow> False | Some mac \<Rightarrow> take 6 chaddr = take 6 mac) in
     if is_clone (str ''wan1'') then (True, str ''wan1'')
     else if is_clone (str ''wan2'') then (True, str ''wan2'')
     else (False, []))"

definition get_ipclone_lease_time :: "server_env \<Rightarrow> byte list \<Rightarrow> u32" where
  "get_ipclone_lease_time env wan_name =
    (case e_twinip_leasetime env wan_name of None \<Rightarrow> 60 | Some t \<Rightarrow> t)"

text \<open>The test by which the server separates twin-IP addresses from its own subnet.\<close>

definition outside_subnet :: "server_config_t \<Rightarrow> u32 \<Rightarrow> bool" where
  "outside_subnet cfg yiaddr \<longleftrightarrow>
     (htonl yiaddr AND c_sys_netmask cfg) \<noteq> (htonl (c_start cfg) AND c_sys_netmask cfg)"

text \<open>The copy of an option block into a local array of 128 bytes with the value replaced by an
  address: \<^verbatim>\<open>memcpy(buf, data, data[OPT_LEN] + 2 + 1)\<close>, then \<^verbatim>\<open>memcpy(&buf[2], &ip, buf[OPT_LEN])\<close>.\<close>

definition replaced_option :: "byte list \<Rightarrow> u32 \<Rightarrow> byte list option" where
  "replaced_option data ip = do {
     l \<leftarrow> rd data OPT_LEN;
     buf \<leftarrow> rd_n data 0 (unat l + 2 + 1);
     buf \<leftarrow> wr (replicate 128 0) 0 buf;
     ipb \<leftarrow> rd_n (bytes_le32 ip) 0 (unat l);
     wr buf 2 ipb
   }"

text \<open>The loop over the configured options.  \<open>twin\<close> is the WAN name and its interface when the
  address is a twin IP.\<close>

definition add_config_option ::
  "server_env \<Rightarrow> server_config_t \<Rightarrow> (byte list \<times> byte list) option \<Rightarrow> dhcpMessage \<Rightarrow> byte list
    \<Rightarrow> dhcpMessage option" where
  "add_config_option env cfg twin packet data = do {
     code \<leftarrow> rd data OPT_CODE;
     if code \<noteq> DHCP_LEASE_TIME then
       (case twin of
          None \<Rightarrow> msg_add_string packet data
        | Some (wan_name, ifname) \<Rightarrow>
            if code = DHCP_ROUTER then do {
              buf \<leftarrow> replaced_option data
                (if e_wan_type env wan_name = str ''pppoe''
                 then ntohl ((htonl (m_yiaddr packet) AND c_sys_netmask cfg) OR 1)
                 else e_gateway env ifname);
              msg_add_string packet buf
            }
            else if code = DHCP_SUBNET \<and> e_wan_type env wan_name \<noteq> str ''pppoe'' then do {
              buf \<leftarrow> replaced_option data (e_if_netmask env ifname);
              msg_add_string packet buf
            }
            else msg_add_string packet data)
     else Some packet
   }"

fun add_config_options ::
  "server_env \<Rightarrow> server_config_t \<Rightarrow> (byte list \<times> byte list) option \<Rightarrow> dhcpMessage \<Rightarrow> option_set
    \<Rightarrow> dhcpMessage option" where
  "add_config_options env cfg twin packet [] = Some packet"
| "add_config_options env cfg twin packet (data # ds) =
     Option.bind (add_config_option env cfg twin packet data)
       (\<lambda>packet. add_config_options env cfg twin packet ds)"

subsection \<open>OFFER\<close>

text \<open>\<open>find_address(0)\<close>, then \<open>find_address(1)\<close> when the first found nothing.\<close>

definition find_any_address ::
  "server_env \<Rightarrow> server_config_t \<Rightarrow> static_table \<Rightarrow> lease_table \<Rightarrow> (lease_table \<times> u32) option" where
  "find_any_address env cfg statics leases = do {
     (leases, y) \<leftarrow> find_address cfg (e_now env) (e_arpping env) (e_local_ip env) statics leases False;
     if y = 0
     then find_address cfg (e_now env) (e_arpping env) (e_local_ip env) statics leases True
     else Some (leases, y)
   }"

text \<open>The requested address of a DISCOVER, when it is one the server may hand out.\<close>

definition offer_requested ::
  "server_env \<Rightarrow> server_config_t \<Rightarrow> static_table \<Rightarrow> lease_table \<Rightarrow> dhcpMessage \<Rightarrow> u32 option option" where
  "offer_requested env cfg statics leases oldpacket = do {
     req \<leftarrow> get_option oldpacket DHCP_REQUESTED_IP;
     case req of
       None \<Rightarrow> Some None
     | Some op \<Rightarrow> do {
         r \<leftarrow> opt_u32 oldpacket op;
         Some (if ntohl r \<ge> ntohl (c_start cfg) \<and> ntohl r \<le> ntohl (c_end cfg) \<and>
                  (find_static_lease_by_yiaddr statics r \<noteq> None \<or>
                   (case find_lease_by_yiaddr leases r of
                      None \<Rightarrow> True
                    | Some i \<Rightarrow> lease_expired (e_now env) (leases ! i)))
               then Some r else None)
       }
   }"

text \<open>The first half of \<open>sendOffer\<close>: the offered address (0 for none) and \<^verbatim>\<open>lease_time_align\<close>.\<close>

definition offer_address ::
  "server_env \<Rightarrow> server_config_t \<Rightarrow> static_table \<Rightarrow> lease_table \<Rightarrow> dhcpMessage
    \<Rightarrow> (lease_table \<times> u32 \<times> u32) option" where
  "offer_address env cfg statics leases oldpacket =
    (if find_static_lease_by_chaddr statics (m_chaddr oldpacket) \<noteq> 0 then
       Some (leases, find_static_lease_by_chaddr statics (m_chaddr oldpacket), c_lease cfg)
     else case find_lease_by_chaddr leases (m_chaddr oldpacket) of
       Some i \<Rightarrow>
         let lease = leases ! i;
             lease_time = (if \<not> lease_expired (e_now env) lease then l_expires lease - e_now env
                           else c_lease cfg) in
         if find_static_lease_by_yiaddr statics (l_yiaddr lease) \<noteq> None then do {
           (leases, y) \<leftarrow> find_any_address env cfg statics leases;
           Some (leases, y, lease_time)
         }
         else Some (leases, l_yiaddr lease, lease_time)
     | None \<Rightarrow> do {
         req \<leftarrow> offer_requested env cfg statics leases oldpacket;
         case req of
           Some r \<Rightarrow> do {
             (leases, taken) \<leftarrow> check_ip cfg (e_now env) (e_arpping env) leases r;
             if taken then do {
               (leases, y) \<leftarrow> find_address cfg (e_now env) (e_arpping env) (e_local_ip env) statics
                 leases False;
               if y \<noteq> 0 then do {
                 (leases, y) \<leftarrow> find_address cfg (e_now env) (e_arpping env) (e_local_ip env) statics
                   leases True;
                 Some (leases, y, c_lease cfg)
               }
               else Some (leases, y, c_lease cfg)
             }
             else Some (leases, r, c_lease cfg)
           }
         | None \<Rightarrow> do {
             (leases, y) \<leftarrow> find_any_address env cfg statics leases;
             Some (leases, y, c_lease cfg)
           }
       })"

text \<open>The lease time asked for by the client, limited to the configured one.\<close>

definition asked_lease_time :: "server_config_t \<Rightarrow> dhcpMessage \<Rightarrow> u32 \<Rightarrow> u32 option" where
  "asked_lease_time cfg oldpacket lease_time = do {
     lt \<leftarrow> get_option oldpacket DHCP_LEASE_TIME;
     case lt of
       None \<Rightarrow> Some lease_time
     | Some op \<Rightarrow> do {
         w \<leftarrow> opt_u32 oldpacket op;
         Some (if ntohl w > c_lease cfg then c_lease cfg else ntohl w)
       }
   }"

definition sendOffer ::
  "server_env \<Rightarrow> server_config_t \<Rightarrow> static_table \<Rightarrow> lease_table \<Rightarrow> dhcpMessage \<Rightarrow> server_result" where
  "sendOffer env cfg statics leases oldpacket = do {
     packet \<leftarrow> init_packet cfg oldpacket DHCPOFFER;
     (leases, y, lease_time) \<leftarrow> offer_address env cfg statics leases oldpacket;
     if y = 0 then Some (leases, [], -1)
     else do {
       let packet = packet\<lparr>m_yiaddr := y\<rparr>;
       (leases, added) \<leftarrow> add_lease (e_now env) leases (m_chaddr packet) y (c_offer_time cfg) None;
       if added = None then Some (leases, [], -1)
       else do {
         lease_time \<leftarrow> asked_lease_time cfg oldpacket lease_time;
         let lease_time = (if lease_time < c_min_lease cfg then c_lease cfg else lease_time);
         let (clone, wan_name) = check_ipclone_ipaddr env (m_chaddr packet);
         if \<not> outside_subnet cfg y \<and> \<not> e_dhcpd_op env then Some (leases, [], -1)
         else do {
           let lease_time = (if outside_subnet cfg y \<and> clone then get_ipclone_lease_time env wan_name
                             else lease_time);
           packet \<leftarrow> msg_add_simple packet DHCP_LEASE_TIME (htonl lease_time);
           packet \<leftarrow> add_config_options env cfg
             (if wan_name \<noteq> [] \<and> outside_subnet cfg y
              then Some (wan_name, if wan_name = str ''wan2'' then e_if_wan2 env else e_if_wan env)
              else None) packet (c_options cfg);
           let (ret, out) = send_packet env cfg (add_bootp_options cfg packet) False;
           Some (leases, Out_syslog_flag 1 # out, ret)
         }
       }
     }
   }"

subsection \<open>NAK, ACK, INFORM\<close>

definition sendNAK ::
  "server_env \<Rightarrow> server_config_t \<Rightarrow> lease_table \<Rightarrow> dhcpMessage \<Rightarrow> server_result" where
  "sendNAK env cfg leases oldpacket = do {
     packet \<leftarrow> init_packet cfg oldpacket DHCPNAK;
     let (ret, out) = send_packet env cfg packet True;
     Some (leases, out, ret)
   }"

text \<open>The host name of an ACK: the first 23 bytes of the option, dropped when it holds characters
  that are not permitted.\<close>

definition ack_hostname :: "server_env \<Rightarrow> dhcpMessage \<Rightarrow> byte list option" where
  "ack_hostname env oldpacket = do {
     h \<leftarrow> get_option oldpacket DHCP_HOST_NAME;
     bs \<leftarrow> (case h of None \<Rightarrow> Some []
            | Some op \<Rightarrow> opt_data oldpacket op (min (snd (snd op)) (HOSTNAME_LEN - 1)));
     hostname \<leftarrow> c_string (bs @ replicate (HOSTNAME_LEN - length bs) 0);
     Some (if e_unpermitted env hostname then [] else hostname)
   }"

text \<open>The first half of \<open>sendACK\<close>: the message with its options, the lease time and the effects
  before it is sent.\<close>

definition ack_packet ::
  "server_env \<Rightarrow> server_config_t \<Rightarrow> dhcpMessage \<Rightarrow> u32 \<Rightarrow> (dhcpMessage \<times> u32 \<times> server_out list) option" where
  "ack_packet env cfg oldpacket yiaddr = do {
     packet \<leftarrow> init_packet cfg oldpacket DHCPACK;
     let packet = packet\<lparr>m_yiaddr := yiaddr\<rparr>;
     lt \<leftarrow> get_option oldpacket DHCP_LEASE_TIME;
     lease_time \<leftarrow> (case lt of
         None \<Rightarrow> Some (c_lease cfg)
       | Some op \<Rightarrow> map_option (\<lambda>w. if ntohl w > c_lease cfg then c_lease cfg
                                     else if ntohl w < c_min_lease cfg then c_lease cfg
                                     else ntohl w) (opt_u32 oldpacket op));
     let (clone, wan_name) = check_ipclone_ipaddr env (m_chaddr packet);
     let twin = (outside_subnet cfg yiaddr \<and> clone);
     let lease_time = (if twin then get_ipclone_lease_time env wan_name else lease_time);
     let log = (if e_syslog_flag env \<and> (twin \<or> \<not> outside_subnet cfg yiaddr)
                then [Out_syslog_flag (-1)] else []);
     packet \<leftarrow> msg_add_simple packet DHCP_LEASE_TIME (htonl lease_time);
     packet \<leftarrow> add_config_options env cfg
       (if twin then Some (wan_name, e_wan_hw_ifname env wan_name) else None) packet (c_options cfg);
     Some (add_bootp_options cfg packet, lease_time,
       (if twin then [Out_set_ipclone wan_name] else []) @ log)
   }"

definition sendACK ::
  "server_env \<Rightarrow> server_config_t \<Rightarrow> lease_table \<Rightarrow> dhcpMessage \<Rightarrow> u32 \<Rightarrow> server_result" where
  "sendACK env cfg leases oldpacket yiaddr = do {
     (packet, lease_time, pre) \<leftarrow> ack_packet env cfg oldpacket yiaddr;
     let (ret, out) = send_packet env cfg packet False;
     if ret < 0 then Some (leases, pre @ out, -1)
     else do {
       hostname \<leftarrow> ack_hostname env oldpacket;
       (leases, added) \<leftarrow> add_lease (e_now env) leases (m_chaddr packet) yiaddr lease_time (Some hostname);
       Some (leases, pre @ out @
         (if e_access_policy env then [Out_access_add (m_chaddr packet) yiaddr] else []), 0)
     }
   }"

definition send_inform ::
  "server_env \<Rightarrow> server_config_t \<Rightarrow> lease_table \<Rightarrow> dhcpMessage \<Rightarrow> server_result" where
  "send_inform env cfg leases oldpacket = do {
     packet \<leftarrow> init_packet cfg oldpacket DHCPACK;
     packet \<leftarrow> add_config_options env cfg None packet (c_options cfg);
     let (ret, out) = send_packet env cfg (add_bootp_options cfg packet) False;
     Some (leases, out, ret)
   }"

subsection \<open>The main loop\<close>

text \<open>The four bytes of an option of the request, when it has the option.\<close>

definition request_u32 :: "dhcpMessage \<Rightarrow> byte \<Rightarrow> u32 option option" where
  "request_u32 packet code = do {
     x \<leftarrow> get_option packet code;
     case x of None \<Rightarrow> Some None | Some op \<Rightarrow> map_option Some (opt_u32 packet op)
   }"

definition handle_request ::
  "server_env \<Rightarrow> server_config_t \<Rightarrow> static_table \<Rightarrow> lease_table \<Rightarrow> dhcpMessage \<Rightarrow> server_result" where
  "handle_request env cfg statics leases packet = do {
     req \<leftarrow> request_u32 packet DHCP_REQUESTED_IP;
     sid \<leftarrow> request_u32 packet DHCP_SERVER_ID;
     case find_lease_by_chaddr leases (m_chaddr packet) of
       Some i \<Rightarrow>
         let clone = fst (check_ipclone_ipaddr env (m_chaddr packet)); y = l_yiaddr (leases ! i) in
         if req \<noteq> None \<and> clone \<and> \<not> outside_subnet cfg (the req) then sendNAK env cfg leases packet
         else if req \<noteq> None \<and> \<not> clone \<and> outside_subnet cfg (the req) then sendNAK env cfg leases packet
         else if sid \<noteq> None then
           (if sid = Some (c_server cfg) \<and> req = Some y then sendACK env cfg leases packet y
            else Some (leases, [], 0))
         else if req \<noteq> None then
           (if req = Some y then sendACK env cfg leases packet y else sendNAK env cfg leases packet)
         else if y = m_ciaddr packet then sendACK env cfg leases packet y
         else sendNAK env cfg leases packet
     | None \<Rightarrow>
         if sid \<noteq> None then Some (leases, [], 0)
         else (case req of
             Some r \<Rightarrow>
               let static_lease_ip = find_static_lease_by_chaddr statics (m_chaddr packet) in
               if static_lease_ip \<noteq> 0 \<and> static_lease_ip \<noteq> r then Some (leases, [], 0)
               else (case find_lease_by_yiaddr leases r of
                   Some i \<Rightarrow>
                     if lease_expired (e_now env) (leases ! i)
                     then Some (leases[i := (leases ! i)\<lparr>l_chaddr := blank_chaddr\<rparr>], [], 0)
                     else sendNAK env cfg leases packet
                 | None \<Rightarrow>
                     if ntohl r < ntohl (c_start cfg) \<or> ntohl r > ntohl (c_end cfg)
                     then sendNAK env cfg leases packet
                     else if find_static_lease_by_yiaddr statics r \<noteq> None
                     then sendNAK env cfg leases packet
                     else sendACK env cfg leases packet r)
           | None \<Rightarrow> sendNAK env cfg leases packet)
   }"

text \<open>\<open>handle_packet\<close> is the \<^verbatim>\<open>switch\<close> on the message type; \<open>write_leases\<close> appears in the effects
  where the code calls it.\<close>

definition handle_packet ::
  "server_env \<Rightarrow> server_config_t \<Rightarrow> static_table \<Rightarrow> lease_table \<Rightarrow> dhcpMessage
    \<Rightarrow> (lease_table \<times> server_out list) option" where
  "handle_packet env cfg statics leases packet = do {
     state \<leftarrow> get_option packet DHCP_MESSAGE_TYPE;
     case state of
       None \<Rightarrow> Some (leases, [])
     | Some op \<Rightarrow> do {
         type \<leftarrow> opt_byte packet op;
         let lease = find_lease_by_chaddr leases (m_chaddr packet);
         if type = DHCPDISCOVER then do {
           (leases, out, ret) \<leftarrow> sendOffer env cfg statics leases packet;
           Some (leases, out @ [Out_lease_file (write_leases cfg (e_now env) leases)])
         }
         else if type = DHCPREQUEST then do {
           (leases, out, ret) \<leftarrow> handle_request env cfg statics leases packet;
           Some (leases, out @ [Out_lease_file (write_leases cfg (e_now env) leases)])
         }
         else if type = DHCPDECLINE then
           Some (case lease of
             None \<Rightarrow> leases
           | Some i \<Rightarrow> leases[i := (leases ! i)\<lparr>l_chaddr := blank_chaddr,
                                       l_expires := e_now env + c_decline_time cfg\<rparr>], [])
         else if type = DHCPRELEASE then
           (let leases = (case lease of
               None \<Rightarrow> leases
             | Some i \<Rightarrow> leases[i := (leases ! i)\<lparr>l_expires := e_now env\<rparr>]) in
            Some (leases, Out_lease_file (write_leases cfg (e_now env) leases) #
              (if e_access_policy env then [Out_access_remove (m_chaddr packet)] else [])))
         else if type = DHCPINFORM then do {
           (leases, out, ret) \<leftarrow> send_inform env cfg leases packet;
           Some (leases, out)
         }
         else Some (leases, [])
       }
   }"

text \<open>The state of the loop and one round of it.  An event says how \<^verbatim>\<open>select\<close> returned: with a
  timeout (or because the deadline had passed), with an error, with a signal on the pipe (\<open>None\<close> when
  reading the pipe failed), or with a datagram (\<open>None\<close> when reading it failed, with the answer to
  \<^verbatim>\<open>errno != EINTR\<close>).  A round begins by reopening the socket; \<open>listen_ok\<close> is the success of that.
  \<open>sv_exited\<close> is set where the code calls \<^verbatim>\<open>exit_server\<close>.\<close>

datatype server_signal = SIGUSR1 | SIGTERM

datatype server_event =
    Ev_timeout
  | Ev_select_error
  | Ev_signal "server_signal option"
  | Ev_datagram "byte list option" bool

record server_state =
  sv_leases :: lease_table
  sv_timeout_end :: u32
  sv_socket :: bool
  sv_exited :: bool

definition server_step ::
  "server_env \<Rightarrow> server_config_t \<Rightarrow> static_table \<Rightarrow> bool \<Rightarrow> server_state \<Rightarrow> server_event
    \<Rightarrow> (server_state \<times> server_out list) option" where
  "server_step env cfg statics listen_ok st ev =
    (let dump = Out_lease_file (write_leases cfg (e_now env) (sv_leases st));
         later = e_now env + c_auto_time cfg in
     if sv_exited st then Some (st, [])
     else if \<not> sv_socket st \<and> \<not> listen_ok then Some (st\<lparr>sv_exited := True\<rparr>, [])
     else
       let st = st\<lparr>sv_socket := True\<rparr> in
       case ev of
         Ev_timeout \<Rightarrow> Some (st\<lparr>sv_timeout_end := later\<rparr>, [dump])
       | Ev_select_error \<Rightarrow> Some (st, [])
       | Ev_signal None \<Rightarrow> Some (st, [])
       | Ev_signal (Some SIGUSR1) \<Rightarrow> Some (st\<lparr>sv_timeout_end := later\<rparr>, [dump])
       | Ev_signal (Some SIGTERM) \<Rightarrow> Some (st\<lparr>sv_exited := True\<rparr>, [])
       | Ev_datagram input not_eintr \<Rightarrow> do {
           (bytes, packet) \<leftarrow> get_packet input;
           if bytes < 0 then
             Some (if bytes = -1 \<and> not_eintr then st\<lparr>sv_socket := False\<rparr> else st, [])
           else if e_auto_detect env then Some (st, [])
           else do {
             (leases, out) \<leftarrow> handle_packet env cfg statics (sv_leases st) packet;
             Some (st\<lparr>sv_leases := leases\<rparr>, out)
           }
         })"

text \<open>The configuration step before the loop: the lease time comes from the option list, the tables
  are allocated with zeros and filled from the files.\<close>

abbreviation (input) LEASE_TIME :: u32 where "LEASE_TIME \<equiv> 864000"

definition server_lease_time :: "server_config_t \<Rightarrow> server_config_t option" where
  "server_lease_time cfg = (case find_option (c_options cfg) DHCP_LEASE_TIME of
     None \<Rightarrow> Some (cfg\<lparr>c_lease := LEASE_TIME\<rparr>)
   | Some data \<Rightarrow> map_option (\<lambda>b. cfg\<lparr>c_lease := ntohl (le32_of b)\<rparr>) (rd_n data 2 4))"

definition server_start ::
  "server_config_t \<Rightarrow> u32 \<Rightarrow> byte list option \<Rightarrow> byte list option
    \<Rightarrow> (server_config_t \<times> static_table \<times> server_state) option" where
  "server_start cfg now lease_file static_file = do {
     cfg \<leftarrow> server_lease_time cfg;
     leases \<leftarrow> read_leases cfg now (replicate (unat (c_max_leases cfg)) zero_lease) lease_file;
     let statics = read_static_leases cfg now (replicate (unat (c_max_static cfg)) zero_static) static_file;
     Some (cfg, statics, \<lparr>sv_leases = leases, sv_timeout_end = now + c_auto_time cfg,
                          sv_socket = False, sv_exited = False\<rparr>)
   }"

subsection \<open>The lease table stays consistent\<close>

text \<open>\<open>table_ok n ls\<close>: the invariant together with the size of the table.\<close>

definition table_ok :: "nat \<Rightarrow> lease_table \<Rightarrow> bool" where
  "table_ok n ls \<longleftrightarrow> lease_inv ls \<and> length ls = n"

lemma uniq_map: "uniq f z xs \<longleftrightarrow> uniq id z (map f xs)"
  by (simp add: uniq_def sorted_wrt_map)

lemma uniq_update_same:
  assumes "uniq f z xs" and "i < length xs" and "f x = z \<or> f x = f (xs ! i)"
  shows "uniq f z (xs[i := x])"
proof (cases "f x = z")
  case True
  with assms(1) show ?thesis by (intro uniq_update) simp_all
next
  case False
  with assms have "map f (xs[i := x]) = map f xs"
    by (metis list_update_id map_update)
  with assms(1) show ?thesis by (metis uniq_map)
qed

lemma table_ok_update:
  assumes "table_ok n ls" and "i < n" and "wf_lease e" and "l_yiaddr e = l_yiaddr (ls ! i)"
    and "l_chaddr e = blank_chaddr \<or> l_chaddr e = l_chaddr (ls ! i)"
  shows "table_ok n (ls[i := e])"
  using assms uniq_update_same [of l_yiaddr 0 ls i e] uniq_update_same [of l_chaddr blank_chaddr ls i e]
  by (auto simp: table_ok_def lease_inv_def list_all_length nth_list_update)

lemma table_ok_nth: "table_ok n ls \<Longrightarrow> i < n \<Longrightarrow> wf_lease (ls ! i)"
  by (simp add: table_ok_def lease_inv_def list_all_length)

text \<open>Preservation lemmas in destruction form: the call first, so that a chain of calls is
  followed by the classical reasoner.\<close>

lemma add_lease_table_ok:
  "add_lease now ls c y d h = Some (ls', r) \<Longrightarrow> table_ok n ls \<Longrightarrow> 16 \<le> length c \<Longrightarrow> table_ok n ls'"
  using add_lease_inv [of ls c now y d h ls' r] add_lease_length [of now ls c y d h ls' r]
  by (simp add: table_ok_def)

lemma check_ip_table_ok:
  "check_ip cfg now arp ls a = Some (ls', t) \<Longrightarrow> table_ok n ls \<Longrightarrow> table_ok n ls'"
  using add_lease_table_ok [of now ls blank_chaddr]
  by (auto simp: check_ip_def blank_chaddr_def split: if_splits bind_splits)

lemma find_address_table_ok:
  "find_address cfg now arp lip statics ls ce = Some (ls', y) \<Longrightarrow> table_ok n ls \<Longrightarrow> table_ok n ls'"
  using find_address_loop_inv [of cfg now arp lip statics ce ls "ntohl (c_start cfg)" "(ls', y)"]
  by (simp add: find_address_def table_ok_def)

lemma find_any_address_table_ok:
  "find_any_address env cfg statics ls = Some (ls', y) \<Longrightarrow>
     table_ok n ls \<Longrightarrow> table_ok n ls'"
  by (auto simp: find_any_address_def split: bind_splits if_splits dest!: find_address_table_ok)

lemmas table_ok_dests = add_lease_table_ok check_ip_table_ok find_address_table_ok
  find_any_address_table_ok

lemma offer_address_table_ok:
  "offer_address env cfg statics ls p = Some (ls', y, t) \<Longrightarrow>
     table_ok n ls \<Longrightarrow> table_ok n ls'"
  by (auto simp: offer_address_def Let_def split: if_splits option.splits bind_splits
      dest!: table_ok_dests)

text \<open>The host name of an ACK fits its field.\<close>

lemma opt_data_length: "opt_data p op n = Some bs \<Longrightarrow> length bs = n"
  by (auto simp: opt_data_def rd_n_def split: prod.splits if_splits)

lemma c_string_less: "c_string a = Some h \<Longrightarrow> length h < length a"
  by (auto simp: c_string_def intro!: length_takeWhile_less split: if_splits)

lemma ack_hostname_length: "ack_hostname env p = Some h \<Longrightarrow> length h < HOSTNAME_LEN"
  by (auto simp: ack_hostname_def split: bind_splits if_splits option.splits
      dest!: c_string_less opt_data_length)

subsection \<open>Replies\<close>

text \<open>\<open>reply_to cfg req t ts p\<close>: the message \<open>p\<close> answers the request \<open>req\<close> with type \<open>t\<close>: it repeats
  the transaction and the client of the request, and its options are the type, the server
  identifier and then \<open>ts\<close>.\<close>

definition reply_to :: "server_config_t \<Rightarrow> dhcpMessage \<Rightarrow> byte \<Rightarrow> tlv list \<Rightarrow> dhcpMessage \<Rightarrow> bool" where
  "reply_to cfg req t ts p \<longleftrightarrow> wf_msg p \<and> m_op p = BOOTREPLY \<and> m_cookie p = htonl DHCP_MAGIC \<and>
     m_xid p = m_xid req \<and> m_chaddr p = m_chaddr req \<and> m_flags p = m_flags req \<and>
     m_giaddr p = m_giaddr req \<and> m_ciaddr p = m_ciaddr req \<and>
     msg_opts p ([(DHCP_MESSAGE_TYPE, [t]), (DHCP_SERVER_ID, bytes_le32 (c_server cfg))] @ ts)"

lemma init_header_op:
  assumes "t \<in> {DHCPOFFER, DHCPACK, DHCPNAK}" and "init_header t = Some p"
  shows "m_op p = BOOTREPLY \<and> m_yiaddr p = 0"
  using assms
  by (auto simp: init_header_def Let_def msg_add_simple_def zero_msg_def)

lemma init_packet_reply:
  assumes "wf_msg req" and "t \<in> {DHCPOFFER, DHCPACK, DHCPNAK}"
  obtains p where "init_packet cfg req t = Some p" and "reply_to cfg req t [] p" and "m_yiaddr p = 0"
proof -
  obtain q where q: "init_header t = Some q" "wf_msg q" "msg_opts q [(DHCP_MESSAGE_TYPE, [t])]"
    "m_cookie q = htonl DHCP_MAGIC"
    using init_header_opts [of t] by blast
  define r where "r = q\<lparr>m_xid := m_xid req, m_chaddr := m_chaddr req, m_flags := m_flags req,
    m_giaddr := m_giaddr req, m_ciaddr := m_ciaddr req\<rparr>"
  have r: "msg_opts r [(DHCP_MESSAGE_TYPE, [t])]" "wf_msg r"
    using q assms(1) by (auto simp: r_def msg_opts_def wf_msg_def)
  have "init_packet cfg req t = msg_add_string r (enc_tlv (DHCP_SERVER_ID, bytes_le32 (c_server cfg)))"
    using q(1) by (simp add: init_packet_def r_def msg_add_simple_strings take_all)
  moreover obtain p where p: "msg_add_string r (enc_tlv (DHCP_SERVER_ID, bytes_le32 (c_server cfg))) = Some p"
    "msg_opts p ([(DHCP_MESSAGE_TYPE, [t])] @ [(DHCP_SERVER_ID, bytes_le32 (c_server cfg))])"
    using msg_add_string_fits [OF r(1), of "(DHCP_SERVER_ID, bytes_le32 (c_server cfg))"]
    by (auto simp: wf_tlv_def)
  moreover have "wf_msg p"
    using msg_add_string_wf [OF r(2) p(1)] .
  moreover obtain a where "p = r\<lparr>m_options := a\<rparr>"
    using p(1) by (rule msg_add_string_upd)
  ultimately show thesis
    using that [of p] init_header_op [OF assms(2) q(1)] q(4)
    by (simp add: reply_to_def r_def)
qed

lemma reply_add_tlv:
  assumes "reply_to cfg req t ts p" and "wf_tlv v"
  obtains p' ts' where "msg_add_string p (enc_tlv v) = Some p'" and "reply_to cfg req t (ts @ ts') p'"
    and "set ts' \<subseteq> {v}" and "m_yiaddr p' = m_yiaddr p"
proof -
  obtain p' ts' where p': "msg_add_string p (enc_tlv v) = Some p'" "set ts' \<subseteq> {v}"
    "msg_opts p' (([(DHCP_MESSAGE_TYPE, [t]), (DHCP_SERVER_ID, bytes_le32 (c_server cfg))] @ ts) @ ts')"
    using opts.add_repr [OF _ assms(2)] assms(1) unfolding reply_to_def by metis
  moreover obtain a where "p' = p\<lparr>m_options := a\<rparr>"
    using p'(1) by (rule msg_add_string_upd)
  moreover have "wf_msg p'"
    using msg_add_string_wf [OF _ p'(1)] assms(1) by (simp add: reply_to_def)
  ultimately show thesis
    using that [of p' ts'] assms(1) by (simp add: reply_to_def)
qed

text \<open>The block of a configured option is exactly as long as its header says, so the copy of one
  more byte for a twin-IP client always leaves it.\<close>

lemma replaced_option_None: "wf_block data \<Longrightarrow> replaced_option data ip = None"
  by (simp add: replaced_option_def wf_block_def rd_def rd_n_def)

lemma reply_add_config_option:
  assumes "reply_to cfg req t ts p" and "wf_block d" and "add_config_option env cfg twin p d = Some p'"
  obtains ts' where "reply_to cfg req t (ts @ ts') p'" and "m_yiaddr p' = m_yiaddr p"
proof (cases "p' = p")
  case True
  with that [of "[]"] assms(1) show thesis by simp
next
  case False
  then have "msg_add_string p d = Some p'"
    using assms(2,3) replaced_option_None [OF assms(2)]
    by (auto simp: add_config_option_def split: bind_splits if_splits option.splits)
  moreover obtain q ts' where "msg_add_string p (enc_tlv (d ! OPT_CODE, drop 2 d)) = Some q"
    "reply_to cfg req t (ts @ ts') q" "m_yiaddr q = m_yiaddr p"
    using reply_add_tlv [OF assms(1)] wf_block_tlv [OF assms(2)] by metis
  ultimately show thesis
    using that wf_block_tlv [OF assms(2)] by (metis option.inject)
qed

lemma reply_add_config_options:
  assumes "reply_to cfg req t ts p" and "list_all wf_block ds"
    and "add_config_options env cfg twin p ds = Some p'"
  shows "\<exists>ts'. reply_to cfg req t (ts @ ts') p' \<and> m_yiaddr p' = m_yiaddr p"
  using assms
proof (induction ds arbitrary: p ts)
  case Nil
  then show ?case by (auto intro: exI [of _ "[]"])
next
  case (Cons d ds)
  then obtain q where q: "add_config_option env cfg twin p d = Some q"
    "add_config_options env cfg twin q ds = Some p'"
    by (auto split: bind_splits)
  obtain ts' where "reply_to cfg req t (ts @ ts') q" "m_yiaddr q = m_yiaddr p"
    using reply_add_config_option [OF Cons.prems(1) _ q(1)] Cons.prems(2) by auto
  with Cons.IH [of "ts @ ts'" q] Cons.prems(2) q(2) show ?case by auto
qed

text \<open>For a client of the router's own subnet the loop always completes.\<close>

lemma add_config_options_defined:
  assumes "reply_to cfg req t ts p" and "list_all wf_block ds"
  shows "\<exists>p'. add_config_options env cfg None p ds = Some p'"
  using assms
proof (induction ds arbitrary: p ts)
  case (Cons d ds)
  have d: "wf_block d" "list_all wf_block ds"
    using Cons.prems(2) by simp_all
  obtain q ts' where q: "msg_add_string p d = Some q" "reply_to cfg req t (ts @ ts') q"
    using reply_add_tlv [OF Cons.prems(1)] wf_block_tlv [OF d(1)] by metis
  have "rd d OPT_CODE = Some (d ! OPT_CODE)"
    using d(1) by (simp add: wf_block_def rd_def)
  then have "add_config_option env cfg None p d = Some (if d ! OPT_CODE = DHCP_LEASE_TIME then p else q)"
    using q(1) by (simp add: add_config_option_def)
  then show ?case
    using Cons.IH [OF q(2) d(2)] Cons.IH [OF Cons.prems(1) d(2)] by simp
qed simp

lemma length_strncpy_to: "n \<le> length dst \<Longrightarrow> length (strncpy_to dst src n) = length dst"
  by (simp add: strncpy_to_def)

lemma reply_bootp:
  "reply_to cfg req t ts p \<Longrightarrow> reply_to cfg req t ts (add_bootp_options cfg p) \<and>
     m_yiaddr (add_bootp_options cfg p) = m_yiaddr p"
  by (auto simp: reply_to_def add_bootp_options_def wf_msg_def msg_opts_def Let_def length_strncpy_to
      split: option.splits)

lemma reply_yiaddr: "reply_to cfg req t ts p \<Longrightarrow> reply_to cfg req t ts (p\<lparr>m_yiaddr := y\<rparr>)"
  by (auto simp: reply_to_def wf_msg_def msg_opts_def)

lemma reply_add_simple:
  assumes "reply_to cfg req t ts p"
  obtains p' ts' where "msg_add_simple p DHCP_LEASE_TIME d = Some p'"
    and "reply_to cfg req t (ts @ ts') p'" and "m_yiaddr p' = m_yiaddr p"
proof -
  have "wf_tlv (DHCP_LEASE_TIME, take 4 (bytes_le32 d))"
    by (simp add: wf_tlv_def)
  then obtain p' ts' where "msg_add_string p (enc_tlv (DHCP_LEASE_TIME, take 4 (bytes_le32 d))) = Some p'"
    "reply_to cfg req t (ts @ ts') p'" "m_yiaddr p' = m_yiaddr p"
    using reply_add_tlv [OF assms] by metis
  with that show thesis
    by (simp add: msg_add_simple_strings)
qed

text \<open>The message that a packet handed to the network carries.\<close>

fun net_msg :: "net_out \<Rightarrow> dhcpMessage" where
  "net_msg (RawFrame dst i bs) = pk_data (packet_of_bytes bs)"
| "net_msg (KernelUdp s sp d dp bs) = dhcp_of_bytes bs"

lemma send_packet_msg:
  assumes "wf_msg p" and "send_packet env cfg p fb = (r, out)" and "Out_net n \<in> set out"
  shows "net_msg n = p"
  using assms
  by (auto simp: send_packet_def send_packet_to_relay_def send_packet_to_client_def kernel_packet_def
      raw_packet_def raw_frame_fields split: if_splits prod.splits)

lemma optset_blocks: "wf_optset ds \<Longrightarrow> list_all wf_block ds"
  by (simp add: wf_optset_def)

lemma reply_wf: "reply_to cfg req t ts p \<Longrightarrow> wf_msg p"
  by (simp add: reply_to_def)

text \<open>The common tail of OFFER, ACK and INFORM: options, BOOTP fields, send.\<close>

lemma reply_sent:
  assumes "reply_to cfg req t ts p" and "wf_optset (c_options cfg)"
    and "add_config_options env cfg twin p (c_options cfg) = Some q"
    and "send_packet env cfg (add_bootp_options cfg q) fb = (r, out)" and "Out_net n \<in> set out"
  shows "\<exists>ts'. reply_to cfg req t ts' (net_msg n) \<and> m_yiaddr (net_msg n) = m_yiaddr p"
proof -
  obtain ts' where "reply_to cfg req t (ts @ ts') q" "m_yiaddr q = m_yiaddr p"
    using reply_add_config_options [OF assms(1) optset_blocks [OF assms(2)] assms(3)] by blast
  then have q: "reply_to cfg req t (ts @ ts') (add_bootp_options cfg q)"
    "m_yiaddr (add_bootp_options cfg q) = m_yiaddr p"
    using reply_bootp by auto
  with send_packet_msg [OF reply_wf [OF q(1)] assms(4,5)] show ?thesis by auto
qed

lemma sendOffer_spec:
  assumes "wf_msg p" and "wf_optset (c_options cfg)"
    and offer: "sendOffer env cfg statics ls p = Some (ls', out, r)" and n: "Out_net n \<in> set out"
  obtains ts ls1 lt i where "reply_to cfg p DHCPOFFER ts (net_msg n)"
    and "offer_address env cfg statics ls p = Some (ls1, m_yiaddr (net_msg n), lt)"
    and "m_yiaddr (net_msg n) \<noteq> 0"
    and "add_lease (e_now env) ls1 (m_chaddr p) (m_yiaddr (net_msg n)) (c_offer_time cfg) None =
      Some (ls', Some i)"
proof -
  obtain q where q: "init_packet cfg p DHCPOFFER = Some q" "reply_to cfg p DHCPOFFER [] q"
    using init_packet_reply [OF assms(1), of DHCPOFFER cfg] by auto
  have c: "m_chaddr q = m_chaddr p"
    using q(2) by (simp add: reply_to_def)
  obtain ls1 y lt ls2 i lt2 twin q1 q2 r' out' where
    "offer_address env cfg statics ls p = Some (ls1, y, lt)" "y \<noteq> 0"
    "add_lease (e_now env) ls1 (m_chaddr p) y (c_offer_time cfg) None = Some (ls2, Some i)"
    "msg_add_simple (q\<lparr>m_yiaddr := y\<rparr>) DHCP_LEASE_TIME lt2 = Some q1"
    "add_config_options env cfg twin q1 (c_options cfg) = Some q2"
    "send_packet env cfg (add_bootp_options cfg q2) False = (r', out')"
    "ls' = ls2" "out = Out_syslog_flag 1 # out'"
    using offer n c unfolding sendOffer_def q(1)
    by (auto simp: Let_def split: bind_splits if_splits prod.splits)
  moreover obtain ts' where "reply_to cfg p DHCPOFFER ts' q1" "m_yiaddr q1 = y"
    using reply_add_simple [OF reply_yiaddr [OF q(2), of y], of lt2] calculation(4) by auto
  ultimately show thesis
    using reply_sent [of cfg p DHCPOFFER ts' q1 env twin q2 False r' out' n] assms(2) n that
    by auto
qed

lemma reply_options:
  assumes "reply_to cfg req t ts p" and "wf_optset (c_options cfg)"
    and "add_config_options env cfg twin p (c_options cfg) = Some q"
  shows "\<exists>ts'. reply_to cfg req t ts' (add_bootp_options cfg q) \<and>
    m_yiaddr (add_bootp_options cfg q) = m_yiaddr p"
  using reply_add_config_options [OF assms(1) optset_blocks [OF assms(2)] assms(3)] reply_bootp
  by metis

lemma ack_packet_reply:
  assumes "wf_msg p" and "wf_optset (c_options cfg)" and ack: "ack_packet env cfg p y = Some (q, lt, pre)"
  shows "(\<exists>ts. reply_to cfg p DHCPACK ts q) \<and> m_yiaddr q = y \<and> (\<forall>n. Out_net n \<notin> set pre)"
proof -
  obtain q0 where q0: "init_packet cfg p DHCPACK = Some q0" "reply_to cfg p DHCPACK [] q0"
    using init_packet_reply [OF assms(1), of DHCPACK cfg] by auto
  obtain twin q1 q2 where s:
    "msg_add_simple (q0\<lparr>m_yiaddr := y\<rparr>) DHCP_LEASE_TIME (htonl lt) = Some q1"
    "add_config_options env cfg twin q1 (c_options cfg) = Some q2"
    "q = add_bootp_options cfg q2" "\<forall>n. Out_net n \<notin> set pre"
    using ack unfolding ack_packet_def q0(1)
    by (auto simp: Let_def split: bind_splits if_splits prod.splits)
  obtain ts where "reply_to cfg p DHCPACK ts q1" "m_yiaddr q1 = y"
    using reply_add_simple [OF reply_yiaddr [OF q0(2), of y], of "htonl lt"] s(1) by auto
  with reply_options [OF _ assms(2) s(2)] s(3,4) show ?thesis by auto
qed

lemma sendACK_reply:
  assumes "wf_msg p" and "wf_optset (c_options cfg)"
    and ack: "sendACK env cfg ls p y = Some (ls', out, r)" and n: "Out_net n \<in> set out"
  shows "\<exists>ts. reply_to cfg p DHCPACK ts (net_msg n) \<and> m_yiaddr (net_msg n) = y"
proof -
  obtain q lt pre r' out' where s: "ack_packet env cfg p y = Some (q, lt, pre)"
    "send_packet env cfg q False = (r', out')" "Out_net n \<in> set pre \<or> Out_net n \<in> set out'"
    using ack n by (auto simp: sendACK_def Let_def split: bind_splits if_splits prod.splits)
  with ack_packet_reply [OF assms(1,2) s(1)] obtain ts where "reply_to cfg p DHCPACK ts q"
    "m_yiaddr q = y" "Out_net n \<in> set out'" by auto
  with send_packet_msg [OF _ s(2)] reply_wf show ?thesis by metis
qed

lemma sendACK_table:
  assumes "wf_msg p" and "wf_optset (c_options cfg)" and ack: "sendACK env cfg ls p y = Some (ls', out, r)"
  shows "r < 0 \<and> ls' = ls \<or>
    (\<exists>lt h i. add_lease (e_now env) ls (m_chaddr p) y lt (Some h) = Some (ls', i) \<and>
       length h < HOSTNAME_LEN)"
proof -
  obtain q lt pre where s: "ack_packet env cfg p y = Some (q, lt, pre)"
    "r < 0 \<and> ls' = ls \<or> (\<exists>h i. ack_hostname env p = Some h \<and>
       add_lease (e_now env) ls (m_chaddr q) y lt (Some h) = Some (ls', i))"
    using ack by (auto simp: sendACK_def Let_def split: bind_splits if_splits prod.splits)
  moreover have "m_chaddr q = m_chaddr p"
    using ack_packet_reply [OF assms(1,2) s(1)] by (auto simp: reply_to_def)
  ultimately show ?thesis
    using ack_hostname_length by metis
qed

lemma sendNAK_reply:
  assumes "wf_msg p" and "sendNAK env cfg ls p = Some (ls', out, r)"
  shows "ls' = ls" and "Out_net n \<in> set out \<Longrightarrow>
    reply_to cfg p DHCPNAK [] (net_msg n) \<and> m_yiaddr (net_msg n) = 0"
proof -
  obtain q where q: "init_packet cfg p DHCPNAK = Some q" "reply_to cfg p DHCPNAK [] q" "m_yiaddr q = 0"
    using init_packet_reply [OF assms(1), of DHCPNAK cfg] by auto
  then show "ls' = ls"
    using assms(2) by (simp add: sendNAK_def split: prod.splits)
  show "reply_to cfg p DHCPNAK [] (net_msg n) \<and> m_yiaddr (net_msg n) = 0" if "Out_net n \<in> set out"
    using assms(2) q that send_packet_msg [OF reply_wf [OF q(2)], of env cfg True]
    by (auto simp: sendNAK_def split: prod.splits)
qed

lemma send_inform_reply:
  assumes "wf_msg p" and "wf_optset (c_options cfg)" and "send_inform env cfg ls p = Some (ls', out, r)"
  shows "ls' = ls" and "Out_net n \<in> set out \<Longrightarrow> \<exists>ts. reply_to cfg p DHCPACK ts (net_msg n)"
proof -
  obtain q where q: "init_packet cfg p DHCPACK = Some q" "reply_to cfg p DHCPACK [] q"
    using init_packet_reply [OF assms(1), of DHCPACK cfg] by auto
  with assms(3) show "ls' = ls"
    by (auto simp: send_inform_def split: bind_splits prod.splits)
  show "\<exists>ts. reply_to cfg p DHCPACK ts (net_msg n)" if n: "Out_net n \<in> set out"
    using assms(3) q n reply_sent [OF q(2) assms(2), of env None]
    by (fastforce simp: send_inform_def split: bind_splits prod.splits)
qed

lemma wf_msg_chaddr: "wf_msg p \<Longrightarrow> length (m_chaddr p) = 16"
  by (simp add: wf_msg_def)

lemma sendOffer_table_ok:
  assumes "sendOffer env cfg statics ls p = Some (ls', out, r)" and "table_ok n ls" and "wf_msg p"
  shows "table_ok n ls'"
proof -
  obtain q where q: "init_packet cfg p DHCPOFFER = Some q" "reply_to cfg p DHCPOFFER [] q"
    using init_packet_reply [OF assms(3), of DHCPOFFER cfg] by auto
  then have "length (m_chaddr q) = 16"
    using wf_msg_chaddr [OF assms(3)] by (simp add: reply_to_def)
  with assms q(1) show ?thesis
    by (auto simp: sendOffer_def Let_def split: bind_splits if_splits prod.splits
        dest!: offer_address_table_ok [of _ _ _ _ _ _ _ _ n] add_lease_table_ok [of _ _ _ _ _ _ _ _ n])
qed

lemma sendACK_table_ok:
  "sendACK env cfg ls p y = Some (ls', out, r) \<Longrightarrow> wf_optset (c_options cfg) \<Longrightarrow> table_ok n ls \<Longrightarrow>
     wf_msg p \<Longrightarrow> table_ok n ls'"
  using sendACK_table [of p cfg env ls y ls' out r] wf_msg_chaddr [of p]
  by (auto dest!: add_lease_table_ok [of _ _ _ _ _ _ _ _ n])

lemma find_lease_by_chaddr_Some:
  "find_lease_by_chaddr ls c = Some i \<Longrightarrow> i < length ls \<and> l_chaddr (ls ! i) = take 16 c"
  by (simp add: find_lease_by_chaddr_def find_index_Some)

lemma find_lease_by_yiaddr_Some:
  "find_lease_by_yiaddr ls y = Some i \<Longrightarrow> i < length ls \<and> l_yiaddr (ls ! i) = y"
  by (simp add: find_lease_by_yiaddr_def find_index_Some)

lemma table_ok_change:
  assumes "table_ok n ls" and "i < length ls"
  shows "table_ok n (ls[i := (ls ! i)\<lparr>l_chaddr := blank_chaddr\<rparr>])"
    and "table_ok n (ls[i := (ls ! i)\<lparr>l_expires := t\<rparr>])"
    and "table_ok n (ls[i := (ls ! i)\<lparr>l_chaddr := blank_chaddr, l_expires := t\<rparr>])"
proof -
  have i: "i < n" "wf_lease (ls ! i)"
    using assms table_ok_nth [OF assms(1), of i] by (simp_all add: table_ok_def)
  note table_ok_update [OF assms(1) i(1)]
  with i(2) show "table_ok n (ls[i := (ls ! i)\<lparr>l_chaddr := blank_chaddr\<rparr>])"
    and "table_ok n (ls[i := (ls ! i)\<lparr>l_expires := t\<rparr>])"
    and "table_ok n (ls[i := (ls ! i)\<lparr>l_chaddr := blank_chaddr, l_expires := t\<rparr>])"
    by (simp_all add: wf_lease_def blank_chaddr_def)
qed

lemma handle_request_table_ok:
  assumes "handle_request env cfg statics ls p = Some (ls', out, r)" and "wf_optset (c_options cfg)"
    and "table_ok n ls" and "wf_msg p"
  shows "table_ok n ls'"
  using assms table_ok_change [OF assms(3)]
  by (auto simp: handle_request_def Let_def split: bind_splits if_splits option.splits
      dest!: sendNAK_reply(1) [OF assms(4)] dest: sendACK_table_ok find_lease_by_yiaddr_Some)

lemma handle_packet_table_ok:
  assumes "handle_packet env cfg statics ls p = Some (ls', out)"
    and "wf_optset (c_options cfg)" and "table_ok n ls" and "wf_msg p"
  shows "table_ok n ls'"
  using assms table_ok_change [OF assms(3)]
  by (auto simp: handle_packet_def Let_def split: bind_splits if_splits option.splits
      dest!: send_inform_reply(1) [OF assms(4,2)]
      dest: sendOffer_table_ok handle_request_table_ok find_lease_by_chaddr_Some)

text \<open>Reachable states of a server that was started on given files.\<close>

inductive server_reach :: "server_config_t \<Rightarrow> static_table \<Rightarrow> server_state \<Rightarrow> server_state \<Rightarrow> bool"
  for cfg statics st0 where
  start: "server_reach cfg statics st0 st0"
| step: "server_reach cfg statics st0 st \<Longrightarrow> server_step env cfg statics listen_ok st ev = Some (st', out) \<Longrightarrow>
    server_reach cfg statics st0 st'"

lemma server_step_table_ok:
  assumes "server_step env cfg statics lok st ev = Some (st', out)"
    and "wf_optset (c_options cfg)" and "table_ok n (sv_leases st)"
  shows "table_ok n (sv_leases st')"
proof (cases ev)
  case (Ev_datagram input eintr)
  show ?thesis
  proof (cases input)
    case None
    with Ev_datagram assms show ?thesis
      by (auto simp: server_step_def Let_def get_packet_def split: if_splits)
  next
    case (Some bs)
    with Ev_datagram assms show ?thesis
      using handle_packet_table_ok [OF _ assms(2)] get_packet_result [of bs]
      by (fastforce simp: server_step_def Let_def split: if_splits bind_splits)
  qed
qed (use assms in \<open>auto simp: server_step_def Let_def split: if_splits option.splits server_signal.splits\<close>)

lemma read_leases_loop_table_ok:
  "read_leases_loop cfg now i ls fp = Some ls' \<Longrightarrow> table_ok n ls \<Longrightarrow> table_ok n ls'"
proof (induction "length fp" arbitrary: fp i ls rule: less_induct)
  case less
  have c: "length (l_chaddr (lease_of_bytes (take sizeof_lease fp))) = 16" if "sizeof_lease \<le> length fp"
    using that by (simp add: lease_of_bytes_def fld_def)
  have IH: "read_leases_loop cfg now i' ls1 (drop sizeof_lease fp) = Some ls' \<Longrightarrow> table_ok n ls1 \<Longrightarrow>
      sizeof_lease \<le> length fp \<Longrightarrow> table_ok n ls'" for i' ls1
    by (rule less.hyps) simp_all
  from less.prems show ?case
    by (subst (asm) read_leases_loop.simps)
      (auto simp: Let_def c split: if_splits option.splits intro: IH dest!: add_lease_table_ok)
qed

lemma server_start_table_ok:
  assumes "server_start cfg0 now lf sf = Some (cfg, statics, st)"
  shows "table_ok (unat (c_max_leases cfg)) (sv_leases st)"
proof -
  have "table_ok n (replicate n zero_lease)" for n
    by (simp add: table_ok_def lease_inv_def uniq_def sorted_wrt_iff_nth_less list_all_length)
  with assms show ?thesis
    by (auto simp: server_start_def Let_def read_leases_def split: bind_splits option.splits
        intro: read_leases_loop_table_ok)
qed

lemma server_start_options:
  "server_start cfg0 now lf sf = Some (cfg, statics, st) \<Longrightarrow> c_options cfg = c_options cfg0"
  by (auto simp: server_start_def server_lease_time_def Let_def split: bind_splits option.splits)

end
