(* ===== verification/Dhcp_Server_Correct.thy ===== *)
theory Dhcp_Server_Correct
  imports Dhcp_Server
begin

section \<open>Correctness of the DHCP server\<close>

text \<open>
  The properties of the handlers of \<^verbatim>\<open>Dhcp_Server\<close>: on well-formed requests every handler
  returns (no access outside an array, no endless search), every reply answers its request, an
  acknowledged address belongs to nobody else, and an offer that was made is acknowledged when the
  client asks for it.
\<close>

subsection \<open>The handlers return\<close>

text \<open>Requests with a well-formed option area: the options that the server reads as an address or a
  time hold at least four bytes.\<close>

definition good_request :: "dhcpMessage \<Rightarrow> tlv list \<Rightarrow> bool" where
  "good_request p ts \<longleftrightarrow> wf_msg p \<and> msg_opts p ts \<and> no_overload ts \<and>
     (\<forall>c v. c \<in> {DHCP_REQUESTED_IP, DHCP_SERVER_ID, DHCP_LEASE_TIME} \<and> map_of ts c = Some v \<longrightarrow>
        4 \<le> length v) \<and>
     map_of ts DHCP_MESSAGE_TYPE \<noteq> Some []"

lemma good_request_u32:
  assumes "good_request p ts" and "c \<in> {DHCP_REQUESTED_IP, DHCP_SERVER_ID, DHCP_LEASE_TIME}"
  obtains (absent) "map_of ts c = None" "get_option p c = Some None"
    | (found) v op where "map_of ts c = Some v" "get_option p c = Some (Some op)"
      "opt_u32 p op = Some (le32_of (take 4 v))"
proof (cases "map_of ts c")
  case None
  moreover have "c \<noteq> DHCP_END"
    using assms(2) by auto
  ultimately show thesis
    using absent get_option_absent [of p ts c] assms(1) by (simp add: good_request_def)
next
  case (Some v)
  have "c \<noteq> DHCP_END" "4 \<le> length v"
    using assms Some by (auto simp: good_request_def)
  with Some assms(1) show thesis
    using get_option_u32 [of p ts c v] found unfolding good_request_def by metis
qed

text \<open>A range that does not end at the last address of all.\<close>

definition range_ok :: "server_config_t \<Rightarrow> bool" where
  "range_ok cfg \<longleftrightarrow> ntohl (c_end cfg) \<noteq> 0xffffffff"

lemma find_address_defined:
  assumes "range_ok cfg" and "table_ok n ls"
  obtains ls' y where "find_address cfg now arp lip statics ls ce = Some (ls', y)" and "table_ok n ls'"
  using find_address_loop_total [of cfg ls now arp lip statics ce "ntohl (c_start cfg)"] assms
  by (fastforce simp: find_address_def table_ok_def range_ok_def)

lemma find_any_address_defined:
  assumes "range_ok cfg" and "table_ok n ls"
  obtains ls' y where "find_any_address env cfg statics ls = Some (ls', y)" and "table_ok n ls'"
proof -
  obtain ls1 y1 where 1: "find_address cfg (e_now env) (e_arpping env) (e_local_ip env) statics ls False =
      Some (ls1, y1)" "table_ok n ls1"
    using find_address_defined [OF assms] .
  obtain ls2 y2 where "find_address cfg (e_now env) (e_arpping env) (e_local_ip env) statics ls1 True =
      Some (ls2, y2)" "table_ok n ls2"
    using find_address_defined [OF assms(1) 1(2)] .
  with 1 that show thesis
    by (cases "y1 = 0") (auto simp: find_any_address_def)
qed

lemma add_lease_ok:
  assumes "table_ok n ls" and "length c = 16" and "opt_name_len h < HOSTNAME_LEN"
  obtains ls' r where "add_lease now ls c y d h = Some (ls', r)" and "table_ok n ls'"
proof -
  have "list_all wf_lease ls"
    using assms(1) by (simp add: table_ok_def lease_inv_def)
  then obtain ls' r where r: "add_lease now ls c y d h = Some (ls', r)"
    using add_lease_defined [of ls h c now y d] assms(2,3) by auto
  with that show thesis
    using add_lease_table_ok [OF r assms(1)] assms(2) by simp
qed

lemma check_ip_defined:
  assumes "table_ok n ls"
  obtains ls' t where "check_ip cfg now arp ls a = Some (ls', t)" and "table_ok n ls'"
proof -
  have "lease_inv ls"
    using assms by (simp add: table_ok_def)
  then obtain ls' t where r: "check_ip cfg now arp ls a = Some (ls', t)"
    by (rule check_ip_cases)
  with that show thesis
    using check_ip_table_ok [OF r assms] by simp
qed

lemma offer_requested_defined:
  assumes "good_request p ts"
  obtains r where "offer_requested env cfg statics ls p = Some r"
  by (rule good_request_u32 [OF assms, of DHCP_REQUESTED_IP]) (auto simp: offer_requested_def that)

lemma offer_address_defined:
  assumes "good_request p ts" and "range_ok cfg" and "table_ok n ls"
  obtains ls' y t where "offer_address env cfg statics ls p = Some (ls', y, t)" and "table_ok n ls'"
proof -
  have "\<exists>ls' y t. offer_address env cfg statics ls p = Some (ls', y, t)"
  proof (cases "find_static_lease_by_chaddr statics (m_chaddr p) \<noteq> 0")
    case False
    obtain r where r: "offer_requested env cfg statics ls p = Some r"
      using offer_requested_defined [OF assms(1)] .
    obtain ls1 y1 where any: "find_any_address env cfg statics ls = Some (ls1, y1)"
      using find_any_address_defined [OF assms(2,3)] .
    show ?thesis
    proof (cases "find_lease_by_chaddr ls (m_chaddr p)")
      case (Some i)
      with False any show ?thesis by (simp add: offer_address_def Let_def)
    next
      case None
      show ?thesis
      proof (cases r)
        case (Some a)
        obtain ls2 t where c: "check_ip cfg (e_now env) (e_arpping env) ls a = Some (ls2, t)" "table_ok n ls2"
          using check_ip_defined [OF assms(3)] .
        obtain ls3 y3 where f: "find_address cfg (e_now env) (e_arpping env) (e_local_ip env) statics
            ls2 False = Some (ls3, y3)" "table_ok n ls3"
          using find_address_defined [OF assms(2) c(2)] .
        obtain ls4 y4 where "find_address cfg (e_now env) (e_arpping env) (e_local_ip env) statics
            ls3 True = Some (ls4, y4)"
          using find_address_defined [OF assms(2) f(2)] .
        with False None r Some c(1) f(1) show ?thesis by (simp add: offer_address_def)
      qed (use False None r any in \<open>simp add: offer_address_def\<close>)
    qed
  qed (simp add: offer_address_def)
  with that offer_address_table_ok [OF _ assms(3)] show thesis by blast
qed

text \<open>No twin IP is configured: the server only serves its own subnet.\<close>

definition no_twinip :: "server_env \<Rightarrow> bool" where
  "no_twinip env \<longleftrightarrow> (\<forall>w. e_real_ipclone env w = None)"

lemma no_twinip_check: "no_twinip env \<Longrightarrow> check_ipclone_ipaddr env c = (False, [])"
  by (simp add: no_twinip_def check_ipclone_ipaddr_def)

lemma asked_lease_time_defined:
  assumes "good_request p ts"
  obtains t' where "asked_lease_time cfg p t = Some t'"
  by (rule good_request_u32 [OF assms, of DHCP_LEASE_TIME]) (auto simp: asked_lease_time_def that)

lemma reply_with_options:
  assumes "reply_to cfg p t ts q" and "wf_optset (c_options cfg)"
  shows "\<exists>f g. \<forall>d. msg_add_simple (q\<lparr>m_yiaddr := y\<rparr>) DHCP_LEASE_TIME d = Some (f d) \<and>
    add_config_options env cfg None (f d) (c_options cfg) = Some (g d)"
proof -
  have "\<exists>q1 q2. msg_add_simple (q\<lparr>m_yiaddr := y\<rparr>) DHCP_LEASE_TIME d = Some q1 \<and>
      add_config_options env cfg None q1 (c_options cfg) = Some q2" for d
    using reply_add_simple [OF reply_yiaddr [OF assms(1), of y], of d]
      add_config_options_defined [OF _ optset_blocks [OF assms(2)]] by metis
  then show ?thesis by metis
qed

lemma sendOffer_defined:
  assumes "good_request p ts" and "range_ok cfg" and "wf_optset (c_options cfg)" and "table_ok n ls"
    and "no_twinip env"
  shows "sendOffer env cfg statics ls p \<noteq> None"
proof -
  have wf: "wf_msg p"
    using assms(1) by (simp add: good_request_def)
  obtain q where q: "init_packet cfg p DHCPOFFER = Some q" "reply_to cfg p DHCPOFFER [] q"
    using init_packet_reply [OF wf, of DHCPOFFER cfg] by auto
  obtain ls1 y t where o: "offer_address env cfg statics ls p = Some (ls1, y, t)" "table_ok n ls1"
    using offer_address_defined [OF assms(1,2,4)] .
  have c: "length (m_chaddr q) = 16"
    using wf_msg_chaddr [OF reply_wf [OF q(2)]] .
  obtain ls2 r where a: "add_lease (e_now env) ls1 (m_chaddr q) y (c_offer_time cfg) None = Some (ls2, r)"
    by (rule add_lease_ok [OF o(2) c, of None]) (simp_all add: opt_name_len_def)
  obtain t' where t': "asked_lease_time cfg p t = Some t'"
    using asked_lease_time_defined [OF assms(1)] .
  obtain f g where "\<forall>d. msg_add_simple (q\<lparr>m_yiaddr := y\<rparr>) DHCP_LEASE_TIME d = Some (f d) \<and>
    add_config_options env cfg None (f d) (c_options cfg) = Some (g d)"
    using reply_with_options [OF q(2) assms(3)] by blast
  with q(1) o(1) a t' no_twinip_check [OF assms(5)] show ?thesis
    by (simp add: sendOffer_def Let_def split: prod.splits)
qed

lemma c_string_padded: "length bs < n \<Longrightarrow> \<exists>h. c_string (bs @ replicate (n - length bs) 0) = Some h"
  by (simp add: c_string_def)

lemma ack_hostname_defined:
  assumes "good_request p ts"
  obtains h where "ack_hostname env p = Some h" and "length h < HOSTNAME_LEN"
proof -
  have p: "msg_opts p ts" "no_overload ts"
    using assms by (simp_all add: good_request_def)
  have "\<exists>h. ack_hostname env p = Some h"
  proof (cases "map_of ts DHCP_HOST_NAME")
    case None
    then show ?thesis
      using get_option_absent [OF p, of DHCP_HOST_NAME] by (simp add: ack_hostname_def c_string_def)
  next
    case (Some d)
    define n where "n = min (length d) (HOSTNAME_LEN - 1)"
    obtain op where op: "get_option p DHCP_HOST_NAME = Some (Some op)" "snd (snd op) = length d"
      "opt_data p op n = Some (take n d)"
      by (rule get_option_found [OF p _ Some]) (auto simp: n_def)
    have "length (take n d) < HOSTNAME_LEN"
      by (simp add: n_def min_def)
    then obtain h where "c_string (take n d @ replicate (HOSTNAME_LEN - length (take n d)) 0) = Some h"
      using c_string_padded by blast
    moreover have "min (length d) 23 = n"
      by (simp add: n_def)
    ultimately show ?thesis
      using op by (simp add: ack_hostname_def)
  qed
  with that ack_hostname_length show thesis by blast
qed

lemma ack_packet_defined:
  assumes "good_request p ts" and "wf_optset (c_options cfg)" and "no_twinip env"
  obtains q lt pre where "ack_packet env cfg p y = Some (q, lt, pre)"
proof -
  have "wf_msg p"
    using assms(1) by (simp add: good_request_def)
  then obtain q where q: "init_packet cfg p DHCPACK = Some q" "reply_to cfg p DHCPACK [] q"
    using init_packet_reply [of p DHCPACK cfg] by auto
  obtain f g where "\<forall>d. msg_add_simple (q\<lparr>m_yiaddr := y\<rparr>) DHCP_LEASE_TIME d = Some (f d) \<and>
    add_config_options env cfg None (f d) (c_options cfg) = Some (g d)"
    using reply_with_options [OF q(2) assms(2)] by blast
  with q(1) no_twinip_check [OF assms(3)] have "\<exists>r. ack_packet env cfg p y = Some r"
    by - (rule good_request_u32 [OF assms(1), of DHCP_LEASE_TIME], simp_all add: ack_packet_def Let_def)
  with that show thesis by auto
qed

lemma sendACK_defined:
  assumes "good_request p ts" and "wf_optset (c_options cfg)" and "no_twinip env" and "table_ok n ls"
  obtains ls' out r where "sendACK env cfg ls p y = Some (ls', out, r)"
proof -
  obtain q lt pre where a: "ack_packet env cfg p y = Some (q, lt, pre)"
    using ack_packet_defined [OF assms(1-3)] .
  obtain h where h: "ack_hostname env p = Some h" "length h < HOSTNAME_LEN"
    using ack_hostname_defined [OF assms(1)] .
  have "wf_msg p"
    using assms(1) by (simp add: good_request_def)
  then have c: "length (m_chaddr q) = 16"
    using ack_packet_reply [OF _ assms(2) a] wf_msg_chaddr reply_wf by metis
  obtain ls' r where "add_lease (e_now env) ls (m_chaddr q) y lt (Some h) = Some (ls', r)"
    by (rule add_lease_ok [OF assms(4) c, of "Some h"]) (use h(2) in \<open>simp_all add: opt_name_len_def\<close>)
  with a h(1) have "sendACK env cfg ls p y \<noteq> None"
    by (cases "send_packet env cfg q False") (simp add: sendACK_def)
  with that show thesis by auto
qed

lemma sendNAK_defined:
  assumes "wf_msg p"
  obtains out r where "sendNAK env cfg ls p = Some (ls, out, r)"
proof -
  obtain q where "init_packet cfg p DHCPNAK = Some q"
    using init_packet_reply [OF assms, of DHCPNAK cfg] by auto
  with that show thesis
    by (cases "send_packet env cfg q True") (simp add: sendNAK_def)
qed

lemma send_inform_defined:
  assumes "wf_msg p" and "wf_optset (c_options cfg)"
  obtains out r where "send_inform env cfg ls p = Some (ls, out, r)"
proof -
  obtain q where q: "init_packet cfg p DHCPACK = Some q" "reply_to cfg p DHCPACK [] q"
    using init_packet_reply [OF assms(1), of DHCPACK cfg] by auto
  obtain q1 where "add_config_options env cfg None q (c_options cfg) = Some q1"
    using add_config_options_defined [OF q(2) optset_blocks [OF assms(2)]] by blast
  with q(1) that show thesis
    by (cases "send_packet env cfg (add_bootp_options cfg q1) False") (simp add: send_inform_def)
qed

text \<open>What the REQUEST handler reads from the packet.\<close>

lemma request_u32_value:
  assumes "good_request p ts" and "c \<in> {DHCP_REQUESTED_IP, DHCP_SERVER_ID}"
  shows "request_u32 p c = Some (map_option (\<lambda>v. le32_of (take 4 v)) (map_of ts c))"
  by (rule good_request_u32 [OF assms(1), of c]) (use assms(2) in \<open>auto simp: request_u32_def\<close>)

lemma handle_request_defined:
  assumes "good_request p ts" and "wf_optset (c_options cfg)" and "no_twinip env" and "table_ok n ls"
  shows "handle_request env cfg statics ls p \<noteq> None"
proof -
  have "wf_msg p"
    using assms(1) by (simp add: good_request_def)
  then have "sendNAK env cfg ls p \<noteq> None"
    using sendNAK_defined [of p env cfg ls] by fastforce
  moreover have "sendACK env cfg ls p y \<noteq> None" for y
    using sendACK_defined [OF assms] by blast
  ultimately show ?thesis
    using request_u32_value [OF assms(1)] by (simp add: handle_request_def Let_def split: option.split)
qed

lemma good_request_type:
  assumes "good_request p ts"
  obtains (absent) "map_of ts DHCP_MESSAGE_TYPE = None" "get_option p DHCP_MESSAGE_TYPE = Some None"
    | (found) t v op where "map_of ts DHCP_MESSAGE_TYPE = Some (t # v)"
      "get_option p DHCP_MESSAGE_TYPE = Some (Some op)" "opt_byte p op = Some t"
proof -
  have p: "msg_opts p ts" "no_overload ts" "map_of ts DHCP_MESSAGE_TYPE \<noteq> Some []"
    using assms by (simp_all add: good_request_def)
  show thesis
  proof (cases "map_of ts DHCP_MESSAGE_TYPE")
    case None
    with absent get_option_absent [OF p(1,2), of DHCP_MESSAGE_TYPE] show thesis by simp
  next
    case (Some d)
    then obtain t v where d: "d = t # v"
      using p(3) by (cases d) auto
    obtain op where "get_option p DHCP_MESSAGE_TYPE = Some (Some op)" "opt_byte p op = Some t"
      by (rule get_option_found [OF p(1,2) _ Some]) (auto simp: d)
    with found Some d show thesis by simp
  qed
qed

lemma handle_packet_defined:
  assumes "good_request p ts" and "range_ok cfg" and "wf_optset (c_options cfg)" and "no_twinip env"
    and "table_ok n ls"
  shows "\<exists>ls' out. handle_packet env cfg statics ls p = Some (ls', out)"
proof -
  have "wf_msg p"
    using assms(1) by (simp add: good_request_def)
  then obtain ls1 out1 r1 ls2 out2 r2 ls3 out3 r3 where
    "send_inform env cfg ls p = Some (ls1, out1, r1)"
    "sendOffer env cfg statics ls p = Some (ls2, out2, r2)"
    "handle_request env cfg statics ls p = Some (ls3, out3, r3)"
    using send_inform_defined [OF _ assms(3), of p env ls] sendOffer_defined [OF assms(1-3,5,4), of statics]
      handle_request_defined [OF assms(1,3,4,5), of statics] by (metis option.exhaust prod_cases3)
  then show ?thesis
    by (cases rule: good_request_type [OF assms(1)]) (simp_all add: handle_packet_def Let_def)
qed

subsection \<open>Replies reach the network\<close>

definition sock_ok :: "sock_env \<Rightarrow> bool" where
  "sock_ok so \<longleftrightarrow> 0 \<le> so_socket so \<and> 0 \<le> so_bind so \<and> 0 \<le> so_send so"

lemma send_packet_sends:
  assumes "sock_ok (e_sock env)" and "m_giaddr q = 0" and "wf_msg q"
  obtains r n where "send_packet env cfg q fb = (r, [Out_net n])" and "0 \<le> r" and "net_msg n = q"
proof -
  obtain r n where r: "send_packet env cfg q fb = (r, [Out_net n])" "0 \<le> r"
    using assms(1,2)
    by (cases "arp_checked_dest env q (client_dest q fb)")
      (auto simp: send_packet_def send_packet_to_client_def raw_packet_def sock_ok_def)
  with that send_packet_msg [OF assms(3) r(1), of n] show thesis by simp
qed

lemma sendOffer_sends:
  assumes "good_request p ts" and "wf_optset (c_options cfg)" and "no_twinip env"
    and "offer_address env cfg statics ls p = Some (ls1, y, t)" and "y \<noteq> 0"
    and "add_lease (e_now env) ls1 (m_chaddr p) y (c_offer_time cfg) None = Some (ls2, Some i)"
    and "e_dhcpd_op env" and "sock_ok (e_sock env)" and "m_giaddr p = 0"
  obtains n r where "sendOffer env cfg statics ls p = Some (ls2, [Out_syslog_flag 1, Out_net n], r)"
    and "m_yiaddr (net_msg n) = y"
proof -
  have "wf_msg p"
    using assms(1) by (simp add: good_request_def)
  then obtain q where q: "init_packet cfg p DHCPOFFER = Some q" "reply_to cfg p DHCPOFFER [] q"
    using init_packet_reply [of p DHCPOFFER cfg] by auto
  obtain t' where t': "asked_lease_time cfg p t = Some t'"
    using asked_lease_time_defined [OF assms(1)] .
  define d where "d = htonl (if t' < c_min_lease cfg then c_lease cfg else t')"
  obtain q1 ts1 where q1: "msg_add_simple (q\<lparr>m_yiaddr := y\<rparr>) DHCP_LEASE_TIME d = Some q1"
    "reply_to cfg p DHCPOFFER ts1 q1" "m_yiaddr q1 = y"
    using reply_add_simple [OF reply_yiaddr [OF q(2), of y], of d] by auto
  obtain q2 where q2: "add_config_options env cfg None q1 (c_options cfg) = Some q2"
    using add_config_options_defined [OF q1(2) optset_blocks [OF assms(2)]] by blast
  obtain ts2 where r: "reply_to cfg p DHCPOFFER ts2 (add_bootp_options cfg q2)"
    "m_yiaddr (add_bootp_options cfg q2) = y"
    using reply_options [OF q1(2) assms(2) q2] q1(3) by auto
  have g: "m_giaddr (add_bootp_options cfg q2) = 0" "m_chaddr q = m_chaddr p"
    using r(1) q(2) assms(9) by (simp_all add: reply_to_def)
  obtain r' n where n: "send_packet env cfg (add_bootp_options cfg q2) False = (r', [Out_net n])"
    "net_msg n = add_bootp_options cfg q2"
    using send_packet_sends [OF assms(8) g(1) reply_wf [OF r(1)]] by metis
  have "sendOffer env cfg statics ls p = Some (ls2, [Out_syslog_flag 1, Out_net n], r')"
    using q(1) q1(1) q2 n(1) t' g(2) assms(4-7) no_twinip_check [OF assms(3)]
    by (simp add: sendOffer_def Let_def d_def)
  with that n(2) r(2) show thesis by simp
qed

lemma sendACK_sends:
  assumes "good_request p ts" and "wf_optset (c_options cfg)" and "no_twinip env" and "table_ok n ls"
    and "sock_ok (e_sock env)" and "m_giaddr p = 0"
  obtains ls' out r m lt h j where "sendACK env cfg ls p y = Some (ls', out, r)" and "Out_net m \<in> set out"
    and "m_yiaddr (net_msg m) = y"
    and "add_lease (e_now env) ls (m_chaddr p) y lt (Some h) = Some (ls', j)"
proof -
  have wf: "wf_msg p"
    using assms(1) by (simp add: good_request_def)
  obtain q lt pre where a: "ack_packet env cfg p y = Some (q, lt, pre)"
    using ack_packet_defined [OF assms(1-3)] .
  obtain h where h: "ack_hostname env p = Some h" "length h < HOSTNAME_LEN"
    using ack_hostname_defined [OF assms(1)] .
  obtain ts' where q: "reply_to cfg p DHCPACK ts' q" "m_yiaddr q = y"
    using ack_packet_reply [OF wf assms(2) a] by auto
  then have g: "m_giaddr q = 0" "m_chaddr q = m_chaddr p"
    using assms(6) by (simp_all add: reply_to_def)
  obtain r m where m: "send_packet env cfg q False = (r, [Out_net m])" "0 \<le> r" "net_msg m = q"
    using send_packet_sends [OF assms(5) g(1) reply_wf [OF q(1)]] by metis
  obtain ls' j where l: "add_lease (e_now env) ls (m_chaddr p) y lt (Some h) = Some (ls', j)"
    by (rule add_lease_ok [OF assms(4) wf_msg_chaddr [OF wf], of "Some h"])
      (use h(2) in \<open>simp_all add: opt_name_len_def\<close>)
  define out where "out = pre @ [Out_net m] @
    (if e_access_policy env then [Out_access_add (m_chaddr p) y] else [])"
  have "sendACK env cfg ls p y = Some (ls', out, 0)"
    using a m(1,2) h(1) l g(2) by (simp add: sendACK_def out_def)
  with that [of ls' out 0 m lt h j] show thesis
    by (simp add: out_def m(3) q(2) l)
qed

lemma discover_offer:
  assumes "good_request d ds" and "map_of ds DHCP_MESSAGE_TYPE = Some [DHCPDISCOVER]"
    and "handle_packet env cfg statics ls d = Some (ls', out)" and "Out_net n \<in> set out"
  obtains out' r where "sendOffer env cfg statics ls d = Some (ls', out', r)" and "Out_net n \<in> set out'"
proof (rule good_request_type [OF assms(1)])
  fix t v op
  assume "map_of ds DHCP_MESSAGE_TYPE = Some (t # v)" "get_option d DHCP_MESSAGE_TYPE = Some (Some op)"
    "opt_byte d op = Some t"
  with assms(2-4) that show thesis
    by (auto simp: handle_packet_def Let_def split: bind_splits)
qed (use assms(2) in simp)

text \<open>A table in which the client already holds the address always has room for its renewal.\<close>

lemma add_lease_renews:
  assumes "add_lease now ls c y d h = Some (ls', r)" and "16 \<le> length c"
    and "find_lease_by_chaddr ls c = Some i" and "take 16 c \<noteq> blank_chaddr" and "0 < now"
  obtains j where "r = Some j"
proof -
  have i: "i < length ls" "hit c y (ls ! i)"
    using find_lease_by_chaddr_Some [OF assms(3)] assms(4) by (auto simp: hit_def)
  then have "clear_lease ls c y ! i = zero_lease"
    using assms(2) by (simp add: clear_lease_nth)
  then have "zero_lease \<in> set (clear_lease ls c y)"
    using i(1) by (metis clear_lease_length nth_mem)
  moreover have "lease_expired now zero_lease"
    using assms(5) by (simp add: lease_expired_def)
  ultimately show thesis
    using that by - (rule add_lease_cases [OF assms(1)], auto)
qed

text \<open>The branch of the REQUEST handler for a client that accepts the server's offer.\<close>

lemma request_acked:
  assumes "good_request p ts" and "map_of ts DHCP_MESSAGE_TYPE = Some [DHCPREQUEST]"
    and "map_of ts DHCP_REQUESTED_IP = Some (bytes_le32 y)"
    and "map_of ts DHCP_SERVER_ID = Some (bytes_le32 (c_server cfg))"
    and "find_lease_by_chaddr ls (m_chaddr p) = Some i" and "l_yiaddr (ls ! i) = y"
    and "no_twinip env" and "\<not> outside_subnet cfg y"
    and "sendACK env cfg ls p y = Some (ls', out, r)"
  shows "handle_packet env cfg statics ls p =
    Some (ls', out @ [Out_lease_file (write_leases cfg (e_now env) ls')])"
proof -
  have "handle_request env cfg statics ls p = Some (ls', out, r)"
    using request_u32_value [OF assms(1)] assms(3-9) no_twinip_check [OF assms(7)]
    by (simp add: handle_request_def)
  then show ?thesis
    using assms(2) by (cases rule: good_request_type [OF assms(1)])
      (simp_all add: handle_packet_def)
qed

subsection \<open>A sample exchange\<close>

definition sample_env :: server_env where
  "sample_env = \<lparr>e_now = 100, e_arpping = (\<lambda>_. 1), e_local_ip = htonl 0xc0a80001,
     e_sock = \<lparr>so_socket = 3, so_setsockopt = 0, so_bind = 0, so_connect = 0, so_send = 576\<rparr>,
     e_proc_arp = None, e_stale_hwaddr = [], e_strtomac = (\<lambda>_. []), e_real_ipclone = (\<lambda>_. None),
     e_twinip_leasetime = (\<lambda>_. None), e_wan_type = (\<lambda>_. []), e_if_wan = [], e_if_wan2 = [],
     e_wan_hw_ifname = (\<lambda>_. []), e_gateway = (\<lambda>_. 0), e_if_netmask = (\<lambda>_. 0), e_dhcpd_op = True,
     e_unpermitted = (\<lambda>_. False), e_syslog_flag = False, e_access_policy = True,
     e_auto_detect = False\<rparr>"

definition sample_req :: "tlv list \<Rightarrow> dhcpMessage" where
  "sample_req ts = zero_msg\<lparr>m_chaddr := replicate 16 1,
     m_options := enc_tlvs ts @ DHCP_END # replicate (307 - length (enc_tlvs ts)) 0\<rparr>"

abbreviation (input) discover_opts :: "tlv list" where
  "discover_opts \<equiv> [(DHCP_MESSAGE_TYPE, [DHCPDISCOVER])]"

abbreviation (input) request_opts :: "u32 \<Rightarrow> tlv list" where
  "request_opts y \<equiv> [(DHCP_MESSAGE_TYPE, [DHCPREQUEST]), (DHCP_REQUESTED_IP, bytes_le32 y),
     (DHCP_SERVER_ID, bytes_le32 (c_server sample_cfg))]"

lemma sample_req_sel [simp]:
  "m_chaddr (sample_req ts) = replicate 16 1" "m_giaddr (sample_req ts) = 0"
  by (simp_all add: sample_req_def zero_msg_def)

lemma sample_req_good:
  assumes "list_all wf_tlv ts" and "length (enc_tlvs ts) \<le> 307" and "no_overload ts"
    and "\<forall>c v. c \<in> {DHCP_REQUESTED_IP, DHCP_SERVER_ID, DHCP_LEASE_TIME} \<and> map_of ts c = Some v \<longrightarrow>
      4 \<le> length v"
    and "map_of ts DHCP_MESSAGE_TYPE \<noteq> Some []"
  shows "good_request (sample_req ts) ts"
  using assms
  by (simp add: good_request_def sample_req_def wf_msg_def zero_msg_def msg_opts_def opt_area_def)

lemma sample_discover_good: "good_request (sample_req discover_opts) discover_opts"
  by (rule sample_req_good) (auto simp: wf_tlv_def no_overload_def)

lemma sample_request_good: "good_request (sample_req (request_opts y)) (request_opts y)"
  by (rule sample_req_good) (auto simp: wf_tlv_def no_overload_def)

lemma sample_env_ok: "no_twinip sample_env" "sock_ok (e_sock sample_env)" "e_now sample_env = 100"
  "e_dhcpd_op sample_env"
  by (simp_all add: sample_env_def no_twinip_def sock_ok_def)

lemma sample_cfg_ok: "ntohl (c_end sample_cfg) \<noteq> 0xffffffff" "wf_optset (c_options sample_cfg)"
  by (simp_all add: sample_cfg_def wf_optset_def)

lemma sample_inv: "lease_inv [zero_lease]"
  by (simp add: lease_inv_def uniq_def)

text \<open>The client with a static lease of 192.168.0.5 asks for an address and accepts the offer.\<close>

abbreviation (input) sample_ip :: u32 where "sample_ip \<equiv> htonl 0xc0a80005"

definition sample_statics :: static_table where
  "sample_statics = [zero_static\<lparr>s_chaddr := replicate 16 1, s_yiaddr := sample_ip\<rparr>]"

definition sample_leases :: lease_table where
  "sample_leases = [zero_lease\<lparr>l_chaddr := replicate 16 1, l_yiaddr := sample_ip, l_expires := 160\<rparr>]"

lemma sample_leases_inv: "lease_inv sample_leases" "0 < length sample_leases"
  "l_yiaddr (sample_leases ! 0) = sample_ip" "l_chaddr (sample_leases ! 0) = replicate 16 1"
  by (simp_all add: sample_leases_def lease_inv_def uniq_def wf_lease_def zero_lease_def)

lemma sample_offer:
  obtains n where "handle_packet sample_env sample_cfg sample_statics [zero_lease] (sample_req discover_opts) =
      Some (sample_leases, [Out_syslog_flag 1, Out_net n,
        Out_lease_file (write_leases sample_cfg (e_now sample_env) sample_leases)])"
    and "m_yiaddr (net_msg n) = sample_ip"
proof -
  let ?p = "sample_req discover_opts"
  have o: "offer_address sample_env sample_cfg sample_statics [zero_lease] ?p =
      Some ([zero_lease], sample_ip, c_lease sample_cfg)"
    by (simp add: offer_address_def find_static_lease_by_chaddr_def sample_statics_def)
  have a: "add_lease (e_now sample_env) [zero_lease] (m_chaddr ?p) sample_ip (c_offer_time sample_cfg) None =
      Some (sample_leases, Some 0)"
    by (simp add: add_lease_def clear_lease_def oldest_expired_lease_def strcpy_to_def wr_def
        zero_lease_def blank_chaddr_def Let_def sample_env_def sample_cfg_def sample_leases_def
        flip: replicate_Suc)
  obtain n r where n: "sendOffer sample_env sample_cfg sample_statics [zero_lease] ?p =
      Some (sample_leases, [Out_syslog_flag 1, Out_net n], r)" "m_yiaddr (net_msg n) = sample_ip"
    by (rule sendOffer_sends [OF sample_discover_good sample_cfg_ok(2) sample_env_ok(1) o _ a])
      (simp_all add: sample_env_ok)
  show thesis
    by (rule that [OF _ n(2)], rule good_request_type [OF sample_discover_good])
      (simp_all add: handle_packet_def n(1))
qed

lemma sample_ack:
  obtains ls' out m ts where "handle_packet sample_env sample_cfg sample_statics sample_leases
      (sample_req (request_opts sample_ip)) = Some (ls', out)" and "Out_net m \<in> set out"
    and "m_yiaddr (net_msg m) = sample_ip"
    and "reply_to sample_cfg (sample_req (request_opts sample_ip)) DHCPACK ts (net_msg m)"
proof -
  let ?p = "sample_req (request_opts sample_ip)"
  have t: "table_ok 1 sample_leases"
    using sample_leases_inv(1) by (simp add: table_ok_def sample_leases_def)
  obtain ls' out r m lt h j where k: "sendACK sample_env sample_cfg sample_leases ?p sample_ip = Some (ls', out, r)"
    "Out_net m \<in> set out" "m_yiaddr (net_msg m) = sample_ip"
    by (rule sendACK_sends [OF sample_request_good [of sample_ip] sample_cfg_ok(2) sample_env_ok(1) t sample_env_ok(2)])
      simp_all
  have "wf_msg ?p"
    using sample_request_good [of sample_ip] by (simp add: good_request_def)
  then obtain ts where "reply_to sample_cfg ?p DHCPACK ts (net_msg m)"
    using sendACK_reply [OF _ sample_cfg_ok(2) k(1,2)] by blast
  moreover have "handle_packet sample_env sample_cfg sample_statics sample_leases ?p =
      Some (ls', out @ [Out_lease_file (write_leases sample_cfg (e_now sample_env) ls')])"
    by (rule request_acked [where i = 0, OF sample_request_good [of sample_ip] _ _ _ _ _ sample_env_ok(1) _ k(1)])
      (simp_all add: sample_leases_def find_lease_by_chaddr_def outside_subnet_def sample_cfg_def)
  ultimately show thesis
    using that k(2,3) by simp
qed

lemma handle_request_reply:
  assumes "wf_msg p" and "wf_optset (c_options cfg)" and "lease_inv ls"
    and "handle_request env cfg statics ls p = Some (ls', out, r)" and "Out_net n \<in> set out"
  shows "(\<exists>ts. reply_to cfg p DHCPNAK ts (net_msg n)) \<and> m_yiaddr (net_msg n) = 0 \<or>
    (\<exists>ts y. reply_to cfg p DHCPACK ts (net_msg n) \<and> m_yiaddr (net_msg n) = y \<and>
      (find_lease_by_yiaddr ls y = None \<or>
       (\<exists>i. find_lease_by_chaddr ls (m_chaddr p) = Some i \<and> l_yiaddr (ls ! i) = y)))"
proof -
  have nak: "(\<exists>ts. reply_to cfg p DHCPNAK ts (net_msg n)) \<and> m_yiaddr (net_msg n) = 0"
    if "sendNAK env cfg ls p = Some (ls', out, r)"
    using sendNAK_reply(2) [OF assms(1) that assms(5)] by blast
  have ack: "\<exists>ts. reply_to cfg p DHCPACK ts (net_msg n) \<and> m_yiaddr (net_msg n) = y"
    if "sendACK env cfg ls p y = Some (ls', out, r)" for y
    using sendACK_reply [OF assms(1,2) that assms(5)] .
  obtain req sid where "request_u32 p DHCP_REQUESTED_IP = Some req" "request_u32 p DHCP_SERVER_ID = Some sid"
    using assms(4) by (auto simp: handle_request_def split: bind_splits)
  with assms(4,5) consider "sendNAK env cfg ls p = Some (ls', out, r)"
    | y where "sendACK env cfg ls p y = Some (ls', out, r)" "find_lease_by_yiaddr ls y = None"
    | i y where "sendACK env cfg ls p y = Some (ls', out, r)"
      "find_lease_by_chaddr ls (m_chaddr p) = Some i" "l_yiaddr (ls ! i) = y"
    by (auto simp: handle_request_def Let_def split: if_splits option.splits)
  then show ?thesis
    by cases (use nak ack in blast)+
qed

text \<open>The replies of one round, with their provenance.\<close>

lemma handle_packet_reply:
  assumes "wf_msg p" and "wf_optset (c_options cfg)" and "lease_inv ls"
    and "handle_packet env cfg statics ls p = Some (ls', out)" and "Out_net n \<in> set out"
  obtains (offer) out' r where "sendOffer env cfg statics ls p = Some (ls', out', r)" "Out_net n \<in> set out'"
    | (request) out' r where "handle_request env cfg statics ls p = Some (ls', out', r)" "Out_net n \<in> set out'"
    | (inform) out' r where "send_inform env cfg ls p = Some (ls', out', r)" "Out_net n \<in> set out'"
  using assms(4,5) that
  by (auto simp: handle_packet_def Let_def split: bind_splits if_splits option.splits)

lemma send_inform_yiaddr:
  assumes "wf_msg p" and "wf_optset (c_options cfg)" and "send_inform env cfg ls p = Some (ls', out, r)"
    and "Out_net n \<in> set out"
  shows "m_yiaddr (net_msg n) = 0"
proof -
  obtain q where q: "init_packet cfg p DHCPACK = Some q" "reply_to cfg p DHCPACK [] q" "m_yiaddr q = 0"
    using init_packet_reply [OF assms(1), of DHCPACK cfg] by auto
  then show ?thesis
    using assms(3,4) reply_sent [OF q(2) assms(2), of env None]
    by (fastforce simp: send_inform_def split: bind_splits prod.splits)
qed

lemma reply_type_unique:
  assumes "reply_to cfg p t ts q" and "reply_to cfg p t' ts' q"
  shows "t = t'"
proof -
  have "m_options q ! 2 = x" if "reply_to cfg p x us q" for x us
    using that by (auto simp: reply_to_def msg_opts_def enc_tlv_def elim!: opt_areaE)
  with assms show ?thesis by metis
qed

lemma uniq_owner:
  assumes "lease_inv ls" and "i < length ls" and "j < length ls" and "l_yiaddr (ls ! i) = l_yiaddr (ls ! j)"
    and "l_yiaddr (ls ! i) \<noteq> 0"
  shows "i = j"
  using assms unfolding lease_inv_def uniq_nth by (metis nat_neq_iff)

subsection \<open>The properties of the server\<close>

text \<open>C1: From any configuration file, read into the zeroed configuration record, and any contents of
  the lease files, every state that the server's main loop reaches, whatever datagrams, signals and
  errors arrive and whatever the clock and ARP probes answer, has a lease table of the configured
  size in which no address is leased twice and no client holds two leases.  The address, index,
  hardware address and netmask of the interface are arbitrary.  The steps are those that return:
  a handler that runs into a memory error or an endless search has no next state.\<close>

theorem server_invariant:
  assumes "c_options zeroed = []"
    and "server_start ((snd (read_config g il ml file zeroed))\<lparr>c_server := a, c_ifindex := k, c_arp := m,
           c_sys_netmask := w\<rparr>) now lease_file static_file = Some (cfg, statics, st0)"
    and "server_reach cfg statics st0 st"
  shows "lease_inv (sv_leases st) \<and> length (sv_leases st) = unat (c_max_leases cfg)"
proof -
  have wf: "wf_optset (c_options cfg)"
    using server_start_options [OF assms(2)] read_config_wf [of zeroed] assms(1)
    by (simp add: wf_optset_def)
  have "table_ok (unat (c_max_leases cfg)) (sv_leases st)"
    using assms(3)
  proof induction
    case start
    show ?case using server_start_table_ok [OF assms(2)] .
  next
    case (step st env listen_ok ev st' out)
    then show ?case
      using server_step_table_ok [OF step.hyps(2) wf] by simp
  qed
  then show ?thesis by (simp add: table_ok_def)
qed

text \<open>C6: On a request with a well-formed option area (no overload option, at least four bytes in the
  address and time options, a nonempty message type), a consistent lease table, a configured
  option list as \<open>read_config\<close> builds it, an address range that does not end at 255.255.255.255, and
  no twin-IP setting, the packet handler returns: no access leaves an array and no search runs
  forever, and the table stays consistent and keeps its size.\<close>

theorem handle_packet_total:
  assumes "good_request p ts" and "lease_inv ls" and "ntohl (c_end cfg) \<noteq> 0xffffffff"
    and "wf_optset (c_options cfg)" and "no_twinip env"
  shows "\<exists>ls' out. handle_packet env cfg statics ls p = Some (ls', out) \<and> lease_inv ls' \<and>
    length ls' = length ls"
proof -
  have t: "range_ok cfg" "table_ok (length ls) ls" "wf_msg p"
    using assms by (simp_all add: range_ok_def table_ok_def good_request_def)
  obtain ls' out where r: "handle_packet env cfg statics ls p = Some (ls', out)"
    using handle_packet_defined [OF assms(1) t(1) assms(4,5) t(2)] by blast
  with handle_packet_table_ok [OF r assms(4) t(2,3)] show ?thesis
    by (simp add: table_ok_def)
qed

theorem handle_packet_total_witness:
  "\<exists>ls' out. handle_packet sample_env sample_cfg [] [zero_lease] (sample_req discover_opts) =
     Some (ls', out) \<and> lease_inv ls' \<and> length ls' = length [zero_lease]"
  using handle_packet_total [OF sample_discover_good sample_inv sample_cfg_ok sample_env_ok(1), of "[]"] .

theorem server_invariant_witness:
  "\<exists>cfg statics st0 st. server_start ((snd (read_config (\<lambda>_. None) (str ''br0'') (dec 2) (Some []) sample_cfg))\<lparr>
       c_server := 1, c_ifindex := 2, c_arp := replicate 6 2, c_sys_netmask := 0xffffff00\<rparr>) 100 None None =
       Some (cfg, statics, st0) \<and>
     server_reach cfg statics st0 st \<and> st \<noteq> st0 \<and>
     lease_inv (sv_leases st) \<and> length (sv_leases st) = unat (c_max_leases cfg)"
proof -
  let ?c0 = "(snd (read_config (\<lambda>_. None) (str ''br0'') (dec 2) (Some []) sample_cfg))\<lparr>
       c_server := 1, c_ifindex := 2, c_arp := replicate 6 2, c_sys_netmask := 0xffffff00\<rparr>"
  let ?cfg = "?c0\<lparr>c_lease := LEASE_TIME\<rparr>"
  let ?st = "\<lparr>sv_leases = replicate 2 zero_lease, sv_timeout_end = 130, sv_socket = False, sv_exited = False\<rparr>"
  let ?ss = "replicate 200 zero_static"
  have z: "c_options sample_cfg = []"
    by (simp add: sample_cfg_def)
  have s: "server_start ?c0 100 None None = Some (?cfg, ?ss, ?st)"
    by (simp add: read_config_defaults server_start_def server_lease_time_def find_option_def read_leases_def
        read_static_leases_def z)
  have "server_step sample_env ?cfg ?ss True ?st (Ev_signal (Some SIGTERM)) =
      Some (?st\<lparr>sv_socket := True, sv_exited := True\<rparr>, [])"
    by (simp add: server_step_def Let_def)
  from server_reach.step [OF server_reach.start this]
  have r: "server_reach ?cfg ?ss ?st (?st\<lparr>sv_socket := True, sv_exited := True\<rparr>)" .
  show ?thesis
    using server_invariant [OF z s r] s r by (intro exI conjI) auto
qed

text \<open>C12: Every packet that the server sends for a request is an OFFER, an ACK or a NAK that
  repeats the request's transaction id, client, flags and relay, with the message type and the
  server's identifier as its first options in a well-formed option area.\<close>

theorem handle_packet_replies:
  assumes "wf_msg p" and "wf_optset (c_options cfg)" and "lease_inv ls"
    and "handle_packet env cfg statics ls p = Some (ls', out)" and "Out_net n \<in> set out"
  shows "\<exists>t ts. t \<in> {DHCPOFFER, DHCPACK, DHCPNAK} \<and> reply_to cfg p t ts (net_msg n)"
proof (rule handle_packet_reply [OF assms])
  fix out' r
  assume "sendOffer env cfg statics ls p = Some (ls', out', r)" and "Out_net n \<in> set out'"
  then show ?thesis
    by (rule sendOffer_spec [OF assms(1,2)]) auto
next
  fix out' r
  assume "handle_request env cfg statics ls p = Some (ls', out', r)" and "Out_net n \<in> set out'"
  from handle_request_reply [OF assms(1-3) this] show ?thesis by auto
next
  fix out' r
  assume "send_inform env cfg ls p = Some (ls', out', r)" and "Out_net n \<in> set out'"
  from send_inform_reply(2) [OF assms(1,2) this] show ?thesis by auto
qed

text \<open>C7: An ACK never gives away an address that another client holds: when the server acknowledges
  an address, every entry of its table with this address belongs to the client.\<close>

theorem ack_exclusive:
  assumes "wf_msg p" and "wf_optset (c_options cfg)" and "lease_inv ls"
    and "handle_packet env cfg statics ls p = Some (ls', out)" and "Out_net n \<in> set out"
    and "reply_to cfg p DHCPACK ts (net_msg n)" and "m_yiaddr (net_msg n) \<noteq> 0"
    and "i < length ls" and "l_yiaddr (ls ! i) = m_yiaddr (net_msg n)"
  shows "l_chaddr (ls ! i) = m_chaddr p"
proof (rule handle_packet_reply [OF assms(1-5)])
  have c: "take 16 (m_chaddr p) = m_chaddr p"
    using wf_msg_chaddr [OF assms(1)] by simp
  fix out' r
  assume "handle_request env cfg statics ls p = Some (ls', out', r)" and "Out_net n \<in> set out'"
  from handle_request_reply [OF assms(1-3) this]
  consider "find_lease_by_yiaddr ls (m_yiaddr (net_msg n)) = None"
    | j where "find_lease_by_chaddr ls (m_chaddr p) = Some j" "l_yiaddr (ls ! j) = m_yiaddr (net_msg n)"
    using assms(7) by auto
  then show ?thesis
  proof cases
    case 1
    with assms(8,9) show ?thesis by (simp add: find_by_yiaddr_None)
  next
    case (2 j)
    then have j: "j < length ls" "l_chaddr (ls ! j) = m_chaddr p"
      using find_lease_by_chaddr_Some c by metis+
    with uniq_owner [OF assms(3,8) j(1)] 2(2) assms(7,9) show ?thesis by simp
  qed
next
  fix out' r
  assume "sendOffer env cfg statics ls p = Some (ls', out', r)" and "Out_net n \<in> set out'"
  then obtain ts' where "reply_to cfg p DHCPOFFER ts' (net_msg n)"
    by (rule sendOffer_spec [OF assms(1,2)]) auto
  with assms(6) reply_type_unique show ?thesis by fastforce
next
  fix out' r
  assume "send_inform env cfg ls p = Some (ls', out', r)" and "Out_net n \<in> set out'"
  from send_inform_yiaddr [OF assms(1,2) this] assms(7) show ?thesis by simp
qed

text \<open>C4: A client that was sent an OFFER and then requests the offered address from this server
  is sent an ACK for that address, and holds the lease afterwards, whatever the environment
  answers in between; the conditions are well-formed option areas in both packets, a configured
  option list as \<open>read_config\<close> builds it, a consistent lease table, a hardware address that is not
  blank, no relay, no twin-IP setting, an address of the server's subnet, working sockets and a
  clock that does not show 0.\<close>

theorem offer_then_ack:
  assumes "good_request d ds" and "map_of ds DHCP_MESSAGE_TYPE = Some [DHCPDISCOVER]"
    and "lease_inv ls" and "wf_optset (c_options cfg)"
    and "handle_packet env cfg statics ls d = Some (ls', out)" and "Out_net n \<in> set out"
    and "m_chaddr d \<noteq> blank_chaddr"
    and "good_request p ts" and "map_of ts DHCP_MESSAGE_TYPE = Some [DHCPREQUEST]"
    and "map_of ts DHCP_REQUESTED_IP = Some (bytes_le32 (m_yiaddr (net_msg n)))"
    and "map_of ts DHCP_SERVER_ID = Some (bytes_le32 (c_server cfg))"
    and "m_chaddr p = m_chaddr d" and "m_giaddr p = 0" and "no_twinip env'"
    and "\<not> outside_subnet cfg (m_yiaddr (net_msg n))" and "sock_ok (e_sock env')" and "0 < e_now env'"
  shows "\<exists>ls'' out' m j us. handle_packet env' cfg statics ls' p = Some (ls'', out') \<and>
     Out_net m \<in> set out' \<and> reply_to cfg p DHCPACK us (net_msg m) \<and>
     m_yiaddr (net_msg m) = m_yiaddr (net_msg n) \<and>
     find_lease_by_yiaddr ls'' (m_yiaddr (net_msg n)) = Some j \<and> l_chaddr (ls'' ! j) = m_chaddr p"
proof -
  let ?y = "m_yiaddr (net_msg n)" and ?c = "m_chaddr p"
  have wf: "wf_msg d" "wf_msg p"
    using assms(1,8) by (simp_all add: good_request_def)
  have t: "table_ok (length ls) ls'"
    using handle_packet_table_ok [OF assms(5,4) _ wf(1)] assms(3)
    by (simp add: table_ok_def)
  obtain out1 r1 where o: "sendOffer env cfg statics ls d = Some (ls', out1, r1)" "Out_net n \<in> set out1"
    using discover_offer [OF assms(1,2,5,6)] .
  obtain ls1 i where y: "?y \<noteq> 0"
    and a: "add_lease (e_now env) ls1 (m_chaddr d) ?y (c_offer_time cfg) None = Some (ls', Some i)"
    by (rule sendOffer_spec [OF wf(1) assms(4) o])
  have c: "16 \<le> length ?c" "take 16 ?c = ?c"
    using wf_msg_chaddr [OF wf(2)] by simp_all
  have h: "find_lease_by_chaddr ls' ?c = Some i" "l_yiaddr (ls' ! i) = ?y"
    using add_lease_lookup [OF _ a] assms(7,12) c by simp_all
  obtain ls'' out' r m lt hn j where k: "sendACK env' cfg ls' p ?y = Some (ls'', out', r)"
    "Out_net m \<in> set out'" "m_yiaddr (net_msg m) = ?y"
    "add_lease (e_now env') ls' ?c ?y lt (Some hn) = Some (ls'', j)"
    by (rule sendACK_sends [OF assms(8,4,14) t assms(16,13)])
  obtain i' where j: "j = Some i'"
    using add_lease_renews [OF k(4) c(1) h(1)] assms(7,12,17) c(2) by auto
  have f: "find_lease_by_yiaddr ls'' ?y = Some i'" "l_chaddr (ls'' ! i') = ?c"
    using add_lease_lookup(2,5) [OF c(1) k(4) [unfolded j]] y c(2) by simp_all
  obtain us where "reply_to cfg p DHCPACK us (net_msg m)"
    using sendACK_reply [OF wf(2) assms(4) k(1,2)] by blast
  moreover have "Out_net m \<in> set (out' @ [Out_lease_file (write_leases cfg (e_now env') ls'')])"
    using k(2) by simp
  ultimately show ?thesis
    using request_acked [OF assms(8-11) h assms(14,15) k(1), of statics] k(3) f by blast
qed

theorem handle_packet_replies_witness:
  "\<exists>ls' out n t ts. handle_packet sample_env sample_cfg sample_statics [zero_lease]
       (sample_req discover_opts) = Some (ls', out) \<and> Out_net n \<in> set out \<and>
     t \<in> {DHCPOFFER, DHCPACK, DHCPNAK} \<and> reply_to sample_cfg (sample_req discover_opts) t ts (net_msg n)"
proof (rule sample_offer)
  fix n
  assume h: "handle_packet sample_env sample_cfg sample_statics [zero_lease] (sample_req discover_opts) =
      Some (sample_leases, [Out_syslog_flag 1, Out_net n,
        Out_lease_file (write_leases sample_cfg (e_now sample_env) sample_leases)])"
  have "wf_msg (sample_req discover_opts)"
    using sample_discover_good by (simp add: good_request_def)
  from handle_packet_replies [OF this sample_cfg_ok(2) sample_inv h, of n] h show ?thesis
    by auto
qed

theorem ack_exclusive_witness:
  "\<exists>ls' out m. handle_packet sample_env sample_cfg sample_statics sample_leases
       (sample_req (request_opts sample_ip)) = Some (ls', out) \<and> Out_net m \<in> set out \<and>
     m_yiaddr (net_msg m) = sample_ip \<and>
     l_chaddr (sample_leases ! 0) = m_chaddr (sample_req (request_opts sample_ip))"
proof (rule sample_ack)
  fix ls' out m ts
  assume h: "handle_packet sample_env sample_cfg sample_statics sample_leases
      (sample_req (request_opts sample_ip)) = Some (ls', out)" "Out_net m \<in> set out"
    "m_yiaddr (net_msg m) = sample_ip"
    "reply_to sample_cfg (sample_req (request_opts sample_ip)) DHCPACK ts (net_msg m)"
  have "wf_msg (sample_req (request_opts sample_ip))"
    using sample_request_good [of sample_ip] by (simp add: good_request_def)
  from ack_exclusive [OF this sample_cfg_ok(2) sample_leases_inv(1) h(1,2,4) _ sample_leases_inv(2)]
  show ?thesis
    using h sample_leases_inv(3) by fastforce
qed

theorem offer_then_ack_witness:
  "\<exists>n ls'' out' m us. handle_packet sample_env sample_cfg sample_statics sample_leases
       (sample_req (request_opts (m_yiaddr (net_msg n)))) = Some (ls'', out') \<and> Out_net m \<in> set out' \<and>
     reply_to sample_cfg (sample_req (request_opts (m_yiaddr (net_msg n)))) DHCPACK us (net_msg m)"
proof (rule sample_offer)
  fix n
  assume h: "handle_packet sample_env sample_cfg sample_statics [zero_lease] (sample_req discover_opts) =
      Some (sample_leases, [Out_syslog_flag 1, Out_net n,
        Out_lease_file (write_leases sample_cfg (e_now sample_env) sample_leases)])"
  let ?p = "sample_req (request_opts (m_yiaddr (net_msg n)))"
  have "\<not> outside_subnet sample_cfg y" for y
    by (simp add: outside_subnet_def sample_cfg_def)
  then have "\<exists>ls'' out' m j us. handle_packet sample_env sample_cfg sample_statics sample_leases ?p =
      Some (ls'', out') \<and> Out_net m \<in> set out' \<and> reply_to sample_cfg ?p DHCPACK us (net_msg m) \<and>
      m_yiaddr (net_msg m) = m_yiaddr (net_msg n) \<and>
      find_lease_by_yiaddr ls'' (m_yiaddr (net_msg n)) = Some j \<and> l_chaddr (ls'' ! j) = m_chaddr ?p"
    by (intro offer_then_ack [OF sample_discover_good _ sample_inv sample_cfg_ok(2) h _ _ sample_request_good])
      (simp_all add: sample_env_ok blank_chaddr_def)
  then show ?thesis by blast
qed

text \<open>The address of the OFFER for a client that asks for a reserved address.\<close>

lemma offer_address_requested:
  assumes "good_request p ts" and "map_of ts DHCP_REQUESTED_IP = Some (bytes_le32 y)"
    and "find_static_lease_by_chaddr statics (m_chaddr p) = 0"
    and "find_lease_by_chaddr ls (m_chaddr p) = None"
    and "find_static_lease_by_yiaddr statics y \<noteq> None"
    and "ntohl (c_start cfg) \<le> ntohl y" and "ntohl y \<le> ntohl (c_end cfg)" and "e_arpping env y \<noteq> 0"
  shows "offer_address env cfg statics ls p = Some (ls, y, c_lease cfg)"
proof (rule good_request_u32 [OF assms(1), of DHCP_REQUESTED_IP])
  fix v op
  assume "map_of ts DHCP_REQUESTED_IP = Some v" "get_option p DHCP_REQUESTED_IP = Some (Some op)"
    "opt_u32 p op = Some (le32_of (take 4 v))"
  with assms show ?thesis
    by (simp add: offer_address_def offer_requested_def check_ip_def)
qed (use assms(2) in simp_all)

text \<open>A table with an expired entry has room for any client.\<close>

lemma add_lease_room:
  assumes "add_lease now ls c y d h = Some (ls', r)" and "16 \<le> length c"
    and "l \<in> set ls" and "lease_expired now l"
  obtains j where "r = Some j"
proof -
  have "lease_expired now zero_lease"
    using assms(4) word_neq_0_conv by (fastforce simp: lease_expired_def)
  then have "\<exists>l' \<in> set (clear_lease ls c y). lease_expired now l'"
    using assms(2-4) by (auto simp: clear_lease_map)
  then show thesis
    using that by - (rule add_lease_cases [OF assms(1)], auto)
qed

text \<open>C28: A DISCOVER from a client without a lease that asks for an address of the range which is
  reserved for another client by a static lease is answered with an OFFER of that reserved address,
  unless the address answers the ARP probe.  The conditions of the OFFER are those of every OFFER:
  a well-formed option area and configured option list, an expired entry in the lease table, a
  nonzero address, no relay, no twin-IP setting, the service enabled and working sockets.\<close>

theorem offer_reserved_address:
  assumes "good_request p ts" and "map_of ts DHCP_MESSAGE_TYPE = Some [DHCPDISCOVER]"
    and "map_of ts DHCP_REQUESTED_IP = Some (bytes_le32 y)"
    and "find_static_lease_by_chaddr statics (m_chaddr p) = 0"
    and "find_lease_by_chaddr ls (m_chaddr p) = None"
    and "find_static_lease_by_yiaddr statics y \<noteq> None"
    and "ntohl (c_start cfg) \<le> ntohl y" and "ntohl y \<le> ntohl (c_end cfg)" and "y \<noteq> 0"
    and "e_arpping env y \<noteq> 0"
    and "lease_inv ls" and "\<exists>l \<in> set ls. lease_expired (e_now env) l" and "wf_optset (c_options cfg)"
    and "no_twinip env" and "e_dhcpd_op env" and "sock_ok (e_sock env)" and "m_giaddr p = 0"
  shows "\<exists>ls' out n us. handle_packet env cfg statics ls p = Some (ls', out) \<and> Out_net n \<in> set out \<and>
    reply_to cfg p DHCPOFFER us (net_msg n) \<and> m_yiaddr (net_msg n) = y"
proof -
  have wf: "wf_msg p" "length (m_chaddr p) = 16"
    using assms(1) wf_msg_chaddr by (auto simp: good_request_def)
  have o: "offer_address env cfg statics ls p = Some (ls, y, c_lease cfg)"
    by (rule offer_address_requested [OF assms(1,3-8,10)])
  obtain ls' r where a: "add_lease (e_now env) ls (m_chaddr p) y (c_offer_time cfg) None = Some (ls', r)"
    by (rule add_lease_ok [of "length ls" ls "m_chaddr p" None])
      (use wf(2) assms(11) in \<open>simp_all add: table_ok_def opt_name_len_def\<close>)
  obtain j where "r = Some j"
    using add_lease_room [OF a] wf(2) assms(12) by auto
  with a obtain n r' where n: "sendOffer env cfg statics ls p = Some (ls', [Out_syslog_flag 1, Out_net n], r')"
    "m_yiaddr (net_msg n) = y"
    using sendOffer_sends [OF assms(1,13,14) o assms(9) _ assms(15-17)] by metis
  obtain us where "reply_to cfg p DHCPOFFER us (net_msg n)"
    by (rule sendOffer_spec [OF wf(1) assms(13) n(1)]) auto
  moreover have "handle_packet env cfg statics ls p = Some (ls', [Out_syslog_flag 1, Out_net n,
      Out_lease_file (write_leases cfg (e_now env) ls')])"
    by (rule good_request_type [OF assms(1)]) (use assms(2) n(1) in \<open>simp_all add: handle_packet_def\<close>)
  ultimately show ?thesis
    using n(2) by (metis list.set_intros)
qed

theorem offer_reserved_address_witness:
  "\<exists>ls' out n us. handle_packet sample_env sample_cfg
       [zero_static\<lparr>s_chaddr := replicate 16 2, s_yiaddr := sample_ip\<rparr>] [zero_lease]
       (sample_req [(DHCP_MESSAGE_TYPE, [DHCPDISCOVER]), (DHCP_REQUESTED_IP, bytes_le32 sample_ip)]) =
       Some (ls', out) \<and> Out_net n \<in> set out \<and>
     reply_to sample_cfg (sample_req [(DHCP_MESSAGE_TYPE, [DHCPDISCOVER]),
       (DHCP_REQUESTED_IP, bytes_le32 sample_ip)]) DHCPOFFER us (net_msg n) \<and>
     m_yiaddr (net_msg n) = sample_ip"
proof -
  have "good_request (sample_req [(DHCP_MESSAGE_TYPE, [DHCPDISCOVER]), (DHCP_REQUESTED_IP, bytes_le32 sample_ip)])
      [(DHCP_MESSAGE_TYPE, [DHCPDISCOVER]), (DHCP_REQUESTED_IP, bytes_le32 sample_ip)]"
    by (rule sample_req_good) (auto simp: wf_tlv_def no_overload_def)
  then show ?thesis
    by (rule offer_reserved_address)
      (simp_all add: find_static_lease_by_chaddr_def find_static_lease_by_yiaddr_def sample_env_ok sample_inv
        find_lease_by_chaddr_def sample_cfg_ok, simp_all add: sample_cfg_def sample_env_def blank_chaddr_def
        zero_static_def lease_expired_def zero_lease_def ntohl_eq_0)
qed

text \<open>For a twin-IP client the copy of the configured router option reads one byte past the
  allocated block, for every well-formed block.\<close>

theorem twinip_router_overread:
  assumes "wf_block data" and "data ! OPT_CODE = DHCP_ROUTER"
  shows "add_config_option env cfg (Some (wan_name, ifname)) packet data = None"
  using assms replaced_option_None [OF assms(1)]
  by (simp add: add_config_option_def wf_block_def rd_def)

theorem twinip_router_overread_witness:
  "add_config_option sample_env sample_cfg (Some ([], [])) sample_msg [DHCP_ROUTER, 4, 192, 168, 0, 1] = None"
  by (rule twinip_router_overread) (simp_all add: wf_block_def)

end
