(* ===== verification/Dhcp_Client.thy ===== *)
theory Dhcp_Client
  imports Dhcp_Config
begin

section \<open>The DHCP client (\<^verbatim>\<open>udhcp-0.9.8/clientpacket.c\<close>, \<^verbatim>\<open>dhcpc.c\<close>)\<close>

text \<open>
  The packets of the client and the main loop of \<^verbatim>\<open>dhcpc.c\<close> as a state machine: \<open>client_step\<close> is one
  round of the loop, from an event that \<^verbatim>\<open>select\<close> reports to the next state and the list of effects
  (packets, scripts, status values) in order; \<open>None\<close> is an access outside an array.  Times are
  \<^verbatim>\<open>unsigned long\<close> values of 32 bits.  The definitions follow the product configuration (automatic
  server detection, the check for private addresses and for the LAN's own subnet, the service
  network); \<open>client_env\<close> holds what one round reads from outside.
\<close>

subsection \<open>Configuration and state\<close>

record client_config_t =
  k_foreground :: bool
  k_quit_after_lease :: bool
  k_abort_if_no_lease :: bool
  k_background_if_no_lease :: bool
  k_interface :: "byte list"
  k_clientid :: "byte list"
  k_hostname :: "byte list option"
  k_ifindex :: int
  k_arp :: "byte list"
  k_dhclient_chk :: bool

datatype client_phase =
    INIT_SELECTING | REQUESTING | BOUND | RENEWING | REBINDING | INIT_REBOOT | RENEW_REQUESTED | RELEASED

datatype listen_mode = LISTEN_NONE | LISTEN_KERNEL | LISTEN_RAW

record client_state =
  cs_state :: client_phase
  cs_requested_ip :: u32
  cs_server_addr :: u32
  cs_timeout :: u32
  cs_packet_num :: nat
  cs_fd :: bool
  cs_listen_mode :: listen_mode
  cs_t1 :: u32
  cs_t2 :: u32
  cs_xid :: u32
  cs_start :: u32
  cs_lease :: u32
  cs_packet :: dhcpMessage
  cs_wizard_timeout :: nat
  cs_exited :: "int option"

record client_env =
  ce_time :: u32
  ce_now :: u32
  ce_random :: u32
  ce_sock :: sock_env
  ce_listen_ok :: bool
  ce_eintr :: bool
  ce_lanip :: "byte list"
  ce_lanmask :: "byte list"
  ce_block_private_ip :: bool
  ce_service_network :: "byte list"
  ce_auto_detect :: bool
  ce_syslog_flag :: bool

datatype client_out =
    Cl_net net_out
  | Cl_script "dhcpMessage option" "byte list"
  | Cl_background
  | Cl_wizard_timeout
  | Cl_auto_detect bool
  | Cl_chk_info "byte list" "byte list" "byte list" "byte list"
  | Cl_syslog "byte list"
  | Cl_dhcpserver u32
  | Cl_lease_time u32
  | Cl_signal_wan
  | Cl_same_network bool
  | Cl_privateip bool
  | Cl_service_network "byte list"
  | Cl_sleep nat

subsection \<open>Building and sending\<close>

definition vendor_id :: "byte list" where
  "vendor_id = [DHCP_VENDOR, 8] @ str ''MSFT 5.0'' @ [0]"

definition client_init_packet :: "client_config_t \<Rightarrow> byte \<Rightarrow> dhcpMessage option" where
  "client_init_packet cfg type = do {
     packet \<leftarrow> init_header type;
     arp \<leftarrow> rd_n (k_arp cfg) 0 6;
     chaddr \<leftarrow> wr (m_chaddr packet) 0 arp;
     packet \<leftarrow> msg_add_string (packet\<lparr>m_chaddr := chaddr\<rparr>) (k_clientid cfg);
     packet \<leftarrow> (case k_hostname cfg of None \<Rightarrow> Some packet | Some h \<Rightarrow> msg_add_string packet h);
     msg_add_string packet vendor_id
   }"

text \<open>The loop of \<open>add_requests\<close> over the option table, writing at \<^verbatim>\<open>end + OPT_DATA + len\<close>.\<close>

fun write_requests :: "byte list \<Rightarrow> nat \<Rightarrow> nat \<Rightarrow> dhcp_option list \<Rightarrow> (byte list \<times> nat) option" where
  "write_requests a e len [] = Some (a, len)"
| "write_requests a e len (x # xs) =
    (if opt_code x = 0 then Some (a, len)
     else if opt_flags x AND OPTION_REQ \<noteq> 0 then
       Option.bind (wr a (e + OPT_DATA + len) [opt_code x]) (\<lambda>a. write_requests a e (len + 1) xs)
     else write_requests a e len xs)"

definition add_requests :: "dhcpMessage \<Rightarrow> dhcpMessage option" where
  "add_requests packet = do {
     e \<leftarrow> end_option (m_options packet) 0;
     a \<leftarrow> wr (m_options packet) (e + OPT_CODE) [DHCP_PARAM_REQ];
     (a, len) \<leftarrow> write_requests a e 0 dhcp_options;
     a \<leftarrow> wr a (e + OPT_LEN) [of_nat len];
     a \<leftarrow> wr a (e + OPT_DATA + len) [DHCP_END];
     Some (packet\<lparr>m_options := a\<rparr>)
   }"

text \<open>The messages, and the functions that send them; the latter return the result of the send and
  the packets.\<close>

definition discover_msg :: "client_config_t \<Rightarrow> u32 \<Rightarrow> u32 \<Rightarrow> dhcpMessage option" where
  "discover_msg cfg xid requested = do {
     packet \<leftarrow> client_init_packet cfg DHCPDISCOVER;
     let packet = packet\<lparr>m_xid := xid\<rparr>;
     packet \<leftarrow> (if requested \<noteq> 0 then msg_add_simple packet DHCP_REQUESTED_IP requested else Some packet);
     add_requests packet
   }"

definition send_discover :: "client_env \<Rightarrow> client_config_t \<Rightarrow> u32 \<Rightarrow> u32 \<Rightarrow> (int \<times> client_out list) option" where
  "send_discover env cfg xid requested = do {
     packet \<leftarrow> discover_msg cfg xid requested;
     let (ret, net) = raw_packet (ce_sock env) packet INADDR_ANY CLIENT_PORT INADDR_BROADCAST
       SERVER_PORT MAC_BCAST_ADDR (k_ifindex cfg);
     Some (ret, map Cl_net net)
   }"

definition selecting_msg :: "client_config_t \<Rightarrow> u32 \<Rightarrow> u32 \<Rightarrow> u32 \<Rightarrow> dhcpMessage option" where
  "selecting_msg cfg xid server requested = do {
     packet \<leftarrow> client_init_packet cfg DHCPREQUEST;
     packet \<leftarrow> msg_add_simple (packet\<lparr>m_xid := xid\<rparr>) DHCP_REQUESTED_IP requested;
     packet \<leftarrow> msg_add_simple packet DHCP_SERVER_ID server;
     add_requests packet
   }"

definition send_selecting ::
  "client_env \<Rightarrow> client_config_t \<Rightarrow> u32 \<Rightarrow> u32 \<Rightarrow> u32 \<Rightarrow> (int \<times> client_out list) option" where
  "send_selecting env cfg xid server requested = do {
     packet \<leftarrow> selecting_msg cfg xid server requested;
     let (ret, net) = raw_packet (ce_sock env) packet INADDR_ANY CLIENT_PORT INADDR_BROADCAST
       SERVER_PORT MAC_BCAST_ADDR (k_ifindex cfg);
     Some (ret, map Cl_net net)
   }"

definition send_renew ::
  "client_env \<Rightarrow> client_config_t \<Rightarrow> u32 \<Rightarrow> u32 \<Rightarrow> u32 \<Rightarrow> (int \<times> client_out list) option" where
  "send_renew env cfg xid server ciaddr = do {
     packet \<leftarrow> client_init_packet cfg DHCPREQUEST;
     packet \<leftarrow> add_requests (packet\<lparr>m_xid := xid, m_ciaddr := ciaddr\<rparr>);
     let (ret, net) =
       (if server \<noteq> 0 then kernel_packet (ce_sock env) packet ciaddr CLIENT_PORT server SERVER_PORT
        else raw_packet (ce_sock env) packet ciaddr CLIENT_PORT INADDR_BROADCAST SERVER_PORT
          MAC_BCAST_ADDR (k_ifindex cfg));
     Some (ret, map Cl_net net)
   }"

definition send_release ::
  "client_env \<Rightarrow> client_config_t \<Rightarrow> u32 \<Rightarrow> u32 \<Rightarrow> (int \<times> client_out list) option" where
  "send_release env cfg server ciaddr = do {
     packet \<leftarrow> client_init_packet cfg DHCPRELEASE;
     packet \<leftarrow> msg_add_simple (packet\<lparr>m_xid := ce_random env, m_ciaddr := ciaddr\<rparr>) DHCP_REQUESTED_IP ciaddr;
     packet \<leftarrow> msg_add_simple packet DHCP_SERVER_ID server;
     let (ret, net) = kernel_packet (ce_sock env) packet ciaddr CLIENT_PORT server SERVER_PORT;
     Some (ret, map Cl_net net)
   }"

subsection \<open>The check of an offered address\<close>

definition makeip :: "byte list \<Rightarrow> byte list" where
  "makeip ip = dec (unat (ip ! 0)) @ 0x2e # dec (unat (ip ! 1)) @ 0x2e # dec (unat (ip ! 2)) @
     0x2e # dec (unat (ip ! 3)) @ [0x20]"

definition check_same_network2 :: "byte list \<Rightarrow> byte list \<Rightarrow> byte list \<Rightarrow> byte list \<Rightarrow> bool" where
  "check_same_network2 ip1str ip1mask ip2str ip2mask \<longleftrightarrow>
     htonl (inet_addr ip1str) AND htonl (inet_addr ip1mask) =
     htonl (inet_addr ip2str) AND htonl (inet_addr ip2mask)"

definition private_ip :: "u32 \<Rightarrow> bool" where
  "private_ip ip \<longleftrightarrow> ip AND 0xff000000 = 0x0a000000 \<or> ip AND 0xfff00000 = 0xac100000 \<or>
     ip AND 0xffff0000 = 0xc0a80000"

text \<open>The loop that moves the service network away from the networks of the offer: the third octet
  is lowered as long as the network is in use, then the text before the last dot is stored.\<close>

abbreviation (input) SRV_MASK :: "byte list" where "SRV_MASK \<equiv> str ''255.255.255.0''"

definition service_clash :: "byte list \<Rightarrow> byte list \<Rightarrow> byte list \<Rightarrow> byte list \<Rightarrow> byte list \<Rightarrow> bool" where
  "service_clash wanip wanmask server_ip relay_ip srv_net \<longleftrightarrow>
     check_same_network2 srv_net SRV_MASK wanip wanmask \<or>
     check_same_network2 srv_net SRV_MASK server_ip SRV_MASK \<or>
     check_same_network2 srv_net SRV_MASK relay_ip SRV_MASK"

definition next_service_net :: "byte list \<Rightarrow> byte list" where
  "next_service_net srv_net =
    (let ip = bytes_le32 (inet_addr srv_net) in
     makeip (ip[2 := if ip ! 2 \<noteq> 0 then ip ! 2 - 1 else 255]))"

definition before_last_dot :: "byte list \<Rightarrow> byte list" where
  "before_last_dot s = rev (tl (dropWhile (\<lambda>c. c \<noteq> 0x2e) (rev s)))"

partial_function (option) service_net_loop ::
  "byte list \<Rightarrow> byte list \<Rightarrow> byte list \<Rightarrow> byte list \<Rightarrow> byte list \<Rightarrow> byte list option" where
  "service_net_loop wanip wanmask server_ip relay_ip srv_net =
    (if service_clash wanip wanmask server_ip relay_ip srv_net
     then service_net_loop wanip wanmask server_ip relay_ip (next_service_net srv_net)
     else Some (before_last_dot srv_net))"

definition check_private_ip :: "client_env \<Rightarrow> dhcpMessage \<Rightarrow> (bool \<times> client_out list) option" where
  "check_private_ip env packet = do {
     let wanip = makeip (bytes_le32 (m_yiaddr packet));
     ptr \<leftarrow> get_option packet DHCP_SUBNET;
     case ptr of
       None \<Rightarrow> Some (False, [])
     | Some op \<Rightarrow> do {
         m \<leftarrow> opt_data packet op 4;
         let wanmask = makeip m;
         if check_same_network2 (ce_lanip env) (ce_lanmask env) wanip wanmask
         then Some (True, [Cl_syslog (str ''SAME_SUBNET_IP_ASSIGN''), Cl_same_network True, Cl_wizard_timeout])
         else do {
           let out = [Cl_same_network False];
           if ce_block_private_ip env \<and> private_ip (htonl (m_yiaddr packet))
           then Some (True, out @ [Cl_syslog (str ''PRIVATE_IP_ASSIGN''), Cl_privateip True])
           else do {
             let out = out @ (if ce_block_private_ip env then [Cl_privateip False] else []);
             net \<leftarrow> service_net_loop wanip wanmask (makeip (bytes_le32 (m_siaddr packet)))
               (makeip (bytes_le32 (m_giaddr packet))) (ce_service_network env @ str ''.0'');
             Some (False, out @ [Cl_service_network net])
           }
         }
       }
   }"

subsection \<open>The state machine\<close>

definition change_mode :: "listen_mode \<Rightarrow> client_state \<Rightarrow> client_state" where
  "change_mode new_mode st = st\<lparr>cs_fd := False, cs_listen_mode := new_mode\<rparr>"

definition exit_client :: "int \<Rightarrow> client_state \<Rightarrow> client_state" where
  "exit_client ret st = st\<lparr>cs_exited := Some ret\<rparr>"

abbreviation (input) deconfig :: client_out where "deconfig \<equiv> Cl_script None (str ''deconfig'')"

definition perform_renew :: "client_state \<Rightarrow> client_state \<times> client_out list" where
  "perform_renew st =
    (let (st, out) =
       (case cs_state st of
          BOUND \<Rightarrow> ((change_mode LISTEN_KERNEL st)\<lparr>cs_state := RENEW_REQUESTED\<rparr>, [])
        | RENEWING \<Rightarrow> (st\<lparr>cs_state := RENEW_REQUESTED\<rparr>, [])
        | REBINDING \<Rightarrow> (st\<lparr>cs_state := RENEW_REQUESTED\<rparr>, [])
        | RENEW_REQUESTED \<Rightarrow> ((change_mode LISTEN_RAW st)\<lparr>cs_state := INIT_SELECTING\<rparr>, [deconfig])
        | REQUESTING \<Rightarrow> ((change_mode LISTEN_RAW st)\<lparr>cs_state := INIT_SELECTING\<rparr>, [])
        | RELEASED \<Rightarrow> ((change_mode LISTEN_RAW st)\<lparr>cs_state := INIT_SELECTING\<rparr>, [])
        | _ \<Rightarrow> (st, [])) in
     (st\<lparr>cs_packet_num := 0, cs_timeout := 0\<rparr>, out))"

definition perform_release ::
  "client_env \<Rightarrow> client_config_t \<Rightarrow> client_state \<Rightarrow> (client_state \<times> client_out list) option" where
  "perform_release env cfg st = do {
     (ret, out) \<leftarrow> (if cs_state st \<in> {BOUND, RENEWING, REBINDING}
       then map_option (\<lambda>(r, net). (r, net @ [deconfig]))
         (send_release env cfg (cs_server_addr st) (cs_requested_ip st))
       else Some (0, []));
     Some ((change_mode LISTEN_NONE st)\<lparr>cs_state := RELEASED, cs_timeout := 0x7fffffff\<rparr>, out)
   }"

text \<open>The timeouts, one definition for each group of cases of the \<^verbatim>\<open>switch\<close>.\<close>

definition timeout_selecting ::
  "client_env \<Rightarrow> client_config_t \<Rightarrow> client_state \<Rightarrow> (client_state \<times> client_out list) option" where
  "timeout_selecting env cfg st =
    (if cs_packet_num st < 3 then do {
       let st = (if cs_packet_num st = 0 then st\<lparr>cs_xid := ce_random env\<rparr> else st);
       (ret, out) \<leftarrow> send_discover env cfg (cs_xid st) (cs_requested_ip st);
       Some (st\<lparr>cs_timeout := ce_now env + (if cs_packet_num st = 2 then 4 else 2),
                cs_packet_num := cs_packet_num st + 1\<rparr>, out)
     }
     else
       let (st, out) = (if k_background_if_no_lease cfg then (st, [Cl_background])
                        else if k_abort_if_no_lease cfg then (exit_client 1 st, [])
                        else (st, [])) in
       if cs_exited st \<noteq> None then Some (st, out)
       else
         let st = st\<lparr>cs_packet_num := 0, cs_timeout := ce_now env + 20,
                     cs_wizard_timeout := cs_wizard_timeout st + 1\<rparr>;
             out = out @ (if cs_wizard_timeout st \<ge> 2 then [Cl_wizard_timeout] else []) in
         if k_dhclient_chk cfg then
           Some (exit_client 0 st,
             out @ (if ce_auto_detect env then [Cl_syslog (str ''DHCP_SERVER_RESUME'')] else []) @
             [Cl_auto_detect False])
         else
           Some (st, out @ (if \<not> ce_syslog_flag env then [Cl_syslog (str ''DHCPC_SERVER_TIMEOUT'')] else [])))"

definition timeout_requesting ::
  "client_env \<Rightarrow> client_config_t \<Rightarrow> client_state \<Rightarrow> (client_state \<times> client_out list) option" where
  "timeout_requesting env cfg st =
    (if cs_packet_num st < 3 then do {
       let st = (if cs_state st = RENEW_REQUESTED then st\<lparr>cs_xid := ce_random env\<rparr> else st);
       (ret, out) \<leftarrow> (if cs_state st = RENEW_REQUESTED
         then send_renew env cfg (cs_xid st) (cs_server_addr st) (cs_requested_ip st)
         else send_selecting env cfg (cs_xid st) (cs_server_addr st) (cs_requested_ip st));
       Some (st\<lparr>cs_timeout := ce_now env + (if cs_packet_num st = 2 then 10 else 2),
                cs_packet_num := cs_packet_num st + 1\<rparr>, out)
     }
     else Some (change_mode LISTEN_RAW
         (st\<lparr>cs_state := INIT_SELECTING, cs_timeout := ce_now env, cs_packet_num := 0\<rparr>),
       if cs_state st = RENEW_REQUESTED then [deconfig] else []))"

definition timeout_renewing ::
  "client_env \<Rightarrow> client_config_t \<Rightarrow> client_state \<Rightarrow> (client_state \<times> client_out list) option" where
  "timeout_renewing env cfg st =
    (if cs_t2 st - cs_t1 st \<le> cs_lease st div 14400 + 1
     then Some (st\<lparr>cs_state := REBINDING, cs_timeout := ce_now env + (cs_t2 st - cs_t1 st)\<rparr>, [])
     else do {
       let st = st\<lparr>cs_xid := ce_random env\<rparr>;
       (ret, out) \<leftarrow> send_renew env cfg (cs_xid st) (cs_server_addr st) (cs_requested_ip st);
       let st = st\<lparr>cs_t1 := (cs_t2 st - cs_t1 st) div 2 + cs_t1 st\<rparr>;
       Some (st\<lparr>cs_timeout := cs_t1 st + cs_start st\<rparr>, out)
     })"

definition timeout_rebinding ::
  "client_env \<Rightarrow> client_config_t \<Rightarrow> client_state \<Rightarrow> (client_state \<times> client_out list) option" where
  "timeout_rebinding env cfg st =
    (if cs_lease st - cs_t2 st \<le> cs_lease st div 14400 + 1
     then Some (change_mode LISTEN_RAW
         (st\<lparr>cs_state := INIT_SELECTING, cs_timeout := ce_now env, cs_packet_num := 0\<rparr>),
       [Cl_signal_wan, Cl_syslog (str ''DHCPC_LEASE''), deconfig])
     else do {
       let st = st\<lparr>cs_xid := ce_random env\<rparr>;
       (ret, out) \<leftarrow> send_renew env cfg (cs_xid st) 0 (cs_requested_ip st);
       let st = st\<lparr>cs_t2 := (cs_lease st - cs_t2 st) div 2 + cs_t2 st\<rparr>;
       Some (st\<lparr>cs_timeout := cs_t2 st + cs_start st\<rparr>, out)
     })"

definition client_timeout ::
  "client_env \<Rightarrow> client_config_t \<Rightarrow> client_state \<Rightarrow> (client_state \<times> client_out list) option" where
  "client_timeout env cfg st = (case cs_state st of
     INIT_SELECTING \<Rightarrow> timeout_selecting env cfg st
   | RENEW_REQUESTED \<Rightarrow> timeout_requesting env cfg st
   | REQUESTING \<Rightarrow> timeout_requesting env cfg st
   | BOUND \<Rightarrow> timeout_renewing env cfg (change_mode LISTEN_KERNEL (st\<lparr>cs_state := RENEWING\<rparr>))
   | RENEWING \<Rightarrow> timeout_renewing env cfg st
   | REBINDING \<Rightarrow> timeout_rebinding env cfg st
   | RELEASED \<Rightarrow> Some (st\<lparr>cs_timeout := 0x7fffffff\<rparr>, [])
   | INIT_REBOOT \<Rightarrow> Some (st, []))"

text \<open>An answer while the client only checks for servers (\<^verbatim>\<open>dhclientchk\<close>).\<close>

definition ip_option_text :: "dhcpMessage \<Rightarrow> byte \<Rightarrow> byte list option" where
  "ip_option_text packet code = do {
     ptr \<leftarrow> get_option packet code;
     case ptr of None \<Rightarrow> Some (str ''null'') | Some op \<Rightarrow> map_option makeip (opt_data packet op 4)
   }"

definition chk_packet ::
  "client_env \<Rightarrow> dhcpMessage \<Rightarrow> client_state \<Rightarrow> (client_state \<times> client_out list) option" where
  "chk_packet env packet st = do {
     let out = (if \<not> ce_auto_detect env then [Cl_syslog (str ''DHCP_SERVER_SUSPENDED'')] else []) @
       [Cl_auto_detect True];
     ptr \<leftarrow> get_option packet DHCP_SUBNET;
     out \<leftarrow> (case ptr of
         None \<Rightarrow> Some out
       | Some op \<Rightarrow> do {
           m \<leftarrow> opt_data packet op 4;
           router \<leftarrow> ip_option_text packet DHCP_ROUTER;
           dns \<leftarrow> ip_option_text packet DHCP_DNS_SERVER;
           Some (out @ [Cl_chk_info (makeip (bytes_le32 (m_yiaddr packet))) (makeip m) router dns])
         });
     Some (exit_client 0 st, out)
   }"

definition handle_offer ::
  "client_env \<Rightarrow> client_config_t \<Rightarrow> dhcpMessage \<Rightarrow> byte \<Rightarrow> client_state
    \<Rightarrow> (client_state \<times> client_out list) option" where
  "handle_offer env cfg packet message st =
    (if message = DHCPOFFER then do {
       temp \<leftarrow> get_option packet DHCP_SERVER_ID;
       case temp of
         None \<Rightarrow> Some (st, [])
       | Some op \<Rightarrow> do {
           server \<leftarrow> opt_u32 packet op;
           (blocked, out) \<leftarrow> check_private_ip env packet;
           if blocked then Some (st, out)
           else Some (st\<lparr>cs_server_addr := server, cs_xid := m_xid packet,
               cs_requested_ip := m_yiaddr packet, cs_state := REQUESTING, cs_timeout := ce_now env,
               cs_packet_num := 0\<rparr>, out @ [Cl_dhcpserver server])
         }
     }
     else Some (st, []))"

text \<open>The lease time of an ACK, one hour when it has none.\<close>

definition ack_lease :: "dhcpMessage \<Rightarrow> u32 option" where
  "ack_lease packet = do {
     temp \<leftarrow> get_option packet DHCP_LEASE_TIME;
     case temp of None \<Rightarrow> Some (60 * 60) | Some op \<Rightarrow> map_option ntohl (opt_u32 packet op)
   }"

definition handle_ack ::
  "client_env \<Rightarrow> client_config_t \<Rightarrow> dhcpMessage \<Rightarrow> client_state
    \<Rightarrow> (client_state \<times> client_out list) option" where
  "handle_ack env cfg packet st = do {
     lease \<leftarrow> ack_lease packet;
     let t1 = lease div 2;
     let t2 = drop_bit 3 (lease * 7);
     let out = [Cl_lease_time lease, Cl_script (Some packet)
       (if cs_state st = RENEWING \<or> cs_state st = REBINDING then str ''renew'' else str ''bound'')];
     let st = change_mode LISTEN_NONE (st\<lparr>cs_lease := lease, cs_t1 := t1, cs_t2 := t2,
       cs_start := ce_now env, cs_timeout := t1 + ce_now env, cs_requested_ip := m_yiaddr packet,
       cs_state := BOUND\<rparr>);
     Some (if k_quit_after_lease cfg then (exit_client 0 st, out)
           else (st, out @ (if \<not> k_foreground cfg then [Cl_background] else [])))
   }"

definition handle_nak ::
  "client_env \<Rightarrow> dhcpMessage \<Rightarrow> client_state \<Rightarrow> client_state \<times> client_out list" where
  "handle_nak env packet st =
    (change_mode LISTEN_RAW (st\<lparr>cs_state := INIT_SELECTING, cs_timeout := ce_now env,
        cs_requested_ip := 0, cs_packet_num := 0\<rparr>),
     [Cl_script (Some packet) (str ''nak'')] @ (if cs_state st \<noteq> REQUESTING then [deconfig] else []) @
     [Cl_sleep 3])"

definition client_message ::
  "client_env \<Rightarrow> client_config_t \<Rightarrow> dhcpMessage \<Rightarrow> client_state
    \<Rightarrow> (client_state \<times> client_out list) option" where
  "client_message env cfg packet st =
    (if m_xid packet \<noteq> cs_xid st then Some (st, [])
     else if k_dhclient_chk cfg then chk_packet env packet st
     else do {
       ptr \<leftarrow> get_option packet DHCP_MESSAGE_TYPE;
       case ptr of
         None \<Rightarrow> Some (st, [])
       | Some op \<Rightarrow> do {
           message \<leftarrow> opt_byte packet op;
           if cs_state st = INIT_SELECTING then handle_offer env cfg packet message st
           else if cs_state st \<in> {RENEW_REQUESTED, REQUESTING, RENEWING, REBINDING} then
             (if message = DHCPACK then handle_ack env cfg packet st
              else if message = DHCPNAK then Some (handle_nak env packet st)
              else Some (st, []))
           else Some (st, [])
         }
     })"

definition client_packet ::
  "client_env \<Rightarrow> client_config_t \<Rightarrow> byte list option \<Rightarrow> client_state
    \<Rightarrow> (client_state \<times> client_out list) option" where
  "client_packet env cfg input st = do {
     (len, packet) \<leftarrow> (if cs_listen_mode st = LISTEN_KERNEL then get_packet input
                        else get_raw_packet (cs_packet st) input);
     let st = st\<lparr>cs_packet := packet\<rparr>;
     if len < 0 then
       Some (if len = -1 \<and> \<not> ce_eintr env then change_mode (cs_listen_mode st) st else st, [])
     else client_message env cfg packet st
   }"

datatype client_signal = Sig_USR1 | Sig_USR2 | Sig_TERM

datatype client_event =
    Cev_timeout
  | Cev_packet "byte list option"
  | Cev_signal "client_signal option"
  | Cev_error

text \<open>The seconds for which the loop waits; no wait means a timeout at once.\<close>

definition client_wait :: "client_env \<Rightarrow> client_state \<Rightarrow> int" where
  "client_wait env st =
    (let tv_sec = sint (cs_timeout st - ce_time env) in
     if tv_sec < 0 \<and> cs_timeout st \<noteq> 0 then 1 else tv_sec)"

text \<open>The part of a round after the socket has been opened.\<close>

definition client_react ::
  "client_env \<Rightarrow> client_config_t \<Rightarrow> client_state \<Rightarrow> client_event \<Rightarrow> (client_state \<times> client_out list) option" where
  "client_react env cfg st ev =
    (if client_wait env st \<le> 0 then client_timeout env cfg st
     else case ev of
       Cev_timeout \<Rightarrow> client_timeout env cfg st
     | Cev_packet input \<Rightarrow>
         if cs_listen_mode st \<noteq> LISTEN_NONE then client_packet env cfg input st else Some (st, [])
     | Cev_signal (Some Sig_USR1) \<Rightarrow> Some (perform_renew st)
     | Cev_signal (Some Sig_USR2) \<Rightarrow> perform_release env cfg st
     | Cev_signal (Some Sig_TERM) \<Rightarrow> Some (exit_client 0 st, [])
     | Cev_signal None \<Rightarrow> Some (st, [])
     | Cev_error \<Rightarrow> Some (st, []))"

definition client_step ::
  "client_env \<Rightarrow> client_config_t \<Rightarrow> client_state \<Rightarrow> client_event \<Rightarrow> (client_state \<times> client_out list) option" where
  "client_step env cfg st ev =
    (if cs_exited st \<noteq> None then Some (st, [])
     else if cs_listen_mode st \<noteq> LISTEN_NONE \<and> \<not> cs_fd st \<and> \<not> ce_listen_ok env
     then Some (exit_client 0 st, [])
     else client_react env cfg (if cs_listen_mode st \<noteq> LISTEN_NONE then st\<lparr>cs_fd := True\<rparr> else st) ev)"

text \<open>The state in which the loop starts; \<open>requested\<close> comes from the command line, \<open>junk\<close> stands for
  the uninitialised \<^verbatim>\<open>lease\<close> and \<^verbatim>\<open>packet\<close>.\<close>

definition default_clientid :: "byte list \<Rightarrow> byte list" where
  "default_clientid arp = [DHCP_CLIENT_ID, 7, 1] @ take 6 arp"

definition client_start :: "u32 \<Rightarrow> u32 \<times> dhcpMessage \<Rightarrow> client_state" where
  "client_start requested junk = change_mode LISTEN_RAW
     \<lparr>cs_state = INIT_SELECTING, cs_requested_ip = requested, cs_server_addr = 0, cs_timeout = 0,
      cs_packet_num = 0, cs_fd = False, cs_listen_mode = LISTEN_NONE, cs_t1 = 0, cs_t2 = 0, cs_xid = 0,
      cs_start = 0, cs_lease = fst junk, cs_packet = snd junk, cs_wizard_timeout = 0, cs_exited = None\<rparr>"

subsection \<open>Addresses as text\<close>

lemma scan_dec_space: "scan_number (dec n @ [0x20]) = Some (False, n, [0x20])"
  by (rule scan_dec) (simp_all add: digit_val_def isdigit_def tolower_def)

lemma inet_aton_last_space:
  assumes "d \<le> 255" and "length acc = 3"
  shows "inet_aton_loop acc (dec d @ [0x20]) =
    Some (htonl (of_nat (foldl (\<lambda>a b. a * 256 + b) 0 acc * 256 + d)))"
  using assms dec_isdigit [of "hd (dec d)" d]
  by (subst inet_aton_loop.simps) (simp add: scan_dec_space isspace_def)

lemma inet_addr_makeip:
  assumes "length ip = 4"
  shows "inet_addr (makeip ip) = le32_of ip"
proof -
  obtain a b c d where ip: "ip = [a, b, c, d]"
    using assms by (auto simp: length_Suc_conv eval_nat_numeral)
  have "inet_aton (makeip ip) =
      Some (htonl (of_nat (((unat a * 256 + unat b) * 256 + unat c) * 256 + unat d)))"
    by (simp add: inet_aton_def makeip_def ip inet_aton_step inet_aton_last_space unat_byte_le)
  then have "inet_aton (makeip ip) = Some (le32 a b c d)"
    by (simp only: ntohl_quad)
  then show ?thesis
    by (simp add: inet_addr_def ip)
qed

text \<open>The search for a free service network ends: the third octet takes 256 values, and at most
  three of them clash.\<close>

lemma le32_and_prefix: "le32 d c b a AND 0xffffff00 = le32 0 c b a"
proof -
  have m: "(0xffffff00 :: u32) = NOT (mask 8)"
    by (simp add: mask_eq_exp_minus_1)
  show ?thesis
    unfolding m by (rule bit_word_eqI) (auto simp: le32_def bit_simps dest: bit_imp_le_length)
qed

lemma inet_addr_srv_mask: "htonl (inet_addr SRV_MASK) = 0xffffff00"
proof -
  have "SRV_MASK = dec 255 @ 0x2e # dec 255 @ 0x2e # dec 255 @ 0x2e # dec 0"
    by (simp add: str_def dec.simps)
  then have "inet_aton SRV_MASK = Some (htonl (of_nat (((255 * 256 + 255) * 256 + 255) * 256 + 0)))"
    by (simp only: inet_aton_quad)
  then show ?thesis
    by (simp add: inet_addr_def)
qed

lemma service_clash_words:
  "service_clash wanip wanmask server_ip relay_ip s \<longleftrightarrow>
     htonl (inet_addr s) AND 0xffffff00 \<in>
       {htonl (inet_addr wanip) AND htonl (inet_addr wanmask),
        htonl (inet_addr server_ip) AND 0xffffff00, htonl (inet_addr relay_ip) AND 0xffffff00}"
  by (auto simp: service_clash_def check_same_network2_def inet_addr_srv_mask)

lemma next_service_net_octet:
  assumes "inet_addr s = le32 a b c d"
  shows "inet_addr (next_service_net s) = le32 a b (c - 1) d"
proof -
  have m: "(255 :: byte) = - 1"
    by simp
  show ?thesis
    using assms by (simp add: next_service_net_def Let_def inet_addr_makeip m)
qed

lemma octet_prefix: "htonl (le32 a b c d) AND 0xffffff00 = le32 0 c b a"
  by (simp add: ntohl_def wire le32_and_prefix)

lemma octets_distinct: "le32 0 (c - of_nat i) b a = le32 0 (c - of_nat j) b a \<longleftrightarrow> (of_nat i :: byte) = of_nat j"
proof
  assume "le32 0 (c - of_nat i) b a = le32 0 (c - of_nat j) b a"
  then have "bytes_le32 (le32 0 (c - of_nat i) b a) = bytes_le32 (le32 0 (c - of_nat j) b a)"
    by simp
  then show "(of_nat i :: byte) = of_nat j" by simp
qed simp

lemma service_net_loop_unroll:
  assumes "\<not> service_clash wanip wanmask server_ip relay_ip ((next_service_net ^^ k) s)"
  shows "\<exists>j \<le> k. \<not> service_clash wanip wanmask server_ip relay_ip ((next_service_net ^^ j) s) \<and>
    service_net_loop wanip wanmask server_ip relay_ip s = Some (before_last_dot ((next_service_net ^^ j) s))"
  using assms
proof (induction k arbitrary: s)
  case 0
  then show ?case by (simp add: service_net_loop.simps [of _ _ _ _ s])
next
  case (Suc k)
  show ?case
  proof (cases "service_clash wanip wanmask server_ip relay_ip s")
    case True
    obtain j where j: "j \<le> k"
      "\<not> service_clash wanip wanmask server_ip relay_ip ((next_service_net ^^ j) (next_service_net s))"
      "service_net_loop wanip wanmask server_ip relay_ip (next_service_net s) =
        Some (before_last_dot ((next_service_net ^^ j) (next_service_net s)))"
      using Suc.IH [of "next_service_net s"] Suc.prems by (auto simp: funpow_swap1)
    then show ?thesis
      using True by (intro exI [of _ "Suc j"]) (simp add: service_net_loop.simps [of _ _ _ _ s] funpow_swap1)
  next
    case False
    then show ?thesis
      by (intro exI [of _ 0]) (simp add: service_net_loop.simps [of _ _ _ _ s])
  qed
qed

lemma service_net_loop_total:
  "\<exists>k \<le> 3. \<not> service_clash wanip wanmask server_ip relay_ip ((next_service_net ^^ k) s) \<and>
     service_net_loop wanip wanmask server_ip relay_ip s = Some (before_last_dot ((next_service_net ^^ k) s))"
proof -
  obtain a b c d where s: "inet_addr s = le32 a b c d"
    using le32_bytes [of "inet_addr s"] by metis
  have n: "inet_addr ((next_service_net ^^ k) s) = le32 a b (c - of_nat k) d" for k
    by (induction k) (simp_all add: s next_service_net_octet algebra_simps)
  define key where "key k = le32 0 (c - of_nat k) b a" for k :: nat
  define bad where "bad = {htonl (inet_addr wanip) AND htonl (inet_addr wanmask),
    htonl (inet_addr server_ip) AND 0xffffff00, htonl (inet_addr relay_ip) AND 0xffffff00}"
  have clash: "service_clash wanip wanmask server_ip relay_ip ((next_service_net ^^ k) s) \<longleftrightarrow> key k \<in> bad" for k
    by (simp only: service_clash_words n octet_prefix key_def bad_def)
  have "inj_on key {..3}"
  proof (rule inj_onI)
    fix i j :: nat
    assume "i \<in> {..3}" "j \<in> {..3}" "key i = key j"
    then have "unat (of_nat i :: byte) = unat (of_nat j :: byte)"
      by (simp add: key_def octets_distinct)
    then show "i = j"
      using \<open>i \<in> {..3}\<close> \<open>j \<in> {..3}\<close> by (simp add: unsigned_of_nat take_bit_nat_eq_self)
  qed
  then have "card (key ` {..3}) = 4"
    by (simp add: card_image)
  moreover have "card bad \<le> 3"
    unfolding bad_def by (simp add: card_insert_if)
  ultimately have "\<not> key ` {..3} \<subseteq> bad"
    using card_mono [of bad "key ` {..3}"] by (auto simp: bad_def)
  then obtain k where "k \<le> 3" "key k \<notin> bad"
    by auto
  with service_net_loop_unroll [of wanip wanmask server_ip relay_ip k s] clash show ?thesis
    by (meson order_trans)
qed

subsection \<open>The messages of the client\<close>

fun req_codes :: "dhcp_option list \<Rightarrow> byte list" where
  "req_codes [] = []"
| "req_codes (x # xs) = (if opt_code x = 0 then []
     else if opt_flags x AND OPTION_REQ \<noteq> 0 then opt_code x # req_codes xs else req_codes xs)"

definition requested_codes :: "byte list" where
  "requested_codes = [0x01, 0x03, 0x06, 0x0c, 0x0f, 0x1c]"

lemma req_codes_table: "req_codes dhcp_options = requested_codes"
  by (simp add: dhcp_options_def requested_codes_def)

lemma wr_at:
  "length pre = n \<Longrightarrow> length old = length new \<Longrightarrow> wr (pre @ old @ post) n new = Some (pre @ new @ post)"
  using wr_append_middle by blast

lemma write_requests_area:
  "length pre = e + 2 + len \<Longrightarrow> length old = length (req_codes xs) \<Longrightarrow>
     write_requests (pre @ old @ post) e len xs = Some (pre @ req_codes xs @ post, len + length (req_codes xs))"
proof (induction xs arbitrary: pre len old)
  case (Cons x xs)
  show ?case
  proof (cases "opt_code x \<noteq> 0 \<and> opt_flags x AND OPTION_REQ \<noteq> 0")
    case True
    then obtain y ys where old: "old = y # ys" "length ys = length (req_codes xs)"
      using Cons.prems(2) by (cases old) auto
    have "wr (pre @ y # ys @ post) (e + OPT_DATA + len) [opt_code x] = Some (pre @ opt_code x # ys @ post)"
      using wr_at [of pre "e + OPT_DATA + len" "[y]" "[opt_code x]" "ys @ post"] Cons.prems(1) by simp
    then show ?thesis
      using True Cons.IH [of "pre @ [opt_code x]" "len + 1" ys] Cons.prems(1) old by simp
  qed (use Cons in auto)
qed simp

lemma split_8:
  assumes "8 \<le> length xs"
  obtains l ys x zs where "xs = l # ys @ x # zs" and "length ys = 6"
proof -
  obtain l ws where xs: "xs = l # ws" "7 \<le> length ws"
    using assms by (cases xs) auto
  then have "ws = take 6 ws @ ws ! 6 # drop 7 ws"
    using id_take_nth_drop [of 6 ws] by simp
  with xs that [of l "take 6 ws"] show thesis by simp
qed

lemma add_requests_opts:
  assumes "msg_opts p ts" and "length (enc_tlvs ts) + 9 \<le> 308"
  obtains a where "add_requests p = Some (p\<lparr>m_options := a\<rparr>)" and "length a = 308"
    and "msg_opts (p\<lparr>m_options := a\<rparr>) (ts @ [(DHCP_PARAM_REQ, requested_codes)])"
proof -
  obtain junk where o: "m_options p = enc_tlvs ts @ DHCP_END # junk"
    "length (enc_tlvs ts) + 1 + length junk = 308" "list_all wf_tlv ts"
    using assms(1) unfolding msg_opts_def by (auto elim: opt_areaE)
  let ?e = "length (enc_tlvs ts)"
  have "8 \<le> length junk"
    using assms(2) o(2) by linarith
  then obtain l old x post where j: "junk = l # old @ x # post" "length old = 6"
    by (rule split_8)
  have e: "end_option (m_options p) 0 = Some ?e"
    using end_option_area assms(1) by (simp add: msg_opts_def)
  define a where "a = enc_tlvs ts @ [DHCP_PARAM_REQ, 6] @ requested_codes @ DHCP_END # post"
  have w: "wr (enc_tlvs ts @ DHCP_END # l # old @ x # post) (?e + OPT_CODE) [DHCP_PARAM_REQ] =
      Some (enc_tlvs ts @ DHCP_PARAM_REQ # l # old @ x # post)"
    using wr_at [of "enc_tlvs ts" ?e "[DHCP_END]" "[DHCP_PARAM_REQ]"] by simp
  have r: "write_requests (enc_tlvs ts @ DHCP_PARAM_REQ # l # old @ x # post) ?e 0 dhcp_options =
      Some (enc_tlvs ts @ DHCP_PARAM_REQ # l # requested_codes @ x # post, 6)"
    using write_requests_area [of "enc_tlvs ts @ [DHCP_PARAM_REQ, l]" ?e 0 old dhcp_options "x # post"] j(2)
    by (simp add: req_codes_table requested_codes_def)
  have w2: "wr (enc_tlvs ts @ DHCP_PARAM_REQ # l # requested_codes @ x # post) (?e + OPT_LEN) [6] =
      Some (enc_tlvs ts @ DHCP_PARAM_REQ # 6 # requested_codes @ x # post)"
    using wr_at [of "enc_tlvs ts @ [DHCP_PARAM_REQ]" "?e + 1" "[l]" "[6]"] by simp
  have w3: "wr (enc_tlvs ts @ DHCP_PARAM_REQ # 6 # requested_codes @ x # post) (?e + OPT_DATA + 6) [DHCP_END] =
      Some a"
    using wr_at [of "enc_tlvs ts @ [DHCP_PARAM_REQ, 6] @ requested_codes" "?e + 8" "[x]" "[DHCP_END]" post]
    by (simp add: a_def requested_codes_def add.commute)
  have "add_requests p = Some (p\<lparr>m_options := a\<rparr>)"
    using w w2 w3 e [unfolded o(1) j(1)] by (simp add: add_requests_def o(1) j(1) r)
  moreover have "length a = 308"
    using o(2) j by (simp add: a_def requested_codes_def)
  moreover have "msg_opts (p\<lparr>m_options := a\<rparr>) (ts @ [(DHCP_PARAM_REQ, requested_codes)])"
    using o(3) calculation(2)
    by (simp add: msg_opts_def opt_area_def a_def enc_tlvs_append enc_tlv_def wf_tlv_def requested_codes_def)
  ultimately show thesis by (rule that)
qed

text \<open>A configuration whose identifiers leave room for the rest of a message.\<close>

definition client_ok :: "client_config_t \<Rightarrow> bool" where
  "client_ok cfg \<longleftrightarrow> 6 \<le> length (k_arp cfg) \<and> wf_block (k_clientid cfg) \<and>
     k_clientid cfg ! OPT_CODE = DHCP_CLIENT_ID \<and>
     (case k_hostname cfg of None \<Rightarrow> length (k_clientid cfg) \<le> 250
      | Some h \<Rightarrow> wf_block h \<and> h ! OPT_CODE = DHCP_HOST_NAME \<and> length (k_clientid cfg) + length h \<le> 250)"

definition block_tlv :: "byte list \<Rightarrow> tlv" where
  "block_tlv d = (d ! OPT_CODE, drop 2 d)"

definition client_ident :: "client_config_t \<Rightarrow> tlv list" where
  "client_ident cfg = [block_tlv (k_clientid cfg)] @
     (case k_hostname cfg of None \<Rightarrow> [] | Some h \<Rightarrow> [block_tlv h]) @ [(DHCP_VENDOR, str ''MSFT 5.0'')]"

definition client_chaddr :: "client_config_t \<Rightarrow> byte list" where
  "client_chaddr cfg = take 6 (k_arp cfg) @ replicate 10 0"

text \<open>\<open>client_msg cfg t ts q\<close>: a message of type \<open>t\<close> with the identification of the client, followed by
  the options \<open>ts\<close>.\<close>

definition client_msg :: "client_config_t \<Rightarrow> byte \<Rightarrow> tlv list \<Rightarrow> dhcpMessage \<Rightarrow> bool" where
  "client_msg cfg t ts q \<longleftrightarrow> wf_msg q \<and> m_op q = BOOTREQUEST \<and> m_cookie q = htonl DHCP_MAGIC \<and>
     m_chaddr q = client_chaddr cfg \<and> m_giaddr q = 0 \<and>
     msg_opts q ([(DHCP_MESSAGE_TYPE, [t])] @ client_ident cfg @ ts)"

lemma add_block_fits:
  assumes "msg_opts p ts" and "wf_msg p" and "wf_tlv t" and "length (enc_tlvs ts) + length (snd t) + 3 < 308"
  obtains a where "msg_add_string p (enc_tlv t @ x) = Some (p\<lparr>m_options := a\<rparr>)"
    and "msg_opts (p\<lparr>m_options := a\<rparr>) (ts @ [t])" and "wf_msg (p\<lparr>m_options := a\<rparr>)"
proof -
  obtain a n where a: "add_option_string (m_options p) (enc_tlv t @ x) = Some (a, n)" "opt_area a (ts @ [t])"
    using add_option_string_fits [of "m_options p" ts t x] assms unfolding msg_opts_def by blast
  then have "length a = 308"
    by (simp add: opt_area_def)
  with a that [of a] assms(2) show thesis
    by (simp add: msg_add_string_def msg_opts_def wf_msg_def)
qed

lemma client_ident_length:
  assumes "client_ok cfg"
  shows "length (enc_tlvs ([(DHCP_MESSAGE_TYPE, [t])] @ client_ident cfg)) \<le> 263"
proof -
  have "length (snd (block_tlv d)) = length d - 2" for d
    by (simp add: block_tlv_def)
  with assms show ?thesis
    by (auto simp: client_ok_def client_ident_def enc_tlv_def str_def wf_block_def split: option.splits)
qed

lemma client_init_packet_msg:
  assumes "client_ok cfg" and "t \<in> {DHCPDISCOVER, DHCPREQUEST, DHCPRELEASE}"
  obtains q where "client_init_packet cfg t = Some q" and "client_msg cfg t [] q" and "m_ciaddr q = 0"
proof -
  obtain p where p: "init_header t = Some p" "wf_msg p" "msg_opts p [(DHCP_MESSAGE_TYPE, [t])]"
    "m_cookie p = htonl DHCP_MAGIC"
    using init_header_opts [of t] by blast
  have f: "m_op p = BOOTREQUEST" "m_chaddr p = replicate 16 0" "m_giaddr p = 0" "m_ciaddr p = 0"
    using p(1) assms(2) by (auto simp: init_header_def Let_def msg_add_simple_def zero_msg_def)
  define p1 where "p1 = p\<lparr>m_chaddr := client_chaddr cfg\<rparr>"
  have arp: "rd_n (k_arp cfg) 0 6 = Some (take 6 (k_arp cfg))"
    "wr (m_chaddr p) 0 (take 6 (k_arp cfg)) = Some (client_chaddr cfg)"
    using assms(1) by (simp_all add: client_ok_def rd_n_def wr_def f(2) client_chaddr_def)
  have p1: "wf_msg p1" "msg_opts p1 [(DHCP_MESSAGE_TYPE, [t])]"
    using p(2,3) assms(1) by (simp_all add: p1_def wf_msg_def msg_opts_def client_chaddr_def client_ok_def)
  have cid: "k_clientid cfg = enc_tlv (block_tlv (k_clientid cfg))" "wf_tlv (block_tlv (k_clientid cfg))"
    "length (snd (block_tlv (k_clientid cfg))) + 2 = length (k_clientid cfg)"
    "length (k_clientid cfg) \<le> 250"
    using assms(1) wf_block_tlv [of "k_clientid cfg"]
    by (auto simp: client_ok_def block_tlv_def wf_block_def split: option.splits)
  obtain a where a: "msg_add_string p1 (k_clientid cfg) = Some (p1\<lparr>m_options := a\<rparr>)"
    "msg_opts (p1\<lparr>m_options := a\<rparr>) ([(DHCP_MESSAGE_TYPE, [t])] @ [block_tlv (k_clientid cfg)])"
    "wf_msg (p1\<lparr>m_options := a\<rparr>)"
    using add_block_fits [OF p1(2,1) cid(2), of "[]"] cid by (auto simp: enc_tlv_def)
  obtain b ts where b: "(case k_hostname cfg of None \<Rightarrow> Some (p1\<lparr>m_options := a\<rparr>)
      | Some h \<Rightarrow> msg_add_string (p1\<lparr>m_options := a\<rparr>) h) = Some (p1\<lparr>m_options := b\<rparr>)"
    "client_ident cfg = [block_tlv (k_clientid cfg)] @ ts @ [(DHCP_VENDOR, str ''MSFT 5.0'')]"
    "msg_opts (p1\<lparr>m_options := b\<rparr>) ([(DHCP_MESSAGE_TYPE, [t]), block_tlv (k_clientid cfg)] @ ts)"
    "wf_msg (p1\<lparr>m_options := b\<rparr>)"
  proof (cases "k_hostname cfg")
    case None
    with that [of a "[]"] a show thesis by (simp add: client_ident_def)
  next
    case (Some h)
    have h: "h = enc_tlv (block_tlv h)" "wf_tlv (block_tlv h)" "length (snd (block_tlv h)) + 2 = length h"
      "length (k_clientid cfg) + length h \<le> 250"
      using assms(1) Some wf_block_tlv [of h] by (auto simp: client_ok_def block_tlv_def wf_block_def)
    obtain b where "msg_add_string (p1\<lparr>m_options := a\<rparr>) h = Some (p1\<lparr>m_options := b\<rparr>)"
      "msg_opts (p1\<lparr>m_options := b\<rparr>) (([(DHCP_MESSAGE_TYPE, [t])] @ [block_tlv (k_clientid cfg)]) @ [block_tlv h])"
      "wf_msg (p1\<lparr>m_options := b\<rparr>)"
      using add_block_fits [OF a(2,3) h(2), of "[]"] h cid(3) by (auto simp: enc_tlv_def)
    with that [of b "[block_tlv h]"] Some show thesis by (simp add: client_ident_def)
  qed
  have v: "vendor_id = enc_tlv (DHCP_VENDOR, str ''MSFT 5.0'') @ [0]" "wf_tlv (DHCP_VENDOR, str ''MSFT 5.0'')"
    by (simp_all add: vendor_id_def enc_tlv_def wf_tlv_def str_def)
  have "length (enc_tlvs ([(DHCP_MESSAGE_TYPE, [t]), block_tlv (k_clientid cfg)] @ ts)) + 10 \<le> 263"
    using client_ident_length [OF assms(1), of t] b(2) by (simp add: str_def)
  then obtain c where c: "msg_add_string (p1\<lparr>m_options := b\<rparr>) vendor_id = Some (p1\<lparr>m_options := c\<rparr>)"
    "msg_opts (p1\<lparr>m_options := c\<rparr>) ([(DHCP_MESSAGE_TYPE, [t])] @ client_ident cfg)" "wf_msg (p1\<lparr>m_options := c\<rparr>)"
    using add_block_fits [OF b(3,4) v(2), of "[0]"] by (auto simp: v(1) b(2) str_def)
  have "client_init_packet cfg t = Some (p1\<lparr>m_options := c\<rparr>)"
    using p(1) arp a(1) b(1) c(1) by (simp add: client_init_packet_def flip: p1_def)
  with that [of "p1\<lparr>m_options := c\<rparr>"] c(2,3) f p(4) show thesis
    by (simp add: client_msg_def p1_def)
qed

lemma client_msg_add:
  assumes "client_ok cfg" and "client_msg cfg t ts q" and "length (enc_tlvs ts) \<le> 6"
    and "code \<in> {DHCP_REQUESTED_IP, DHCP_SERVER_ID}"
  obtains a where "msg_add_simple q code d = Some (q\<lparr>m_options := a\<rparr>)"
    and "client_msg cfg t (ts @ [(code, bytes_le32 d)]) (q\<lparr>m_options := a\<rparr>)"
proof -
  let ?ts = "([(DHCP_MESSAGE_TYPE, [t])] @ client_ident cfg) @ ts"
  have l: "length (enc_tlvs ?ts) \<le> 269"
    using client_ident_length [OF assms(1), of t] assms(3) unfolding enc_tlvs_append by simp
  have t: "wf_tlv (code, bytes_le32 d)"
    using assms(4) by (auto simp: wf_tlv_def)
  obtain a where a: "msg_add_string q (enc_tlv (code, bytes_le32 d) @ []) = Some (q\<lparr>m_options := a\<rparr>)"
    "msg_opts (q\<lparr>m_options := a\<rparr>) (?ts @ [(code, bytes_le32 d)])" "wf_msg (q\<lparr>m_options := a\<rparr>)"
    using add_block_fits [of q ?ts "(code, bytes_le32 d)" "[]"] assms(2) l t
    unfolding client_msg_def by auto
  have "msg_add_simple q code d = Some (q\<lparr>m_options := a\<rparr>)"
    using assms(4) a(1) by (auto simp: msg_add_simple_strings)
  with that [of a] a(2,3) assms(2) show thesis
    by (simp add: client_msg_def)
qed

lemma client_msg_requests:
  assumes "client_ok cfg" and "client_msg cfg t ts q" and "length (enc_tlvs ts) \<le> 12"
  obtains a where "add_requests q = Some (q\<lparr>m_options := a\<rparr>)"
    and "client_msg cfg t (ts @ [(DHCP_PARAM_REQ, requested_codes)]) (q\<lparr>m_options := a\<rparr>)"
proof -
  let ?ts = "([(DHCP_MESSAGE_TYPE, [t])] @ client_ident cfg) @ ts"
  have l: "length (enc_tlvs ?ts) + 9 \<le> 308"
    using client_ident_length [OF assms(1), of t] assms(3) unfolding enc_tlvs_append by simp
  obtain a where "add_requests q = Some (q\<lparr>m_options := a\<rparr>)" "length a = 308"
    "msg_opts (q\<lparr>m_options := a\<rparr>) (?ts @ [(DHCP_PARAM_REQ, requested_codes)])"
    using add_requests_opts [of q ?ts] l assms(2) by (auto simp: client_msg_def)
  with that [of a] assms(2) show thesis
    by (auto simp: client_msg_def wf_msg_def)
qed

lemma client_msg_upd:
  "client_msg cfg t ts q \<Longrightarrow> client_msg cfg t ts (q\<lparr>m_xid := x\<rparr>)"
  "client_msg cfg t ts q \<Longrightarrow> client_msg cfg t ts (q\<lparr>m_ciaddr := y\<rparr>)"
  by (auto simp: client_msg_def wf_msg_def msg_opts_def)

lemma length_enc_ip [simp]: "length (enc_tlv (c, bytes_le32 d)) = 6"
  by simp

lemma discover_msg_opts:
  assumes "client_ok cfg"
  obtains q where "discover_msg cfg xid requested = Some q" and "m_xid q = xid"
    and "client_msg cfg DHCPDISCOVER ((if requested \<noteq> 0 then [(DHCP_REQUESTED_IP, bytes_le32 requested)] else []) @
      [(DHCP_PARAM_REQ, requested_codes)]) q"
proof -
  obtain q where q: "client_init_packet cfg DHCPDISCOVER = Some q" "client_msg cfg DHCPDISCOVER [] q"
    using client_init_packet_msg [OF assms, of DHCPDISCOVER] by auto
  let ?q = "q\<lparr>m_xid := xid\<rparr>"
  let ?ts = "if requested \<noteq> 0 then [(DHCP_REQUESTED_IP, bytes_le32 requested)] else []"
  obtain a where a: "(if requested \<noteq> 0 then msg_add_simple ?q DHCP_REQUESTED_IP requested else Some ?q) =
      Some (?q\<lparr>m_options := a\<rparr>)" "client_msg cfg DHCPDISCOVER ?ts (?q\<lparr>m_options := a\<rparr>)"
  proof (cases "requested = 0")
    case True
    with that [of "m_options q"] client_msg_upd(1) [OF q(2)] show thesis by simp
  next
    case False
    with client_msg_add [OF assms client_msg_upd(1) [OF q(2)], of DHCP_REQUESTED_IP xid requested] that
    show thesis by auto
  qed
  obtain b where "add_requests (?q\<lparr>m_options := a\<rparr>) = Some (?q\<lparr>m_options := a\<rparr>\<lparr>m_options := b\<rparr>)"
    "client_msg cfg DHCPDISCOVER (?ts @ [(DHCP_PARAM_REQ, requested_codes)]) (?q\<lparr>m_options := a\<rparr>\<lparr>m_options := b\<rparr>)"
    by (rule client_msg_requests [OF assms a(2)]) simp_all
  with a(1) q(1) that [of "?q\<lparr>m_options := b\<rparr>"] show thesis
    by (simp add: discover_msg_def)
qed

lemma selecting_msg_opts:
  assumes "client_ok cfg"
  obtains q where "selecting_msg cfg xid server requested = Some q" and "m_xid q = xid"
    and "client_msg cfg DHCPREQUEST [(DHCP_REQUESTED_IP, bytes_le32 requested),
      (DHCP_SERVER_ID, bytes_le32 server), (DHCP_PARAM_REQ, requested_codes)] q"
proof -
  obtain q where q: "client_init_packet cfg DHCPREQUEST = Some q" "client_msg cfg DHCPREQUEST [] q"
    using client_init_packet_msg [OF assms, of DHCPREQUEST] by auto
  let ?q = "q\<lparr>m_xid := xid\<rparr>"
  obtain a where a: "msg_add_simple ?q DHCP_REQUESTED_IP requested = Some (?q\<lparr>m_options := a\<rparr>)"
    "client_msg cfg DHCPREQUEST ([] @ [(DHCP_REQUESTED_IP, bytes_le32 requested)]) (?q\<lparr>m_options := a\<rparr>)"
    by (rule client_msg_add [OF assms client_msg_upd(1) [OF q(2)], of DHCP_REQUESTED_IP xid requested]) auto
  obtain b where b: "msg_add_simple (?q\<lparr>m_options := a\<rparr>) DHCP_SERVER_ID server =
      Some (?q\<lparr>m_options := a\<rparr>\<lparr>m_options := b\<rparr>)"
    "client_msg cfg DHCPREQUEST (([] @ [(DHCP_REQUESTED_IP, bytes_le32 requested)]) @ [(DHCP_SERVER_ID, bytes_le32 server)])
      (?q\<lparr>m_options := a\<rparr>\<lparr>m_options := b\<rparr>)"
    by (rule client_msg_add [OF assms a(2), of DHCP_SERVER_ID server]) auto
  obtain c where c: "add_requests (?q\<lparr>m_options := b\<rparr>) = Some (?q\<lparr>m_options := c\<rparr>)"
    "client_msg cfg DHCPREQUEST [(DHCP_REQUESTED_IP, bytes_le32 requested),
      (DHCP_SERVER_ID, bytes_le32 server), (DHCP_PARAM_REQ, requested_codes)] (?q\<lparr>m_options := c\<rparr>)"
    by (rule client_msg_requests [OF assms b(2)]) auto
  with a(1) b(1) q(1) that [of "?q\<lparr>m_options := c\<rparr>"] show thesis
    by (simp add: selecting_msg_def)
qed

lemma send_renew_defined:
  assumes "client_ok cfg"
  obtains r out where "send_renew env cfg xid server ciaddr = Some (r, out)"
proof -
  obtain q where q: "client_init_packet cfg DHCPREQUEST = Some q" "client_msg cfg DHCPREQUEST [] q"
    using client_init_packet_msg [OF assms, of DHCPREQUEST] by auto
  obtain a where "add_requests (q\<lparr>m_xid := xid, m_ciaddr := ciaddr\<rparr>) =
      Some (q\<lparr>m_xid := xid, m_ciaddr := ciaddr\<rparr>\<lparr>m_options := a\<rparr>)"
    by (rule client_msg_requests [OF assms client_msg_upd(2) [OF client_msg_upd(1) [OF q(2)]]]) auto
  with q(1) have "send_renew env cfg xid server ciaddr \<noteq> None"
    by (simp add: send_renew_def split: prod.splits)
  with that show thesis by auto
qed

lemma send_release_defined:
  assumes "client_ok cfg"
  obtains r out where "send_release env cfg server ciaddr = Some (r, out)"
proof -
  obtain q where q: "client_init_packet cfg DHCPRELEASE = Some q" "client_msg cfg DHCPRELEASE [] q"
    using client_init_packet_msg [OF assms, of DHCPRELEASE] by auto
  let ?q = "q\<lparr>m_xid := ce_random env, m_ciaddr := ciaddr\<rparr>"
  obtain a where a: "msg_add_simple ?q DHCP_REQUESTED_IP ciaddr = Some (?q\<lparr>m_options := a\<rparr>)"
    "client_msg cfg DHCPRELEASE ([] @ [(DHCP_REQUESTED_IP, bytes_le32 ciaddr)]) (?q\<lparr>m_options := a\<rparr>)"
    by (rule client_msg_add [OF assms client_msg_upd(2) [OF client_msg_upd(1) [OF q(2)]],
          of DHCP_REQUESTED_IP ciaddr "ce_random env" ciaddr]) auto
  obtain b where "msg_add_simple (?q\<lparr>m_options := a\<rparr>) DHCP_SERVER_ID server =
      Some (?q\<lparr>m_options := a\<rparr>\<lparr>m_options := b\<rparr>)"
    by (rule client_msg_add [OF assms a(2), of DHCP_SERVER_ID server]) auto
  with q(1) a(1) have "send_release env cfg server ciaddr \<noteq> None"
    by (simp add: send_release_def split: prod.splits)
  with that show thesis by auto
qed

lemma send_discover_defined:
  assumes "client_ok cfg"
  obtains r out where "send_discover env cfg xid requested = Some (r, out)"
proof -
  obtain q where "discover_msg cfg xid requested = Some q"
    using discover_msg_opts [OF assms] by blast
  then have "send_discover env cfg xid requested \<noteq> None"
    by (simp add: send_discover_def split: prod.splits)
  with that show thesis by auto
qed

lemma send_selecting_defined:
  assumes "client_ok cfg"
  obtains r out where "send_selecting env cfg xid server requested = Some (r, out)"
proof -
  obtain q where "selecting_msg cfg xid server requested = Some q"
    using selecting_msg_opts [OF assms] by blast
  then have "send_selecting env cfg xid server requested \<noteq> None"
    by (simp add: send_selecting_def split: prod.splits)
  with that show thesis by auto
qed

lemma client_timeout_defined:
  assumes "client_ok cfg"
  shows "client_timeout env cfg st \<noteq> None"
proof -
  have "\<forall>x y. \<exists>r. send_discover env cfg x y = Some r" "\<forall>x y z. \<exists>r. send_selecting env cfg x y z = Some r"
    "\<forall>x y z. \<exists>r. send_renew env cfg x y z = Some r"
    using send_discover_defined [OF assms] send_selecting_defined [OF assms] send_renew_defined [OF assms]
    by metis+
  then obtain f g h where "\<forall>x y. send_discover env cfg x y = Some (f x y)"
    "\<forall>x y z. send_selecting env cfg x y z = Some (g x y z)" "\<forall>x y z. send_renew env cfg x y z = Some (h x y z)"
    by metis
  then show ?thesis
    by (cases "cs_state st")
      (simp_all add: client_timeout_def timeout_selecting_def timeout_requesting_def timeout_renewing_def
        timeout_rebinding_def Let_def split: prod.split)
qed

subsection \<open>Invariants of the state machine\<close>

text \<open>The socket that each state listens on, and the bound on the number of retries.\<close>

fun mode_of :: "client_phase \<Rightarrow> listen_mode" where
  "mode_of INIT_SELECTING = LISTEN_RAW"
| "mode_of REQUESTING = LISTEN_RAW"
| "mode_of BOUND = LISTEN_NONE"
| "mode_of RENEWING = LISTEN_KERNEL"
| "mode_of REBINDING = LISTEN_KERNEL"
| "mode_of INIT_REBOOT = LISTEN_NONE"
| "mode_of RENEW_REQUESTED = LISTEN_KERNEL"
| "mode_of RELEASED = LISTEN_NONE"

definition client_inv :: "client_state \<Rightarrow> bool" where
  "client_inv st \<longleftrightarrow> cs_listen_mode st = mode_of (cs_state st) \<and> cs_packet_num st \<le> 3 \<and>
     cs_state st \<noteq> INIT_REBOOT \<and> (cs_fd st \<longrightarrow> cs_listen_mode st \<noteq> LISTEN_NONE)"

lemma client_inv_frame [simp]:
  "client_inv (st\<lparr>cs_timeout := t\<rparr>) = client_inv st"
  "client_inv (st\<lparr>cs_packet := p\<rparr>) = client_inv st"
  "client_inv (exit_client r st) = client_inv st"
  by (simp_all add: client_inv_def exit_client_def)

lemma timeout_selecting_inv:
  "timeout_selecting env cfg st = Some (st', out) \<Longrightarrow> client_inv st \<Longrightarrow> cs_state st = INIT_SELECTING \<Longrightarrow>
     client_inv st'"
  by (auto simp: timeout_selecting_def client_inv_def exit_client_def Let_def split: if_splits bind_splits)

lemma timeout_requesting_inv:
  "timeout_requesting env cfg st = Some (st', out) \<Longrightarrow> client_inv st \<Longrightarrow> client_inv st'"
  by (auto simp: timeout_requesting_def client_inv_def change_mode_def Let_def split: if_splits bind_splits)

lemma timeout_renewing_inv:
  "timeout_renewing env cfg st = Some (st', out) \<Longrightarrow> client_inv st \<Longrightarrow> cs_state st = RENEWING \<Longrightarrow>
     client_inv st'"
  by (auto simp: timeout_renewing_def client_inv_def Let_def split: if_splits bind_splits)

lemma timeout_rebinding_inv:
  "timeout_rebinding env cfg st = Some (st', out) \<Longrightarrow> client_inv st \<Longrightarrow> client_inv st'"
  by (auto simp: timeout_rebinding_def client_inv_def change_mode_def Let_def split: if_splits bind_splits)

lemma client_timeout_inv:
  assumes "client_timeout env cfg st = Some (st', out)" and "client_inv st"
  shows "client_inv st'"
proof (cases "cs_state st")
  case BOUND
  have "client_inv (change_mode LISTEN_KERNEL (st\<lparr>cs_state := RENEWING\<rparr>))"
    using assms(2) by (simp add: client_inv_def change_mode_def)
  with BOUND assms(1) show ?thesis
    by (simp add: client_timeout_def timeout_renewing_inv change_mode_def)
qed (use assms in \<open>auto simp: client_timeout_def intro: timeout_selecting_inv timeout_requesting_inv
      timeout_renewing_inv timeout_rebinding_inv\<close>)

lemma handle_offer_inv:
  "handle_offer env cfg p m st = Some (st', out) \<Longrightarrow> client_inv st \<Longrightarrow> cs_state st = INIT_SELECTING \<Longrightarrow>
     client_inv st'"
  by (auto simp: handle_offer_def client_inv_def split: if_splits bind_splits option.splits)

lemma handle_ack_inv: "handle_ack env cfg p st = Some (st', out) \<Longrightarrow> client_inv st \<Longrightarrow> client_inv st'"
  by (auto simp: handle_ack_def client_inv_def change_mode_def exit_client_def Let_def
      split: if_splits bind_splits)

lemma handle_nak_inv: "handle_nak env p st = (st', out) \<Longrightarrow> client_inv st \<Longrightarrow> client_inv st'"
  by (auto simp: handle_nak_def client_inv_def change_mode_def)

lemma chk_packet_inv: "chk_packet env p st = Some (st', out) \<Longrightarrow> client_inv st \<Longrightarrow> client_inv st'"
  by (auto simp: chk_packet_def client_inv_def exit_client_def Let_def split: bind_splits option.splits)

lemma client_message_inv:
  "client_message env cfg p st = Some (st', out) \<Longrightarrow> client_inv st \<Longrightarrow> client_inv st'"
  by (auto simp: client_message_def split: if_splits bind_splits option.splits
      intro: chk_packet_inv handle_offer_inv handle_ack_inv handle_nak_inv)

lemma client_packet_inv:
  assumes "client_packet env cfg input st = Some (st', out)" and "client_inv st"
  shows "client_inv st'"
proof -
  have "client_inv (st\<lparr>cs_packet := p\<rparr>)" "client_inv (change_mode (cs_listen_mode st) (st\<lparr>cs_packet := p\<rparr>))" for p
    using assms(2) by (auto simp: client_inv_def change_mode_def)
  with assms(1) show ?thesis
    by (auto simp: client_packet_def Let_def split: if_splits bind_splits dest!: client_message_inv)
qed

lemma perform_renew_inv: "client_inv st \<Longrightarrow> client_inv (fst (perform_renew st))"
  by (cases "cs_state st") (auto simp: perform_renew_def client_inv_def change_mode_def)

lemma perform_release_inv:
  "perform_release env cfg st = Some (st', out) \<Longrightarrow> client_inv st \<Longrightarrow> client_inv st'"
  by (auto simp: perform_release_def client_inv_def change_mode_def split: bind_splits)

lemma client_step_cases:
  assumes "client_step env cfg st ev = Some (st', out)"
  obtains (exited) "cs_exited st \<noteq> None" "st' = st" "out = []"
    | (no_socket) "cs_exited st = None" "st' = exit_client 0 st" "out = []"
    | (react) st1 where "cs_exited st = None" "client_react env cfg st1 ev = Some (st', out)"
      "st1 = (if cs_listen_mode st \<noteq> LISTEN_NONE then st\<lparr>cs_fd := True\<rparr> else st)"
proof (cases "cs_exited st \<noteq> None \<or> cs_listen_mode st \<noteq> LISTEN_NONE \<and> \<not> cs_fd st \<and> \<not> ce_listen_ok env")
  case True
  with assms exited no_socket show thesis
    by (auto simp: client_step_def split: if_splits)
next
  case False
  then have "client_step env cfg st ev =
      client_react env cfg (if cs_listen_mode st \<noteq> LISTEN_NONE then st\<lparr>cs_fd := True\<rparr> else st) ev"
    unfolding client_step_def by (simp only: if_False if_True de_Morgan_disj not_not) simp
  with assms react False show thesis by simp
qed

lemma client_react_inv:
  assumes "client_react env cfg st ev = Some (st', out)" and "client_inv st"
  shows "client_inv st'"
proof (cases "client_wait env st \<le> 0")
  case True
  with assms show ?thesis
    by (auto simp: client_react_def intro: client_timeout_inv)
next
  case False
  with assms show ?thesis
  proof (cases ev)
    case (Cev_signal s)
    show ?thesis
    proof (cases s)
      case (Some x)
      with Cev_signal assms False perform_renew_inv [OF assms(2)] show ?thesis
        by (cases x) (auto simp: client_react_def intro: perform_release_inv)
    qed (use Cev_signal assms False in \<open>simp add: client_react_def\<close>)
  qed (auto simp: client_react_def split: if_splits intro: client_timeout_inv client_packet_inv)
qed

lemma client_step_inv:
  assumes "client_step env cfg st ev = Some (st', out)" and "client_inv st"
  shows "client_inv st'"
  using assms(1)
proof (cases rule: client_step_cases)
  case (react st1)
  then have "client_inv st1"
    using assms(2) by (auto simp: client_inv_def)
  with react(2) show ?thesis
    by (rule client_react_inv)
qed (use assms(2) in simp_all)

inductive client_reach :: "client_config_t \<Rightarrow> client_state \<Rightarrow> client_state \<Rightarrow> bool" for cfg st0 where
  start: "client_reach cfg st0 st0"
| step: "client_reach cfg st0 st \<Longrightarrow> client_step env cfg st ev = Some (st', out) \<Longrightarrow> client_reach cfg st0 st'"

lemma client_start_inv: "client_inv (client_start requested junk)"
  by (simp add: client_start_def client_inv_def change_mode_def)

subsection \<open>Timers\<close>

text \<open>The timers of a lease are in order.\<close>

definition timers_ok :: "client_state \<Rightarrow> bool" where
  "timers_ok st \<longleftrightarrow> cs_t1 st \<le> cs_t2 st \<and> cs_t2 st \<le> cs_lease st"

lemma unat_times_7: "unat (w :: u32) < 613566757 \<Longrightarrow> unat (w * 7) = unat w * 7"
  by (simp add: unat_word_ariths)

lemma unat_drop_3: "unat (drop_bit 3 (w :: u32)) = unat w div 8"
  by (simp add: drop_bit_eq_div unat_div)

lemma unat_half: "unat ((w :: u32) div 2) = unat w div 2"
  by (simp add: unat_div)

lemma unat_slack: "unat ((w :: u32) div 14400 + 1) = unat w div 14400 + 1"
proof -
  have "unat w div 14400 \<le> 4294967295 div 14400"
    by (rule div_le_mono) (rule unat_le_u32_max)
  then show ?thesis
    by (simp add: unat_word_ariths unat_div)
qed

text \<open>Halving the distance between two times.\<close>

lemma midpoint:
  assumes "(a :: u32) \<le> b"
  shows "unat ((b - a) div 2 + a) = unat a + unat (b - a) div 2"
    and "(b - a) div 2 + a \<le> b" and "unat (b - ((b - a) div 2 + a)) = unat (b - a) - unat (b - a) div 2"
proof -
  have d: "unat (b - a) = unat b - unat a" "unat a \<le> unat b"
    using assms by (simp_all add: word_le_nat_alt unat_sub)
  have "unat ((b - a) div 2) + unat a < 2 ^ 32"
    using d unat_le_u32_max [of b] by (simp add: unat_half)
  then have m: "unat ((b - a) div 2 + a) = unat ((b - a) div 2) + unat a"
    by (simp add: unat_word_ariths)
  then show *: "unat ((b - a) div 2 + a) = unat a + unat (b - a) div 2"
    by (simp add: unat_half)
  then show "(b - a) div 2 + a \<le> b"
    using d by (simp add: word_le_nat_alt)
  then show "unat (b - ((b - a) div 2 + a)) = unat (b - a) - unat (b - a) div 2"
    using * d by (simp add: unat_sub word_le_nat_alt)
qed

text \<open>Rounds in which nothing arrives: each ends with a timeout.\<close>

fun silent :: "client_config_t \<Rightarrow> client_env list \<Rightarrow> client_state \<Rightarrow> client_state option" where
  "silent cfg [] st = Some st"
| "silent cfg (env # envs) st =
     Option.bind (client_step env cfg st Cev_timeout) (\<lambda>r. silent cfg envs (fst r))"

lemma silent_append: "silent cfg (xs @ ys) st = Option.bind (silent cfg xs st) (silent cfg ys)"
  by (induction xs arbitrary: st) (auto simp: Option.bind_assoc split: bind_splits)

definition running :: "client_state \<Rightarrow> bool" where
  "running st \<longleftrightarrow> cs_exited st = None \<and> timers_ok st"

text \<open>The distance to the next deadline is halved or the state is left.\<close>

definition halved :: "nat \<Rightarrow> nat \<Rightarrow> bool" where
  "halved d d' \<longleftrightarrow> 1 < d \<and> d' = d - d div 2"

lemma not_slack: "\<not> d \<le> (w :: u32) div 14400 + 1 \<Longrightarrow> 1 < unat d"
  by (simp add: word_le_nat_alt unat_slack)

lemma timeout_rebinding_progress:
  assumes "client_ok cfg" and "running st" and "cs_state st = REBINDING"
  shows "\<exists>st' out. timeout_rebinding env cfg st = Some (st', out) \<and>
    (cs_state st' = INIT_SELECTING \<or> cs_state st' = REBINDING \<and> running st' \<and>
      halved (unat (cs_lease st - cs_t2 st)) (unat (cs_lease st' - cs_t2 st')))"
proof (cases "cs_lease st - cs_t2 st \<le> cs_lease st div 14400 + 1")
  case True
  then show ?thesis
    by (simp add: timeout_rebinding_def change_mode_def)
next
  case False
  have t: "cs_t2 st \<le> cs_lease st" "cs_t1 st \<le> cs_t2 st"
    using assms(2) by (simp_all add: running_def timers_ok_def)
  have "cs_t2 st \<le> (cs_lease st - cs_t2 st) div 2 + cs_t2 st"
    using midpoint(1) [OF t(1)] by (simp add: word_le_nat_alt)
  then have "cs_t1 st \<le> (cs_lease st - cs_t2 st) div 2 + cs_t2 st"
    using t(2) by (rule order_trans [rotated])
  moreover obtain r out where "send_renew env cfg (ce_random env) 0 (cs_requested_ip st) = Some (r, out)"
    using send_renew_defined [OF assms(1)] .
  ultimately show ?thesis
    using False assms(2,3) midpoint [OF t(1)] not_slack [OF False]
    by (simp add: timeout_rebinding_def Let_def running_def timers_ok_def halved_def)
qed

lemma timeout_renewing_progress:
  assumes "client_ok cfg" and "running st" and "cs_state st = RENEWING"
  shows "\<exists>st' out. timeout_renewing env cfg st = Some (st', out) \<and> running st' \<and>
    (cs_state st' = REBINDING \<or> cs_state st' = RENEWING \<and>
      halved (unat (cs_t2 st - cs_t1 st)) (unat (cs_t2 st' - cs_t1 st')))"
proof (cases "cs_t2 st - cs_t1 st \<le> cs_lease st div 14400 + 1")
  case True
  then show ?thesis
    using assms(2) by (simp add: timeout_renewing_def running_def timers_ok_def)
next
  case False
  have t: "cs_t1 st \<le> cs_t2 st" "cs_t2 st \<le> cs_lease st"
    using assms(2) by (simp_all add: running_def timers_ok_def)
  obtain r out where "send_renew env cfg (ce_random env) (cs_server_addr st) (cs_requested_ip st) = Some (r, out)"
    using send_renew_defined [OF assms(1)] .
  then show ?thesis
    using False assms(2,3) t midpoint [OF t(1)] not_slack [OF False]
    by (simp add: timeout_renewing_def Let_def running_def timers_ok_def halved_def)
qed

definition opened :: "client_state \<Rightarrow> client_state" where
  "opened st = (if cs_listen_mode st \<noteq> LISTEN_NONE then st\<lparr>cs_fd := True\<rparr> else st)"

lemma opened_sel [simp]:
  "cs_state (opened st) = cs_state st" "cs_t1 (opened st) = cs_t1 st" "cs_t2 (opened st) = cs_t2 st"
  "cs_lease (opened st) = cs_lease st" "running (opened st) = running st"
  by (simp_all add: opened_def running_def timers_ok_def)

lemma client_step_timeout:
  "running st \<Longrightarrow> ce_listen_ok env \<Longrightarrow> client_step env cfg st Cev_timeout = client_timeout env cfg (opened st)"
  by (simp add: client_step_def client_react_def running_def flip: opened_def)

lemma renewing_step:
  assumes "client_ok cfg" and "ce_listen_ok env" and "running st" and "cs_state st \<in> {BOUND, RENEWING}"
  shows "\<exists>st' out. client_step env cfg st Cev_timeout = Some (st', out) \<and> running st' \<and>
    (cs_state st' = REBINDING \<or> cs_state st' = RENEWING \<and>
      halved (unat (cs_t2 st - cs_t1 st)) (unat (cs_t2 st' - cs_t1 st')))"
proof -
  define st1 where "st1 = (if cs_state st = BOUND
    then change_mode LISTEN_KERNEL ((opened st)\<lparr>cs_state := RENEWING\<rparr>) else opened st)"
  have f: "cs_state st1 = RENEWING" "cs_t1 st1 = cs_t1 st" "cs_t2 st1 = cs_t2 st" "running st1"
    using assms(3,4) by (auto simp: st1_def change_mode_def opened_def running_def timers_ok_def)
  have "client_step env cfg st Cev_timeout = timeout_renewing env cfg st1"
    using assms by (auto simp: client_step_timeout client_timeout_def st1_def)
  with timeout_renewing_progress [OF assms(1) f(4,1), of env] f show ?thesis by simp
qed

lemma halved_pow: "halved d d' \<Longrightarrow> d \<le> 2 ^ Suc k \<Longrightarrow> d' \<le> 2 ^ k"
  by (simp add: halved_def)

lemma silent_rebinding:
  assumes "client_ok cfg"
  shows "running st \<Longrightarrow> cs_state st = REBINDING \<Longrightarrow> unat (cs_lease st - cs_t2 st) \<le> 2 ^ k \<Longrightarrow>
    k < length envs \<Longrightarrow> \<forall>env \<in> set envs. ce_listen_ok env \<Longrightarrow>
    \<exists>n \<le> Suc k. \<exists>st'. silent cfg (take n envs) st = Some st' \<and> cs_state st' = INIT_SELECTING"
proof (induction k arbitrary: st envs)
  case 0
  then obtain env es where es: "envs = env # es" "ce_listen_ok env"
    by (cases envs) auto
  obtain st' out where "timeout_rebinding env cfg (opened st) = Some (st', out)"
    "cs_state st' = INIT_SELECTING"
    using timeout_rebinding_progress [OF assms, of "opened st" env] 0 by (auto simp: halved_def)
  then show ?case
    using 0 es by (intro exI [of _ 1]) (simp add: client_step_timeout client_timeout_def)
next
  case (Suc k)
  then obtain env es where es: "envs = env # es" "ce_listen_ok env" "k < length es"
    "\<forall>env \<in> set es. ce_listen_ok env"
    by (cases envs) auto
  obtain st1 out where s: "timeout_rebinding env cfg (opened st) = Some (st1, out)"
    "cs_state st1 = INIT_SELECTING \<or> cs_state st1 = REBINDING \<and> running st1 \<and>
      halved (unat (cs_lease st - cs_t2 st)) (unat (cs_lease st1 - cs_t2 st1))"
    using timeout_rebinding_progress [OF assms, of "opened st" env] Suc.prems by auto
  have step: "silent cfg (take (Suc n) envs) st = silent cfg (take n es) st1" for n
    using s(1) es Suc.prems by (simp add: client_step_timeout client_timeout_def)
  show ?case
  proof (cases "cs_state st1 = INIT_SELECTING")
    case True
    with step [of 0] show ?thesis by (intro exI [of _ 1]) simp
  next
    case False
    then obtain n st' where "n \<le> Suc k" "silent cfg (take n es) st1 = Some st'" "cs_state st' = INIT_SELECTING"
      using Suc.IH [of st1 es] s(2) halved_pow Suc.prems(3) es by blast
    with step [of n] show ?thesis by (intro exI [of _ "Suc n"]) simp
  qed
qed

lemma silent_renewing:
  assumes "client_ok cfg"
  shows "running st \<Longrightarrow> cs_state st \<in> {BOUND, RENEWING} \<Longrightarrow> unat (cs_t2 st - cs_t1 st) \<le> 2 ^ k \<Longrightarrow>
    k < length envs \<Longrightarrow> \<forall>env \<in> set envs. ce_listen_ok env \<Longrightarrow>
    \<exists>n \<le> Suc k. \<exists>st'. silent cfg (take n envs) st = Some st' \<and> cs_state st' = REBINDING \<and> running st'"
proof (induction k arbitrary: st envs)
  case 0
  then obtain env es where es: "envs = env # es" "ce_listen_ok env"
    by (cases envs) auto
  obtain st' out where "client_step env cfg st Cev_timeout = Some (st', out)" "cs_state st' = REBINDING"
    "running st'"
    using renewing_step [OF assms es(2) 0(1,2)] 0(3) by (auto simp: halved_def)
  then show ?case
    using es by (intro exI [of _ 1]) simp
next
  case (Suc k)
  then obtain env es where es: "envs = env # es" "ce_listen_ok env" "k < length es"
    "\<forall>env \<in> set es. ce_listen_ok env"
    by (cases envs) auto
  obtain st1 out where s: "client_step env cfg st Cev_timeout = Some (st1, out)" "running st1"
    "cs_state st1 = REBINDING \<or> cs_state st1 = RENEWING \<and>
      halved (unat (cs_t2 st - cs_t1 st)) (unat (cs_t2 st1 - cs_t1 st1))"
    using renewing_step [OF assms es(2) Suc.prems(1,2)] by blast
  have step: "silent cfg (take (Suc n) envs) st = silent cfg (take n es) st1" for n
    using s(1) es(1) by simp
  show ?case
  proof (cases "cs_state st1 = REBINDING")
    case True
    with step [of 0] s(2) show ?thesis by (intro exI [of _ 1]) simp
  next
    case False
    then obtain n st' where "n \<le> Suc k" "silent cfg (take n es) st1 = Some st'" "cs_state st' = REBINDING"
      "running st'"
      using Suc.IH [of st1 es] s(2,3) halved_pow Suc.prems(3) es by blast
    with step [of n] show ?thesis by (intro exI [of _ "Suc n"]) simp
  qed
qed

lemma client_timeout_not_bound:
  "client_timeout env cfg st = Some (st', out) \<Longrightarrow> cs_state st' \<noteq> BOUND"
  by (cases "cs_state st")
    (auto simp: client_timeout_def timeout_selecting_def timeout_requesting_def timeout_renewing_def
      timeout_rebinding_def change_mode_def exit_client_def Let_def split: if_splits bind_splits)

lemma client_message_bound:
  assumes "client_message env cfg p st = Some (st', out)" and "cs_state st \<noteq> BOUND" and "cs_state st' = BOUND"
  shows "m_xid p = cs_xid st \<and> (\<exists>op. get_option p DHCP_MESSAGE_TYPE = Some (Some op) \<and> opt_byte p op = Some DHCPACK) \<and>
    cs_state st \<in> {RENEW_REQUESTED, REQUESTING, RENEWING, REBINDING} \<and> handle_ack env cfg p st = Some (st', out)"
proof -
  have "cs_state st' = cs_state st" if "chk_packet env p st = Some (st', out)"
    using that by (auto simp: chk_packet_def exit_client_def Let_def split: bind_splits)
  moreover have "cs_state st' \<noteq> BOUND" if "handle_offer env cfg p m st = Some (st', out)" for m
    using that assms(2) by (auto simp: handle_offer_def split: if_splits bind_splits option.splits)
  moreover have "cs_state st' \<noteq> BOUND" if "handle_nak env p st = (st', out)"
    using that by (auto simp: handle_nak_def change_mode_def)
  ultimately show ?thesis
    using assms by (auto simp: client_message_def split: if_splits bind_splits option.splits)
qed

lemma handle_ack_result:
  assumes "handle_ack env cfg p st = Some (st', out)"
  shows "ack_lease p = Some (cs_lease st') \<and> cs_t1 st' = cs_lease st' div 2 \<and>
    cs_t2 st' = drop_bit 3 (cs_lease st' * 7) \<and> cs_requested_ip st' = m_yiaddr p \<and> cs_state st' = BOUND \<and>
    cs_timeout st' = cs_t1 st' + ce_now env \<and> cs_packet st' = cs_packet st \<and>
    (\<exists>s. Cl_script (Some p) s \<in> set out)"
  using assms by (auto simp: handle_ack_def change_mode_def exit_client_def Let_def split: bind_splits if_splits)

subsection \<open>Receiving an answer\<close>

lemma client_receives:
  assumes "wf_msg p" and "wf_msg (cs_packet st)" and "ntohl (m_cookie p) = DHCP_MAGIC"
    and "cs_listen_mode st = LISTEN_RAW" and "cs_exited st = None" and "cs_fd st \<or> ce_listen_ok env"
    and "0 < client_wait env st"
  shows "client_step env cfg st (Cev_packet (Some (packet_bytes (raw_frame p s sp d CLIENT_PORT)))) =
    client_message env cfg p (st\<lparr>cs_fd := True, cs_packet := p\<rparr>)"
proof -
  have "client_wait env (st\<lparr>cs_fd := True\<rparr>) = client_wait env st"
    by (simp add: client_wait_def)
  then have "client_step env cfg st (Cev_packet (Some (packet_bytes (raw_frame p s sp d CLIENT_PORT)))) =
      client_packet env cfg (Some (packet_bytes (raw_frame p s sp d CLIENT_PORT))) (st\<lparr>cs_fd := True\<rparr>)"
    using assms(4-7) by (auto simp: client_step_def client_react_def)
  then show ?thesis
    using raw_frame_received [OF assms(1-3), of s sp d] assms(4) by (simp add: client_packet_def)
qed

lemma client_message_type:
  assumes "m_xid p = cs_xid st" and "\<not> k_dhclient_chk cfg" and "msg_opts p ts" and "no_overload ts"
    and "map_of ts DHCP_MESSAGE_TYPE = Some [t]"
  shows "client_message env cfg p st =
    (if cs_state st = INIT_SELECTING then handle_offer env cfg p t st
     else if cs_state st \<in> {RENEW_REQUESTED, REQUESTING, RENEWING, REBINDING} then
       (if t = DHCPACK then handle_ack env cfg p st
        else if t = DHCPNAK then Some (handle_nak env p st)
        else Some (st, []))
     else Some (st, []))"
proof -
  obtain op where "get_option p DHCP_MESSAGE_TYPE = Some (Some op)" "opt_byte p op = Some t"
    by (rule get_option_found [OF assms(3,4) _ assms(5)]) auto
  with assms(1,2) show ?thesis
    unfolding client_message_def by simp
qed

lemma ack_lease_value:
  assumes "msg_opts p ts" and "no_overload ts"
    and "\<forall>v. map_of ts DHCP_LEASE_TIME = Some v \<longrightarrow> 4 \<le> length v"
  shows "ack_lease p = Some (case map_of ts DHCP_LEASE_TIME of None \<Rightarrow> 3600 | Some v \<Rightarrow> ntohl (le32_of (take 4 v)))"
proof (cases "map_of ts DHCP_LEASE_TIME")
  case None
  then show ?thesis
    using get_option_absent [OF assms(1,2)] by (simp add: ack_lease_def)
next
  case (Some v)
  obtain op where "get_option p DHCP_LEASE_TIME = Some (Some op)" "opt_u32 p op = Some (le32_of (take 4 v))"
    by (rule get_option_u32 [OF assms(1,2) _ Some]) (use assms(3) Some in auto)
  with Some show ?thesis
    by (simp add: ack_lease_def)
qed

subsection \<open>Sample values\<close>

definition sample_client :: client_config_t where
  "sample_client = \<lparr>k_foreground = True, k_quit_after_lease = False, k_abort_if_no_lease = False,
     k_background_if_no_lease = False, k_interface = str ''eth1'', k_clientid = default_clientid [2, 0, 0, 0, 0, 1],
     k_hostname = None, k_ifindex = 3, k_arp = [2, 0, 0, 0, 0, 1], k_dhclient_chk = False\<rparr>"

definition sample_cenv :: client_env where
  "sample_cenv = \<lparr>ce_time = 1000, ce_now = 1000, ce_random = 77,
     ce_sock = \<lparr>so_socket = 3, so_setsockopt = 0, so_bind = 0, so_connect = 0, so_send = 576\<rparr>,
     ce_listen_ok = True, ce_eintr = False, ce_lanip = str ''192.168.0.1'', ce_lanmask = str ''255.255.255.0'',
     ce_block_private_ip = False, ce_service_network = str ''192.168.255'', ce_auto_detect = False,
     ce_syslog_flag = False\<rparr>"

definition sample_bound :: client_state where
  "sample_bound = (client_start 0 (0, zero_msg))\<lparr>cs_state := BOUND, cs_listen_mode := LISTEN_NONE,
     cs_t1 := 3600, cs_t2 := 6300, cs_lease := 7200\<rparr>"

definition sample_answer :: "tlv list \<Rightarrow> dhcpMessage" where
  "sample_answer ts = zero_msg\<lparr>m_op := BOOTREPLY, m_cookie := htonl DHCP_MAGIC, m_xid := 77,
     m_yiaddr := htonl 0xcb000105,
     m_options := enc_tlvs ts @ DHCP_END # replicate (307 - length (enc_tlvs ts)) 0\<rparr>"

definition sample_requesting :: client_state where
  "sample_requesting = (client_start 0 (0, zero_msg))\<lparr>cs_state := REQUESTING, cs_timeout := 1002, cs_xid := 77\<rparr>"

lemma sample_answer_msg:
  assumes "list_all wf_tlv ts" and "length (enc_tlvs ts) \<le> 307"
  shows "wf_msg (sample_answer ts) \<and> msg_opts (sample_answer ts) ts \<and>
    ntohl (m_cookie (sample_answer ts)) = DHCP_MAGIC \<and> m_xid (sample_answer ts) = 77"
  using assms by (simp add: sample_answer_def zero_msg_def wf_msg_def msg_opts_def opt_area_def)

abbreviation (input) sample_ack_opts :: "byte list \<Rightarrow> tlv list" where
  "sample_ack_opts l \<equiv> [(DHCP_MESSAGE_TYPE, [DHCPACK]), (DHCP_LEASE_TIME, l)]"

lemma sample_ack_step:
  assumes "length l = 4"
  obtains st' out where "client_step sample_cenv sample_client sample_requesting
      (Cev_packet (Some (packet_bytes (raw_frame (sample_answer (sample_ack_opts l)) 0 67 0 CLIENT_PORT)))) =
      Some (st', out)"
    and "handle_ack sample_cenv sample_client (sample_answer (sample_ack_opts l))
      (sample_requesting\<lparr>cs_fd := True, cs_packet := sample_answer (sample_ack_opts l)\<rparr>) = Some (st', out)"
    and "cs_lease st' = ntohl (le32_of l)" and "cs_state st' = BOUND"
proof -
  let ?p = "sample_answer (sample_ack_opts l)"
  let ?st = "sample_requesting\<lparr>cs_fd := True, cs_packet := ?p\<rparr>"
  have p: "wf_msg ?p" "msg_opts ?p (sample_ack_opts l)" "ntohl (m_cookie ?p) = DHCP_MAGIC" "m_xid ?p = 77"
    using sample_answer_msg [of "sample_ack_opts l"] assms by (simp_all add: wf_tlv_def)
  have r: "client_step sample_cenv sample_client sample_requesting
      (Cev_packet (Some (packet_bytes (raw_frame ?p 0 67 0 CLIENT_PORT)))) =
      client_message sample_cenv sample_client ?p ?st"
    using p by (intro client_receives)
      (simp_all add: sample_requesting_def client_start_def change_mode_def sample_cenv_def client_wait_def
        zero_msg_def wf_msg_def)
  have m: "client_message sample_cenv sample_client ?p ?st = handle_ack sample_cenv sample_client ?p ?st"
    using p(4) client_message_type [OF _ _ p(2), of ?st sample_client DHCPACK sample_cenv]
    by (simp add: sample_requesting_def sample_client_def no_overload_def)
  have "ack_lease ?p = Some (ntohl (le32_of l))"
    using ack_lease_value [OF p(2)] assms by (simp add: no_overload_def)
  then have "handle_ack sample_cenv sample_client ?p ?st \<noteq> None"
    by (simp add: handle_ack_def Let_def)
  then obtain st' out where h: "handle_ack sample_cenv sample_client ?p ?st = Some (st', out)"
    by auto
  with handle_ack_result [OF h] \<open>ack_lease ?p = _\<close> m r that show thesis by simp
qed

lemma sample_client_ok: "client_ok sample_client"
  by (simp add: client_ok_def sample_client_def default_clientid_def wf_block_def)

subsection \<open>The properties of the client\<close>

text \<open>C11: In every state the client reaches, it listens on the kind of socket that its state calls
  for (raw while it has no address, a UDP socket while it renews, none while it is bound or
  released), has made at most three attempts, and has no open socket when it should have none.\<close>

theorem client_invariant:
  assumes "client_reach cfg (client_start requested junk) st"
  shows "client_inv st"
  using assms by induction (use client_start_inv client_step_inv in auto)

theorem client_invariant_witness:
  "\<exists>st out. client_step sample_cenv sample_client (client_start 0 (0, zero_msg)) Cev_timeout = Some (st, out) \<and>
     client_inv st"
proof -
  let ?st = "client_start 0 (0, zero_msg)"
  have "running ?st"
    by (simp add: running_def timers_ok_def client_start_def change_mode_def)
  then have "client_step sample_cenv sample_client ?st Cev_timeout \<noteq> None"
    using client_timeout_defined [OF sample_client_ok] by (simp add: client_step_timeout sample_cenv_def)
  then obtain st out where s: "client_step sample_cenv sample_client ?st Cev_timeout = Some (st, out)"
    by auto
  from client_invariant [OF client_reach.step [OF client_reach.start s]] s show ?thesis by auto
qed

text \<open>C9: The client becomes bound only when it was waiting for an answer and received a DHCPACK that
  carries its current transaction id; the address it then uses is the one of that message, and the
  configuration script runs with that message.\<close>

theorem bound_only_by_ack:
  assumes "client_step env cfg st ev = Some (st', out)" and "cs_state st \<noteq> BOUND" and "cs_state st' = BOUND"
  shows "\<exists>input op. ev = Cev_packet input \<and> m_xid (cs_packet st') = cs_xid st \<and>
    get_option (cs_packet st') DHCP_MESSAGE_TYPE = Some (Some op) \<and>
    opt_byte (cs_packet st') op = Some DHCPACK \<and>
    cs_state st \<in> {RENEW_REQUESTED, REQUESTING, RENEWING, REBINDING} \<and>
    cs_requested_ip st' = m_yiaddr (cs_packet st') \<and> (\<exists>s. Cl_script (Some (cs_packet st')) s \<in> set out)"
proof -
  obtain st1 where r: "client_react env cfg st1 ev = Some (st', out)" "st1 = opened st"
    using assms by (cases rule: client_step_cases [OF assms(1)]) (auto simp: exit_client_def opened_def)
  have f: "cs_state st1 \<noteq> BOUND" "cs_xid st1 = cs_xid st" "cs_state st1 = cs_state st"
    using r(2) assms(2) by (simp_all add: opened_def)
  obtain input where i: "ev = Cev_packet input" "client_packet env cfg input st1 = Some (st', out)"
    using r(1) assms(3) f(1) client_timeout_not_bound [of env cfg st1 st' out]
    by (cases "cs_state st1")
      (auto simp: client_react_def perform_renew_def perform_release_def change_mode_def exit_client_def
        split: if_splits client_event.splits option.splits client_signal.splits bind_splits)
  then obtain len p where p: "client_message env cfg p (st1\<lparr>cs_packet := p\<rparr>) = Some (st', out)"
    using assms(3) f(1) by (auto simp: client_packet_def change_mode_def Let_def split: if_splits bind_splits)
  note b = client_message_bound [OF p _ assms(3)]
  have h: "handle_ack env cfg p (st1\<lparr>cs_packet := p\<rparr>) = Some (st', out)"
    using b f(1) by simp
  have "cs_packet st' = p"
    using handle_ack_result [OF h] by simp
  with b f handle_ack_result [OF h] i(1) show ?thesis by auto
qed

theorem bound_only_by_ack_witness:
  "\<exists>st' out op. client_step sample_cenv sample_client sample_requesting (Cev_packet (Some (packet_bytes
       (raw_frame (sample_answer (sample_ack_opts [0, 0, 14, 16])) 0 67 0 CLIENT_PORT)))) = Some (st', out) \<and>
     get_option (cs_packet st') DHCP_MESSAGE_TYPE = Some (Some op) \<and>
     opt_byte (cs_packet st') op = Some DHCPACK \<and> cs_requested_ip st' = m_yiaddr (cs_packet st')"
proof (rule sample_ack_step [of "[0, 0, 14, 16]"])
  fix st' out
  assume s: "client_step sample_cenv sample_client sample_requesting (Cev_packet (Some (packet_bytes
      (raw_frame (sample_answer (sample_ack_opts [0, 0, 14, 16])) 0 67 0 CLIENT_PORT)))) = Some (st', out)"
    and b: "cs_state st' = BOUND"
  have "cs_state sample_requesting \<noteq> BOUND"
    by (simp add: sample_requesting_def)
  from bound_only_by_ack [OF s this b] s show ?thesis by auto
qed simp

text \<open>C8: When nothing answers any more, a running client that is bound with its timers in order gives
  its address up: after at most 66 timeouts it is back in the initial state.  The timers are in
  order when the renewal time is at most the rebinding time and that at most the lease time, as
  they are after an ACK with a lease below 613566757 seconds; an unlimited lease is not covered.
  The client's identification fits into a request, and it can open its listening socket.\<close>

theorem silent_server_gives_up:
  assumes "client_ok cfg" and "cs_state st = BOUND" and "cs_exited st = None" and "timers_ok st"
    and "66 \<le> length envs" and "\<forall>env \<in> set envs. ce_listen_ok env"
  shows "\<exists>n \<le> 66. \<exists>st'. silent cfg (take n envs) st = Some st' \<and> cs_state st' = INIT_SELECTING"
proof -
  have r: "running st" "unat (cs_t2 st - cs_t1 st) \<le> 2 ^ 32"
    using assms(3,4) unat_le_u32_max [of "cs_t2 st - cs_t1 st"] by (simp_all add: running_def)
  obtain n st1 where n: "n \<le> 33" "silent cfg (take n envs) st = Some st1" "cs_state st1 = REBINDING" "running st1"
    using silent_renewing [OF assms(1) r(1) _ r(2), of envs] assms(2,5,6) by auto
  have e: "\<forall>env \<in> set (drop n envs). ce_listen_ok env" "32 < length (drop n envs)"
    using assms(5,6) n(1) by (auto dest: in_set_dropD)
  have "unat (cs_lease st1 - cs_t2 st1) \<le> 2 ^ 32"
    using unat_le_u32_max [of "cs_lease st1 - cs_t2 st1"] by simp
  then obtain m st' where m: "m \<le> 33" "silent cfg (take m (drop n envs)) st1 = Some st'"
    "cs_state st' = INIT_SELECTING"
    using silent_rebinding [OF assms(1) n(4,3) _ e(2,1)] by auto
  have "silent cfg (take (n + m) envs) st = Some st'"
    using n(2) m(2) by (simp add: take_add silent_append)
  with n(1) m(1,3) show ?thesis by (intro exI [of _ "n + m"]) simp
qed

theorem silent_server_gives_up_witness:
  "\<exists>n \<le> 66. \<exists>st'. silent sample_client (take n (replicate 66 sample_cenv)) sample_bound = Some st' \<and>
     cs_state st' = INIT_SELECTING"
  by (rule silent_server_gives_up [OF sample_client_ok])
    (simp_all add: sample_bound_def client_start_def change_mode_def timers_ok_def sample_cenv_def)

text \<open>C27: An ACK with a lease time below 613566757 seconds (some 19 years) sets the renewal time to a half
  and the rebinding time to seven eighths of the lease, so that the timers are in order.\<close>

theorem ack_timers:
  assumes "handle_ack env cfg p st = Some (st', out)" and "unat (cs_lease st') < 613566757"
  shows "unat (cs_t1 st') = unat (cs_lease st') div 2 \<and> unat (cs_t2 st') = unat (cs_lease st') * 7 div 8 \<and>
    timers_ok st' \<and> ack_lease p = Some (cs_lease st')"
proof -
  have "n * 4 div 8 \<le> n * 7 div 8 \<and> n * 7 div 8 \<le> n * 8 div 8" for n :: nat
    by (intro conjI div_le_mono) simp_all
  then have "n div 2 \<le> n * 7 div 8 \<and> n * 7 div 8 \<le> n" for n :: nat
    using div_mult_mult2 [of 4 n 2] by simp
  then show ?thesis
    using handle_ack_result [OF assms(1)] unat_times_7 [OF assms(2)]
    by (simp add: timers_ok_def word_le_nat_alt unat_half unat_drop_3)
qed

theorem ack_timers_witness:
  "\<exists>st'. unat (cs_t1 st') = 1800 \<and> unat (cs_t2 st') = 3150 \<and> timers_ok st'"
proof (rule sample_ack_step [of "[0, 0, 14, 16]"])
  fix st' out
  assume h: "handle_ack sample_cenv sample_client (sample_answer (sample_ack_opts [0, 0, 14, 16]))
      (sample_requesting\<lparr>cs_fd := True, cs_packet := sample_answer (sample_ack_opts [0, 0, 14, 16])\<rparr>) = Some (st', out)"
    and "cs_lease st' = ntohl (le32_of [0, 0, 14, 16])"
  then have "unat (cs_lease st') = 3600"
    by (simp add: ntohl_def le32_def)
  with ack_timers [OF h] show ?thesis by (intro exI [of _ st']) simp
qed simp

text \<open>With the lease time 0xffffffff, which stands for an infinite lease, the multiplication by
  seven overflows: the rebinding time lies before the renewal time.\<close>

lemma infinite_lease_timers:
  assumes "handle_ack env cfg p st = Some (st', out)" and "cs_lease st' = 0xffffffff"
  shows "cs_t1 st' = 0x7fffffff \<and> cs_t2 st' = 0x1fffffff \<and> \<not> timers_ok st'"
  using handle_ack_result [OF assms(1)] assms(2)
  by (simp add: timers_ok_def drop_bit_eq_div)

text \<open>C26: The check of an offered address always ends.  It blocks the offer exactly when the offered
  address and mask give the network of the LAN, or when private addresses are to be blocked and the
  address is one of 10/8, 172.16/12 and 192.168/16; an offer without a subnet mask is never
  blocked.\<close>

theorem check_private_ip_result:
  assumes "msg_opts p ts" and "no_overload ts" and "\<forall>v. map_of ts DHCP_SUBNET = Some v \<longrightarrow> 4 \<le> length v"
  shows "\<exists>out. check_private_ip env p = Some (case map_of ts DHCP_SUBNET of None \<Rightarrow> False
    | Some v \<Rightarrow> htonl (inet_addr (ce_lanip env)) AND htonl (inet_addr (ce_lanmask env)) =
          htonl (m_yiaddr p) AND htonl (le32_of (take 4 v)) \<or>
        ce_block_private_ip env \<and> private_ip (htonl (m_yiaddr p)), out)"
proof (cases "map_of ts DHCP_SUBNET")
  case None
  then show ?thesis
    using get_option_absent [OF assms(1,2)] by (simp add: check_private_ip_def)
next
  case (Some v)
  have v: "4 \<le> length v" "length (take 4 v) = 4"
    using assms(3) Some by auto
  obtain op where op: "get_option p DHCP_SUBNET = Some (Some op)" "opt_data p op 4 = Some (take 4 v)"
    by (rule get_option_found [OF assms(1,2) _ Some]) (use v in auto)
  have "\<exists>net. service_net_loop a b c d e = Some net" for a b c d e
    using service_net_loop_total [of a b c d e] by blast
  then obtain f where "\<And>a b c d e. service_net_loop a b c d e = Some (f a b c d e)"
    by metis
  with op Some v show ?thesis
    by (simp add: check_private_ip_def check_same_network2_def inet_addr_makeip Let_def)
qed

theorem check_private_ip_result_witness:
  "\<exists>out. check_private_ip sample_cenv (sample_answer [(DHCP_SUBNET, [255, 255, 255, 0])]) =
     Some (htonl (inet_addr (ce_lanip sample_cenv)) AND htonl (inet_addr (ce_lanmask sample_cenv)) =
        htonl (m_yiaddr (sample_answer [(DHCP_SUBNET, [255, 255, 255, 0])])) AND htonl (le32 255 255 255 0) \<or>
      ce_block_private_ip sample_cenv \<and>
      private_ip (htonl (m_yiaddr (sample_answer [(DHCP_SUBNET, [255, 255, 255, 0])]))), out)"
  using check_private_ip_result [of "sample_answer [(DHCP_SUBNET, [255, 255, 255, 0])]"
      "[(DHCP_SUBNET, [255, 255, 255, 0])]" sample_cenv]
    sample_answer_msg [of "[(DHCP_SUBNET, [255, 255, 255, 0])]"]
  by (simp add: wf_tlv_def no_overload_def)

end
