(* ===== verification/Dhcp_Exchange.thy ===== *)
theory Dhcp_Exchange
  imports Dhcp_Server_Correct Dhcp_Client
begin

section \<open>The client and the server of udhcp together\<close>

text \<open>
  The DHCP client (\<^verbatim>\<open>udhcpc\<close>) and the DHCP server (\<^verbatim>\<open>udhcpd\<close>) are built from the same source
  tree.  Here the models of both are run against each other: the frame that one of them hands to
  the network is the one that the other receives.
\<close>

subsection \<open>The options of an ACK\<close>




subsection \<open>The request of the client\<close>






subsection \<open>The request on its way\<close>







subsection \<open>The steps of the client\<close>



subsection \<open>The exchange\<close>







end
