(* ===== verification/Dhcp_Script.thy ===== *)
theory Dhcp_Script
  imports Dhcp_Client
begin

section \<open>What the DHCP client does with a lease (\<^verbatim>\<open>udhcp-0.9.8/script.c\<close>)\<close>

text \<open>
  \<^verbatim>\<open>run_script\<close> translates the message of the server into environment strings and, in this
  product, configures the interface, the default gateway and the name servers itself
  (\<^verbatim>\<open>DHCPC_USE_SCRIPT\<close> is off).  An environment string is the text that is written and the number
  of bytes that are written behind the block that was allocated for it.  The library functions
  that \<^verbatim>\<open>run_script\<close> calls are effects, except \<^verbatim>\<open>set_ifconfig\<close> (\<^verbatim>\<open>lib/ul_lib/network.c\<close>), which
  is modelled; \<open>None\<close> is a read outside an array or the use of a null pointer.  The product has
  one WAN port, system log, configuration wizard, the on/off switch of address translation and
  separate name servers for the router.
\<close>

subsection \<open>Texts of options\<close>

definition max_option_length :: "nat list" where
  "max_option_length = [0, 17, 34, 1, 5, 5, 7, 8, 12, 13]"

definition upper_length :: "nat \<Rightarrow> dhcp_option \<Rightarrow> nat option" where
  "upper_length len opt = do {
     m \<leftarrow> rd max_option_length (unat (opt_flags opt AND TYPE_MASK));
     l \<leftarrow> rd option_lengths (unat (opt_flags opt AND TYPE_MASK));
     if l = 0 then None else Some (m * (len div l))
   }"

definition sprintip :: "byte list \<Rightarrow> byte list \<Rightarrow> byte list" where
  "sprintip pre ip = pre @ dec (unat (ip ! 0)) @ 0x2e # dec (unat (ip ! 1)) @ 0x2e #
     dec (unat (ip ! 2)) @ 0x2e # dec (unat (ip ! 3)) @ [0x20]"

definition sdec :: "int \<Rightarrow> byte list" where
  "sdec i = (if i < 0 then 0x2d # dec (nat (- i)) else dec (nat i))"

text \<open>The text of one value, the position of its last part and the step to the next value.\<close>

definition fill_value :: "byte list \<Rightarrow> byte \<Rightarrow> nat \<Rightarrow> nat \<Rightarrow> (byte list \<times> nat \<times> nat) option" where
  "fill_value a type off optlen =
     (if type = OPTION_IP_PAIR then do {
        x \<leftarrow> rd_n a off 4;
        y \<leftarrow> rd_n a (off + 4) 4;
        Some (sprintip [] x @ 0x2f # sprintip [] y, off + 4, 4)
      } else if type = OPTION_IP then map_option (\<lambda>x. (sprintip [] x, off, optlen)) (rd_n a off 4)
      else if type = OPTION_BOOLEAN then
        map_option (\<lambda>b. (if b \<noteq> 0 then str ''yes '' else str ''no '', off, optlen)) (rd a off)
      else if type = OPTION_U8 then map_option (\<lambda>b. (dec (unat b) @ [0x20], off, optlen)) (rd a off)
      else if type = OPTION_U16 \<or> type = OPTION_S16 then
        map_option (\<lambda>x. (dec (unat (ntohs (le16_of x))) @ [0x20], off, optlen)) (rd_n a off 2)
      else if type = OPTION_U32 then
        map_option (\<lambda>x. (dec (unat (ntohl (le32_of x))) @ [0x20], off, optlen)) (rd_n a off 4)
      else if type = OPTION_S32 then
        map_option (\<lambda>x. (sdec (sint (ntohl (le32_of x))) @ [0x20], off, optlen)) (rd_n a off 4)
      else Some ([], off, optlen))"

partial_function (option) fill_values :: "byte list \<Rightarrow> byte \<Rightarrow> nat \<Rightarrow> nat \<Rightarrow> nat \<Rightarrow> byte list option" where
  "fill_values a type off optlen len =
     (if type = OPTION_STRING then rd_n a off len
      else Option.bind (fill_value a type off optlen) (\<lambda>(txt, off, optlen).
        if len \<le> optlen then Some txt
        else Option.bind (fill_values a type (off + optlen) optlen (len - optlen)) (\<lambda>rest. Some (txt @ rest))))"

text \<open>\<^verbatim>\<open>option[OPT_LEN - 2]\<close> is the length byte in front of the data, which \<open>get_option\<close> has stored
  through its last argument.\<close>

definition fill_options :: "dhcpMessage \<Rightarrow> optptr \<Rightarrow> dhcp_option \<Rightarrow> byte list option" where
  "fill_options p op type_p = (case op of (f, off, len) \<Rightarrow> do {
     optlen \<leftarrow> rd option_lengths (unat (opt_flags type_p AND TYPE_MASK));
     txt \<leftarrow> fill_values (opt_array p f) (opt_flags type_p AND TYPE_MASK) off optlen len;
     Some (str (opt_name type_p) @ 0x3d # txt)
   })"

subsection \<open>The environment\<close>

record env_var =
  ev_text :: "byte list"
  ev_over :: nat

definition in_block :: "nat \<Rightarrow> byte list \<Rightarrow> env_var" where
  "in_block block txt = \<lparr>ev_text = txt, ev_over = length txt + 1 - block\<rparr>"

definition cstr :: "byte list \<Rightarrow> byte list" where
  "cstr s = takeWhile (\<lambda>c. c \<noteq> 0) s"

definition has_prefix :: "byte list \<Rightarrow> byte list \<Rightarrow> bool" where
  "has_prefix prefix s \<longleftrightarrow> take (length prefix) (cstr s) = prefix"

definition find_env :: "byte list list \<Rightarrow> byte list \<Rightarrow> byte list \<Rightarrow> byte list" where
  "find_env environ prefix defaultstr =
     (case find (has_prefix prefix) environ of Some s \<Rightarrow> s | None \<Rightarrow> defaultstr)"

fun fill_env_options :: "dhcpMessage \<Rightarrow> dhcp_option list \<Rightarrow> env_var list option" where
  "fill_env_options p [] = Some []"
| "fill_env_options p (opt # opts) =
     (if opt_code opt = 0 then Some []
      else do {
        temp \<leftarrow> get_option p (opt_code opt);
        vs \<leftarrow> (case temp of
                None \<Rightarrow> Some []
              | Some op \<Rightarrow> do {
                  u \<leftarrow> upper_length (snd (snd op)) opt;
                  txt \<leftarrow> fill_options p op opt;
                  Some [in_block (u + length (opt_name opt) + 2) txt]
                });
        rest \<leftarrow> fill_env_options p opts;
        Some (vs @ rest)
      })"

definition over_field :: "dhcpMessage \<Rightarrow> byte option" where
  "over_field p = do {
     temp \<leftarrow> get_option p DHCP_OPTION_OVER;
     case temp of None \<Rightarrow> Some 0 | Some op \<Rightarrow> opt_byte p op
   }"

text \<open>The count that determines the size of the vector \<^verbatim>\<open>envp\<close>.\<close>

fun count_options :: "dhcpMessage \<Rightarrow> dhcp_option list \<Rightarrow> nat option" where
  "count_options p [] = Some 0"
| "count_options p (opt # opts) =
     (if opt_code opt = 0 then Some 0
      else do {
        temp \<leftarrow> get_option p (opt_code opt);
        n \<leftarrow> count_options p opts;
        Some ((if temp = None then 0 else 1) + n)
      })"

definition num_options :: "dhcpMessage \<Rightarrow> nat option" where
  "num_options p = do {
     n \<leftarrow> count_options p dhcp_options;
     over \<leftarrow> over_field p;
     f \<leftarrow> rd (m_file p) 0;
     s \<leftarrow> rd (m_sname p) 0;
     Some (n + (if m_siaddr p \<noteq> 0 then 1 else 0) +
       (if over AND 1 = 0 \<and> f \<noteq> 0 then 1 else 0) + (if over AND 2 = 0 \<and> s \<noteq> 0 then 1 else 0))
   }"

text \<open>The message is changed: its two text fields are terminated before they are printed.\<close>

definition fill_envp ::
  "client_config_t \<Rightarrow> byte list list \<Rightarrow> dhcpMessage option \<Rightarrow> (env_var list \<times> dhcpMessage option) option" where
  "fill_envp cfg environ packet = (
     let envp = [in_block (11 + length (k_interface cfg)) (str ''interface='' @ k_interface cfg),
       \<lparr>ev_text = find_env environ (str ''PATH'') (str ''PATH=/bin:/usr/bin:/sbin:/usr/sbin''), ev_over = 0\<rparr>,
       \<lparr>ev_text = find_env environ (str ''HOME'') (str ''HOME=/''), ev_over = 0\<rparr>]
     in case packet of
       None \<Rightarrow> Some (envp, None)
     | Some p \<Rightarrow> do {
         opts \<leftarrow> fill_env_options p dhcp_options;
         over \<leftarrow> over_field p;
         f \<leftarrow> rd (m_file p) 0;
         s \<leftarrow> rd (m_sname p) 0;
         let ip = in_block 19 (sprintip (str ''ip='') (bytes_le32 (m_yiaddr p)));
         let si = (if m_siaddr p \<noteq> 0
           then [in_block 23 (sprintip (str ''siaddr='') (bytes_le32 (m_siaddr p)))] else []);
         file \<leftarrow> (if over AND 1 = 0 \<and> f \<noteq> 0 then wr (m_file p) 127 [0] else Some (m_file p));
         let bf = (if over AND 1 = 0 \<and> f \<noteq> 0
           then [in_block (11 + length (cstr file)) (str ''boot_file='' @ cstr file)] else []);
         sname \<leftarrow> (if over AND 2 = 0 \<and> s \<noteq> 0 then wr (m_sname p) 63 [0] else Some (m_sname p));
         let sn = (if over AND 2 = 0 \<and> s \<noteq> 0
           then [in_block (7 + length (cstr sname)) (str ''sname='' @ cstr sname)] else []);
         Some (envp @ ip # opts @ si @ bf @ sn, Some (p\<lparr>m_file := file, m_sname := sname\<rparr>))
       })"

text \<open>The value of a variable, without a blank at its end.  The code cuts the blank off in place;
  every variable is looked up once.\<close>

definition get_env_vars :: "env_var list \<Rightarrow> byte list \<Rightarrow> byte list option" where
  "get_env_vars envp prefix =
     (case find (has_prefix prefix) (map ev_text envp) of
        None \<Rightarrow> None
      | Some s \<Rightarrow>
          let t = cstr s; t = (if t \<noteq> [] \<and> last t = 0x20 then butlast t else t)
          in Some (drop (length prefix) t))"

subsection \<open>Configuring the interface (\<open>set_ifconfig\<close>)\<close>

datatype script_out =
    If_addr "byte list" u32
  | If_brdaddr "byte list" u32
  | If_netmask "byte list" u32
  | If_flags "byte list"
  | Sc_wizard "byte list"
  | Sc_gateway "byte list" "byte list option"
  | Sc_gateway2 "byte list" "byte list" "byte list option" "byte list"
  | Sc_dhcpd_dns "byte list" "byte list option"
  | Sc_dns_shadow "byte list" "byte list" "byte list option"
  | Sc_system_dns "byte list"
  | Sc_log_change "byte list" "byte list" "byte list" "byte list option"
  | Sc_log_bad_router "byte list"
  | Sc_log_gateway "byte list" "byte list"
  | Sc_log_received "byte list"
  | Sc_log_discovery
  | Sc_syslog_flag "byte list"
  | Sc_virtual_host "byte list"
  | Sc_signal_wan
  | Sc_icmp_solicite bool

text \<open>Whether the calls of \<open>set_ifconfig\<close> succeed, the state of the interface that
  \<^verbatim>\<open>get_wan_ipinfo\<close> reports, whether the first \<^verbatim>\<open>set_default_gateway\<close> fails, and the settings that
  the library reads.\<close>

record script_env =
  se_environ :: "byte list list"
  se_ethernet :: bool
  se_set_addr :: bool
  se_set_brdaddr :: bool
  se_set_netmask :: bool
  se_cur_ip :: "byte list"
  se_cur_subnet :: "byte list"
  se_cur_router :: "byte list"
  se_gateway_fails :: bool
  se_autodns :: bool
  se_manual_dns :: bool
  se_nat :: bool
  se_if_local :: "byte list"
  se_if_wan :: "byte list"

definition set_ifconfig ::
  "script_env \<Rightarrow> byte list \<Rightarrow> byte list option \<Rightarrow> byte list option \<Rightarrow> script_out list option" where
  "set_ifconfig env ifname ip netmask =
     (if \<not> se_ethernet env then Some []
      else do {
        ip \<leftarrow> ip;
        if \<not> se_set_addr env then Some [If_addr ifname (inet_addr ip)]
        else if inet_addr ip = 0 then Some [If_addr ifname (inet_addr ip), If_flags ifname]
        else do {
          netmask \<leftarrow> netmask;
          let brd = (inet_addr ip AND inet_addr netmask) OR
            (inet_addr (str ''255.255.255.255'') AND NOT (inet_addr netmask));
          if \<not> se_set_brdaddr env then Some [If_addr ifname (inet_addr ip), If_brdaddr ifname brd]
          else Some ([If_addr ifname (inet_addr ip), If_brdaddr ifname brd, If_netmask ifname (inet_addr netmask)] @
            (if se_set_netmask env then [If_flags ifname] else []))
        }
      })"

subsection \<open>The script\<close>

definition strncpy :: "nat \<Rightarrow> byte list \<Rightarrow> byte list" where
  "strncpy n s = take n (cstr s @ replicate n 0)"

text \<open>The text up to the next blank, and what follows the blank; \<open>None\<close> when the array ends before
  a blank or the end of the text.\<close>

definition next_word :: "byte list \<Rightarrow> (byte list \<times> byte list option) option" where
  "next_word s =
     (let w = takeWhile (\<lambda>c. c \<noteq> 0x20 \<and> c \<noteq> 0) s
      in case drop (length w) s of
           [] \<Rightarrow> None
         | c # rest \<Rightarrow> Some (w, if c = 0x20 then Some rest else None))"

lemma next_word_shorter: "next_word s = Some (w, Some rest) \<Longrightarrow> length rest < length s"
proof -
  assume "next_word s = Some (w, Some rest)"
  then obtain n c where "drop n s = c # rest"
    by (auto simp: next_word_def Let_def split: list.splits if_splits)
  then have "length (c # rest) \<le> length s" by (metis diff_le_self length_drop)
  then show ?thesis by simp
qed

function router_loop ::
  "script_env \<Rightarrow> byte list \<Rightarrow> byte list \<Rightarrow> byte list option \<Rightarrow> byte list \<Rightarrow> script_out list option" where
  "router_loop env interface ip subnet s =
     (case next_word s of
        None \<Rightarrow> None
      | Some (w, rest) \<Rightarrow>
          if take 3 w = str ''255'' then
            (case rest of
               None \<Rightarrow> Some [Sc_log_bad_router w]
             | Some s \<Rightarrow> map_option ((#) (Sc_log_bad_router w)) (router_loop env interface ip subnet s))
          else if inet_aton w = None then Some []
          else if w = se_cur_router env then Some []
          else Some ((if se_cur_router env \<noteq> [] then [Sc_log_gateway (se_cur_router env) w] else []) @
            [Sc_gateway (se_if_local env) None, Sc_gateway interface (Some w)] @
            (if se_gateway_fails env then [Sc_gateway2 interface ip subnet w] else [])))"
  by pat_completeness auto
termination
  by (relation "measure (\<lambda>(env, i, ip, sub, s). length s)") (auto dest: next_word_shorter)

declare router_loop.simps [simp del]

definition set_router ::
  "script_env \<Rightarrow> byte list \<Rightarrow> byte list \<Rightarrow> byte list option \<Rightarrow> byte list option \<Rightarrow> script_out list option" where
  "set_router env interface ip subnet router =
     router_loop env interface ip subnet (case router of None \<Rightarrow> strncpy 256 [] | Some r \<Rightarrow> strncpy 256 r)"

definition set_dns :: "script_env \<Rightarrow> byte list \<Rightarrow> byte list option \<Rightarrow> script_out list option" where
  "set_dns env interface dns =
     (case dns of
        None \<Rightarrow> Some []
      | Some d \<Rightarrow> do {
          (dns1, rest) \<leftarrow> next_word (strncpy 128 d);
          dns2 \<leftarrow> (case rest of None \<Rightarrow> Some None | Some s \<Rightarrow> map_option (Some \<circ> fst) (next_word s));
          Some ((if se_autodns env then [Sc_dhcpd_dns dns1 dns2] else []) @
            (if \<not> se_manual_dns env
             then [Sc_dns_shadow interface dns1 dns2,
                   Sc_system_dns (if interface = se_if_wan env then str ''wan1'' else str ''wan2'')] else []))
        })"

text \<open>The part for \<^verbatim>\<open>bound\<close> and \<^verbatim>\<open>renew\<close>.\<close>

definition apply_lease ::
  "script_env \<Rightarrow> client_config_t \<Rightarrow> byte list \<Rightarrow> env_var list \<Rightarrow> bool \<Rightarrow> script_out list option" where
  "apply_lease env cfg interface envp bound = do {
     ip \<leftarrow> get_env_vars envp (str ''ip='');
     let subnet = get_env_vars envp (str ''subnet='');
     update \<leftarrow> (if bound \<or> ip \<noteq> se_cur_ip env then Some True
                else case subnet of None \<Rightarrow> None | Some n \<Rightarrow> Some (n \<noteq> se_cur_subnet env));
     o1 \<leftarrow> (if update then
              map_option ((@) (if bound then [] else [Sc_log_change (se_cur_ip env) (se_cur_subnet env) ip subnet]))
                (set_ifconfig env interface (Some ip) subnet)
            else Some []);
     o2 \<leftarrow> set_router env interface ip subnet (get_env_vars envp (str ''router=''));
     o3 \<leftarrow> set_dns env interface (get_env_vars envp (str ''dns=''));
     Some (o1 @ [Sc_wizard interface] @ o2 @ o3 @
       (if bound then [Sc_log_received ip, Sc_syslog_flag (k_interface cfg)] else []) @
       (if bound \<and> \<not> se_nat env then [Sc_virtual_host ip] else []) @
       (if update then [Sc_signal_wan] else []))
   }"

definition run_script ::
  "script_env \<Rightarrow> client_config_t \<Rightarrow> dhcpMessage option \<Rightarrow> byte list
    \<Rightarrow> (dhcpMessage option \<times> script_out list) option" where
  "run_script env cfg packet name = do {
     (envp, packet) \<leftarrow> fill_envp cfg (se_environ env) packet;
     interface \<leftarrow> get_env_vars envp (str ''interface='');
     out \<leftarrow> (if name = str ''deconfig''
             then set_ifconfig env interface (Some (str ''0.0.0.0'')) (Some (str ''255.255.255.0''))
             else if name = str ''renew'' \<or> name = str ''bound''
             then apply_lease env cfg interface envp (name = str ''bound'')
             else Some []);
     let on = (case get_env_vars envp (str ''discovery='') of None \<Rightarrow> False | Some d \<Rightarrow> d \<noteq> str ''0'');
     Some (packet, out @ [Sc_icmp_solicite on] @ (if on then [Sc_log_discovery] else []))
   }"

subsection \<open>Lengths of texts\<close>

lemma dec_u16: "length (dec (unat (w :: u16))) \<le> 5"
  by (rule dec_length [OF order.strict_trans [OF unat_u16_lt]]) simp_all

lemma dec_u32: "length (dec (unat (w :: u32))) \<le> 10"
  by (rule dec_length) (use unsigned_less [of w, where 'a = nat] in simp_all)

lemma sdec_s32: "length (sdec (sint (w :: u32))) \<le> 11"
proof -
  have "- (2 ^ 31) \<le> sint w" "sint w < 2 ^ 31"
    using sint_greater_eq [of w] sint_lt [of w] by simp_all
  then have "nat \<bar>sint w\<bar> < 10 ^ 10" by simp
  then have "length (dec (nat \<bar>sint w\<bar>)) \<le> 10" by (rule dec_length) simp
  then show ?thesis by (auto simp: sdec_def abs_if split: if_splits)
qed

lemma length_sprintip: "length (sprintip pre ip) \<le> length pre + 16"
  using dec_u8 [of "ip ! 0"] dec_u8 [of "ip ! 1"] dec_u8 [of "ip ! 2"] dec_u8 [of "ip ! 3"]
  by (simp add: sprintip_def)

text \<open>The types of the option table: a string, or values of a fixed width.\<close>

abbreviation (input) opt_type :: "dhcp_option \<Rightarrow> byte" where
  "opt_type opt \<equiv> opt_flags opt AND TYPE_MASK"

abbreviation (input) value_types :: "byte set" where
  "value_types \<equiv> {OPTION_IP, OPTION_BOOLEAN, OPTION_U8, OPTION_U16, OPTION_S16, OPTION_U32, OPTION_S32}"

abbreviation (input) width :: "byte \<Rightarrow> nat" where
  "width type \<equiv> option_lengths ! unat type"

lemma fill_value_fits:
  assumes "type \<in> value_types" and "off + width type \<le> length a"
  shows "\<exists>txt. fill_value a type off (width type) = Some (txt, off, width type) \<and>
    length txt < max_option_length ! unat type \<and> 0 < width type"
proof -
  have b: "length (dec (unat b)) < 4" for b :: byte using dec_u8 [of b] by simp
  have h: "length (dec (unat w)) < 6" for w :: u16 using dec_u16 [of w] by simp
  have h': "length (dec (unat w)) < 7" for w :: u16 using dec_u16 [of w] by simp
  have w: "length (dec (unat w)) < 11" for w :: u32 using dec_u32 [of w] by simp
  have s: "length (sdec (sint w)) < 12" for w :: u32 using sdec_s32 [of w] by simp
  have i: "length (sprintip [] x) < 17" for x using length_sprintip [of "[]" x] by simp
  from assms(1) consider "type = OPTION_IP" | "type = OPTION_BOOLEAN" | "type = OPTION_U8" | "type = OPTION_U16"
    | "type = OPTION_S16" | "type = OPTION_U32" | "type = OPTION_S32" by auto
  then show ?thesis
    using assms(2)
    by cases (simp_all add: fill_value_def option_lengths_def max_option_length_def rd_n_def rd_def str_def
        b h h' w s i)
qed

lemma fill_values_fits:
  assumes "type \<in> value_types"
  shows "\<lbrakk>0 < q; off + width type * q \<le> length a\<rbrakk> \<Longrightarrow>
    \<exists>txt. fill_values a type off (width type) (width type * q) = Some txt \<and>
      length txt \<le> (max_option_length ! unat type - 1) * q"
proof (induction q arbitrary: off)
  case (Suc q)
  then have "off + width type \<le> length a" by simp
  then obtain t where t: "fill_value a type off (width type) = Some (t, off, width type)"
    "length t < max_option_length ! unat type" "0 < width type"
    using fill_value_fits [OF assms] by blast
  have n: "type \<noteq> OPTION_STRING" using assms by auto
  show ?case
  proof (cases "q = 0")
    case True
    then show ?thesis using t n by (subst fill_values.simps) simp
  next
    case False
    then obtain r where r: "fill_values a type (off + width type) (width type) (width type * q) = Some r"
      "length r \<le> (max_option_length ! unat type - 1) * q"
      using Suc.IH [of "off + width type"] Suc.prems by (auto simp: algebra_simps)
    have "\<not> width type * Suc q \<le> width type" using False t(3) by simp
    moreover have "width type * Suc q - width type = width type * q" by simp
    ultimately have "fill_values a type off (width type) (width type * Suc q) = Some (t @ r)"
      using t(1) r(1) n by (subst fill_values.simps) simp
    moreover have "length (t @ r) \<le> (max_option_length ! unat type - 1) * Suc q"
      using r(2) t(2) by simp
    ultimately show ?thesis by blast
  qed
qed simp

lemma sprintip_makeip: "sprintip pre ip = pre @ makeip ip"
  by (simp add: sprintip_def makeip_def)

lemma take_drop_quads:
  assumes "take (4 * Suc n) (drop off a) = x @ rest" and "length x = 4"
  shows "take 4 (drop off a) = x" and "take (4 * n) (drop (off + 4) a) = rest"
proof -
  have "take 4 (take (4 * Suc n) (drop off a)) = x" "drop 4 (take (4 * Suc n) (drop off a)) = rest"
    using assms by simp_all
  then show "take 4 (drop off a) = x" "take (4 * n) (drop (off + 4) a) = rest"
    by (simp_all add: drop_take min_def add.commute split: if_splits)
qed

lemma fill_values_ips:
  "\<lbrakk>ips \<noteq> []; \<forall>x \<in> set ips. length x = 4; take (4 * length ips) (drop off a) = concat ips;
    off + 4 * length ips \<le> length a\<rbrakk> \<Longrightarrow>
   fill_values a OPTION_IP off 4 (4 * length ips) = Some (concat (map makeip ips))"
proof (induction ips arbitrary: off)
  case (Cons x ips)
  have x: "take 4 (drop off a) = x" "take (4 * length ips) (drop (off + 4) a) = concat ips"
    using take_drop_quads [of "length ips" off a x "concat ips"] Cons.prems by simp_all
  have v: "fill_value a OPTION_IP off 4 = Some (makeip x, off, 4)"
    using Cons.prems(4) x(1) by (simp add: fill_value_def rd_n_def sprintip_makeip)
  show ?case
  proof (cases "ips = []")
    case True
    then show ?thesis using v by (subst fill_values.simps) simp
  next
    case False
    then have "fill_values a OPTION_IP (off + 4) 4 (4 * length ips) = Some (concat (map makeip ips))"
      using Cons.IH [of "off + 4"] Cons.prems x(2) by simp
    then show ?thesis using v False by (subst fill_values.simps) (simp add: not_le)
  qed
qed simp

subsection \<open>The environment of a well-formed message\<close>

text \<open>Every option of the table has a length that is a positive multiple of the width of its type.\<close>

definition sized :: "dhcp_option \<Rightarrow> byte list \<Rightarrow> bool" where
  "sized opt d \<longleftrightarrow> opt_type opt = OPTION_STRING \<or> d \<noteq> [] \<and> length d mod width (opt_type opt) = 0"

definition options_sized :: "tlv list \<Rightarrow> bool" where
  "options_sized ts \<longleftrightarrow>
     list_all (\<lambda>opt. case map_of ts (opt_code opt) of None \<Rightarrow> True | Some d \<Rightarrow> sized opt d) (butlast dhcp_options)"

lemma table_types:
  "opt \<in> set (butlast dhcp_options) \<Longrightarrow>
   opt_code opt \<noteq> 0 \<and> opt_code opt \<noteq> DHCP_END \<and> opt_type opt \<in> insert OPTION_STRING value_types"
  by (auto simp: dhcp_options_def)

lemma rd_table:
  assumes "type \<in> insert OPTION_STRING value_types"
  shows "rd option_lengths (unat type) = Some (width type)" and "0 < width type"
    and "rd max_option_length (unat type) = Some (max_option_length ! unat type)"
  using assms by (auto simp: option_lengths_def max_option_length_def rd_def)

lemma fill_options_fits:
  assumes "opt \<in> set (butlast dhcp_options)" and "msg_opts p ts" and "no_overload ts"
    and "map_of ts (opt_code opt) = Some d" and "sized opt d"
  obtains op u tx where "get_option p (opt_code opt) = Some (Some op)" and "upper_length (snd (snd op)) opt = Some u"
    and "fill_options p op opt = Some (str (opt_name opt) @ 0x3d # tx)" and "length tx \<le> u"
    and "\<And>ips. \<lbrakk>opt_type opt = OPTION_IP; d = concat ips; ips \<noteq> []; \<forall>x \<in> set ips. length x = 4\<rbrakk> \<Longrightarrow>
      tx = concat (map makeip ips)"
proof -
  note t = table_types [OF assms(1)]
  obtain op where op: "get_option p (opt_code opt) = Some (Some op)" "snd (snd op) = length d"
    "\<And>n. n \<le> length d \<Longrightarrow> opt_data p op n = Some (take n d)"
    using get_option_found [OF assms(2,3) _ assms(4)] t by metis
  obtain f off where o: "op = (f, off, length d)" using op(2) by (cases op) auto
  let ?a = "opt_array p f" and ?t = "opt_type opt"
  have a: "off + length d \<le> length ?a" "take (length d) (drop off ?a) = d"
    using op(3) [of "length d"] by (auto simp: o opt_data_def rd_n_Some_iff)
  have u: "upper_length (length d) opt = Some (max_option_length ! unat ?t * (length d div width ?t))"
    using rd_table [of ?t] t by (simp add: upper_length_def)
  have fo: "fill_options p op opt = map_option (\<lambda>tx. str (opt_name opt) @ 0x3d # tx)
      (fill_values ?a ?t off (width ?t) (length d))"
    using rd_table [of ?t] t by (simp add: fill_options_def o map_option_case split: option.splits)
  show thesis
  proof (cases "?t = OPTION_STRING")
    case True
    then have "fill_values ?a ?t off (width ?t) (length d) = Some d"
      using a by (subst fill_values.simps) (simp add: rd_n_def)
    then show thesis
      using True u fo by (intro that [OF op(1), of "length d" d]) (simp_all add: o option_lengths_def max_option_length_def)
  next
    case False
    then have v: "?t \<in> value_types" and q: "length d = width ?t * (length d div width ?t)" "0 < length d div width ?t"
      using t assms(5) rd_table(2) [of ?t] by (auto simp: sized_def div_greater_zero_iff dvd_imp_le mod_eq_0_iff_dvd)
    obtain tx where tx: "fill_values ?a ?t off (width ?t) (length d) = Some tx"
      "length tx \<le> (max_option_length ! unat ?t - 1) * (length d div width ?t)"
      using fill_values_fits [OF v q(2), of off ?a] a(1) q(1) by auto
    have "length tx \<le> max_option_length ! unat ?t * (length d div width ?t)"
      by (rule order.trans [OF tx(2)]) simp
    moreover have "tx = concat (map makeip ips)"
      if "?t = OPTION_IP" "d = concat ips" "ips \<noteq> []" "\<forall>x \<in> set ips. length x = 4" for ips
    proof -
      have "length d = 4 * length ips" using that(2,4) by (induction ips arbitrary: d) auto
      then show ?thesis
        using fill_values_ips [OF that(3,4), of off ?a] a tx(1) that by (simp add: option_lengths_def)
    qed
    ultimately show thesis
      using u fo tx(1) by (intro that [OF op(1), of _ tx]) (simp_all add: o)
  qed
qed

text \<open>The strings of the options: there is one for each option of the message that the table lists,
  and none is longer than its block.\<close>

definition option_string :: "dhcpMessage \<Rightarrow> dhcp_option \<Rightarrow> env_var \<Rightarrow> bool" where
  "option_string p opt v \<longleftrightarrow> (\<exists>op tx. get_option p (opt_code opt) = Some (Some op) \<and>
     fill_options p op opt = Some (ev_text v) \<and> ev_text v = str (opt_name opt) @ 0x3d # tx \<and> ev_over v = 0)"

abbreviation (input) present :: "tlv list \<Rightarrow> dhcp_option list \<Rightarrow> dhcp_option list" where
  "present ts \<equiv> filter (\<lambda>opt. map_of ts (opt_code opt) \<noteq> None)"

lemma fill_env_options_fits:
  assumes "msg_opts p ts" and "no_overload ts" and "opt_code z = 0"
  shows "\<lbrakk>set opts \<subseteq> set (butlast dhcp_options);
      list_all (\<lambda>opt. case map_of ts (opt_code opt) of None \<Rightarrow> True | Some d \<Rightarrow> sized opt d) opts\<rbrakk> \<Longrightarrow>
    \<exists>vs. fill_env_options p (opts @ [z]) = Some vs \<and> count_options p (opts @ [z]) = Some (length vs) \<and>
      list_all2 (option_string p) (present ts opts) vs"
proof (induction opts)
  case Nil
  then show ?case using assms(3) by simp
next
  case (Cons opt opts)
  obtain vs where vs: "fill_env_options p (opts @ [z]) = Some vs" "count_options p (opts @ [z]) = Some (length vs)"
    "list_all2 (option_string p) (present ts opts) vs"
    using Cons.IH Cons.prems by auto
  have o: "opt \<in> set (butlast dhcp_options)" using Cons.prems(1) by simp
  note t = table_types [OF o]
  show ?case
  proof (cases "map_of ts (opt_code opt)")
    case None
    then have "get_option p (opt_code opt) = Some None"
      using get_option_absent [OF assms(1,2)] t by simp
    then show ?thesis using vs t None by simp
  next
    case (Some d)
    then have "sized opt d" using Cons.prems(2) by simp
    then obtain op u tx where op: "get_option p (opt_code opt) = Some (Some op)" "upper_length (snd (snd op)) opt = Some u"
      "fill_options p op opt = Some (str (opt_name opt) @ 0x3d # tx)" "length tx \<le> u"
      by (rule fill_options_fits [OF o assms(1,2) Some])
    let ?v = "in_block (u + length (opt_name opt) + 2) (str (opt_name opt) @ 0x3d # tx)"
    have f: "fill_env_options p ((opt # opts) @ [z]) = Some (?v # vs)"
      "count_options p ((opt # opts) @ [z]) = Some (length (?v # vs))"
      using op(1-3) vs(1,2) t by simp_all
    have "option_string p opt ?v"
      using op by (simp add: option_string_def in_block_def str_def)
    then have "list_all2 (option_string p) (present ts (opt # opts)) (?v # vs)"
      using vs(3) Some by simp
    with f show ?thesis by blast
  qed
qed

subsection \<open>Looking up a variable\<close>

abbreviation (input) subnet_opt :: dhcp_option where "subnet_opt \<equiv> dhcp_options ! 0"
abbreviation (input) router_opt :: dhcp_option where "router_opt \<equiv> dhcp_options ! 2"
abbreviation (input) dns_opt :: dhcp_option where "dns_opt \<equiv> dhcp_options ! 5"
abbreviation (input) discovery_opt :: dhcp_option where "discovery_opt \<equiv> dhcp_options ! 17"

abbreviation (input) name_eq :: "dhcp_option \<Rightarrow> byte list" where
  "name_eq opt \<equiv> str (opt_name opt) @ [0x3d]"

lemma named_in_table:
  "opt \<in> {subnet_opt, router_opt, dns_opt, discovery_opt} \<Longrightarrow> opt \<in> set (butlast dhcp_options)"
  by (auto simp: dhcp_options_def)

lemma named_unique_table:
  "list_all (\<lambda>opt. list_all (\<lambda>opt'. str (opt_name opt') = str (opt_name opt) \<longrightarrow> opt' = opt) (butlast dhcp_options))
     [subnet_opt, router_opt, dns_opt, discovery_opt]"
  by code_simp

lemma named_unique:
  "\<lbrakk>opt \<in> {subnet_opt, router_opt, dns_opt, discovery_opt}; opt' \<in> set (butlast dhcp_options);
    str (opt_name opt') = str (opt_name opt)\<rbrakk> \<Longrightarrow> opt' = opt"
  using named_unique_table unfolding list_all_iff list.set by blast

lemma table_names_all:
  "list_all (\<lambda>opt. 0 \<notin> set (str (opt_name opt)) \<and> 0x3d \<notin> set (str (opt_name opt))) (butlast dhcp_options)"
  by code_simp

lemma table_names:
  "opt \<in> set (butlast dhcp_options) \<Longrightarrow> 0 \<notin> set (str (opt_name opt)) \<and> 0x3d \<notin> set (str (opt_name opt))"
  using table_names_all unfolding list_all_iff by blast

lemma has_prefix_name:
  assumes "0 \<notin> set a" and "0x3d \<notin> set a" and "0 \<notin> set b" and "0x3d \<notin> set b"
  shows "has_prefix (a @ [0x3d]) (b @ 0x3d # tx) \<longleftrightarrow> a = b"
proof -
  have c: "cstr (b @ 0x3d # tx) = b @ 0x3d # cstr tx"
    using assms(3) by (auto simp: cstr_def takeWhile_append)
  show ?thesis
  proof
    assume "has_prefix (a @ [0x3d]) (b @ 0x3d # tx)"
    then have "b @ 0x3d # cstr tx = (a @ [0x3d]) @ drop (length (a @ [0x3d])) (b @ 0x3d # cstr tx)"
      unfolding has_prefix_def c by (metis append_take_drop_id)
    then have "takeWhile (\<lambda>c. c \<noteq> 0x3d) (b @ 0x3d # cstr tx) =
        takeWhile (\<lambda>c. c \<noteq> 0x3d) (a @ 0x3d # drop (length (a @ [0x3d])) (b @ 0x3d # cstr tx))"
      by (metis append_Cons append_Nil append_assoc)
    moreover have "takeWhile (\<lambda>c. c \<noteq> 0x3d) (x @ 0x3d # y) = x" if "0x3d \<notin> set x" for x y :: "byte list"
      using that by (auto simp: takeWhile_append)
    ultimately show "a = b" using assms(2,4) by metis
  qed (simp add: has_prefix_def c)
qed

lemma find_unique:
  assumes "x \<in> set xs" and "P x" and "\<And>y. y \<in> set xs \<Longrightarrow> P y \<Longrightarrow> y = x"
  shows "find P xs = Some x"
proof -
  have "find P xs \<noteq> None" using assms(1,2) by (auto simp: find_None_iff)
  then obtain y where y: "find P xs = Some y" by blast
  then have "y \<in> set xs" "P y" by (auto simp: find_Some_iff)
  with assms(3) y show ?thesis by blast
qed

lemma get_env_found:
  assumes "v \<in> set envp" and "has_prefix pre (ev_text v)"
    and "\<forall>w \<in> set envp. has_prefix pre (ev_text w) \<longrightarrow> ev_text w = ev_text v"
    and "0 \<notin> set (ev_text v)" and "ev_text v = pre @ t @ [0x20]"
  shows "get_env_vars envp pre = Some t"
proof -
  have "find (has_prefix pre) (map ev_text envp) = Some (ev_text v)"
  proof (rule find_unique)
    show "ev_text v \<in> set (map ev_text envp)" using assms(1) by simp
    fix y assume "y \<in> set (map ev_text envp)" and "has_prefix pre y"
    then obtain w where "w \<in> set envp" "y = ev_text w" "has_prefix pre (ev_text w)" by fastforce
    with assms(3) show "y = ev_text v" by metis
  qed (rule assms(2))
  moreover have "cstr (ev_text v) = ev_text v"
    using assms(4) by (auto simp: cstr_def)
  ultimately show ?thesis
    unfolding get_env_vars_def by (simp add: assms(5) butlast_append)
qed

lemma get_env_absent:
  "\<forall>v \<in> set envp. \<not> has_prefix pre (ev_text v) \<Longrightarrow> get_env_vars envp pre = None"
proof -
  assume "\<forall>v \<in> set envp. \<not> has_prefix pre (ev_text v)"
  then have "find (has_prefix pre) (map ev_text envp) = None" by (auto simp: find_None_iff)
  then show ?thesis by (simp add: get_env_vars_def)
qed

text \<open>The environment of a well-formed message: three strings that do not depend on it, the address,
  the options, and the strings of three fields of the header.\<close>

definition env_head :: "client_config_t \<Rightarrow> byte list list \<Rightarrow> env_var list" where
  "env_head cfg environ =
     [in_block (11 + length (k_interface cfg)) (str ''interface='' @ k_interface cfg),
      \<lparr>ev_text = find_env environ (str ''PATH'') (str ''PATH=/bin:/usr/bin:/sbin:/usr/sbin''), ev_over = 0\<rparr>,
      \<lparr>ev_text = find_env environ (str ''HOME'') (str ''HOME=/''), ev_over = 0\<rparr>]"

definition addr_var :: "string \<Rightarrow> u32 \<Rightarrow> env_var" where
  "addr_var name a = in_block (length name + 16) (str name @ makeip (bytes_le32 a))"

definition field_var :: "env_var \<Rightarrow> bool" where
  "field_var v \<longleftrightarrow> (\<exists>name \<in> {''boot_file='', ''sname=''}. \<exists>t. ev_text v = str name @ t \<and> ev_over v = 0)"

lemma length_str [simp]: "length (str s) = length s"
  by (simp add: str_def)

lemma dhcp_options_split: "dhcp_options \<noteq> []" "opt_code (last dhcp_options) = 0"
  by (simp_all add: dhcp_options_def)

lemma fill_envp_shape:
  assumes "msg_opts p ts" and "no_overload ts" and "wf_msg p" and "options_sized ts"
  obtains vs fs p' where "fill_envp cfg environ (Some p) = Some (env_head cfg environ @ addr_var ''ip='' (m_yiaddr p) #
      vs @ (if m_siaddr p \<noteq> 0 then [addr_var ''siaddr='' (m_siaddr p)] else []) @ fs, Some p')"
    and "list_all2 (option_string p) (present ts (butlast dhcp_options)) vs" and "\<forall>v \<in> set fs. field_var v"
    and "num_options p = Some (length vs + (if m_siaddr p \<noteq> 0 then 1 else 0) + length fs)"
proof -
  obtain vs where vs: "fill_env_options p dhcp_options = Some vs" "count_options p dhcp_options = Some (length vs)"
    "list_all2 (option_string p) (present ts (butlast dhcp_options)) vs"
    using fill_env_options_fits [OF assms(1,2) dhcp_options_split(2) order.refl] assms(4)
    unfolding options_sized_def append_butlast_last_id [OF dhcp_options_split(1)] by blast
  have over: "over_field p = Some 0"
    using get_option_absent [OF assms(1,2), of DHCP_OPTION_OVER] assms(2)
    by (simp add: over_field_def no_overload_def map_of_eq_None_iff)
  have l: "length (m_file p) = 128" "length (m_sname p) = 64"
    using assms(3) by (simp_all add: wf_msg_def)
  let ?f = "m_file p ! 0 \<noteq> 0" and ?s = "m_sname p ! 0 \<noteq> 0"
  let ?file = "if ?f then take 127 (m_file p) @ [0] else m_file p"
  let ?sname = "if ?s then take 63 (m_sname p) @ [0] else m_sname p"
  let ?fs = "(if ?f then [in_block (11 + length (cstr ?file)) (str ''boot_file='' @ cstr ?file)] else []) @
    (if ?s then [in_block (7 + length (cstr ?sname)) (str ''sname='' @ cstr ?sname)] else [])"
  have "fill_envp cfg environ (Some p) = Some (env_head cfg environ @ addr_var ''ip='' (m_yiaddr p) #
      vs @ (if m_siaddr p \<noteq> 0 then [addr_var ''siaddr='' (m_siaddr p)] else []) @ ?fs,
      Some (p\<lparr>m_file := ?file, m_sname := ?sname\<rparr>))"
    using vs(1) over l
    by (auto simp: fill_envp_def env_head_def addr_var_def sprintip_makeip rd_def wr_def Let_def)
  moreover have "\<forall>v \<in> set ?fs. field_var v"
    by (auto simp: field_var_def in_block_def)
  moreover have "num_options p = Some (length vs + (if m_siaddr p \<noteq> 0 then 1 else 0) + length ?fs)"
    using vs(2) over l by (simp add: num_options_def rd_def)
  ultimately show thesis using that vs(3) by blast
qed

lemma has_prefix_clash:
  assumes "has_prefix a s" and "has_prefix b s" and "n \<le> length a" and "n \<le> length b"
  shows "take n a = take n b"
proof -
  have "take n (take m (cstr s)) = take n (cstr s)" if "n \<le> m" for m
    using that by (simp add: min_def)
  then show ?thesis using assms unfolding has_prefix_def by metis
qed

lemma find_env_prefix:
  assumes "has_prefix pre def"
  shows "has_prefix pre (find_env environ pre def)"
proof (cases "find (has_prefix pre) environ")
  case None
  then show ?thesis using assms by (simp add: find_env_def)
next
  case (Some s)
  then have "has_prefix pre s" by (auto simp: find_Some_iff)
  with Some show ?thesis by (simp add: find_env_def)
qed

lemma has_prefix_self: "0 \<notin> set a \<Longrightarrow> has_prefix a (a @ b)"
  by (auto simp: has_prefix_def cstr_def takeWhile_append)

text \<open>The variables that the script looks up, and the names of the other strings.\<close>

abbreviation (input) searched :: "byte list list" where
  "searched \<equiv> [str ''ip='', str ''subnet='', str ''router='', str ''dns='', str ''discovery='']"

abbreviation (input) unsearched :: "byte list list" where
  "unsearched \<equiv> [str ''interface='', str ''PATH'', str ''HOME'', str ''siaddr='', str ''boot_file='', str ''sname='']"

lemma searched_names:
  "map (\<lambda>opt. name_eq opt) [subnet_opt, router_opt, dns_opt, discovery_opt] = tl searched"
  "list_all (\<lambda>a. list_all (\<lambda>b. take 2 a \<noteq> take 2 b \<and> 2 \<le> length a \<and> 2 \<le> length b \<and> 0 \<notin> set a \<and> 0 \<notin> set b) searched) unsearched"
  "list_all (\<lambda>b. take 2 (str ''ip='') \<noteq> take 2 b \<and> 2 \<le> length b) (tl searched)"
  by code_simp+

lemma unsearched_clash:
  assumes "a \<in> set unsearched" and "pre \<in> set searched"
  shows "has_prefix a s \<Longrightarrow> \<not> has_prefix pre s" and "\<not> has_prefix pre (a @ t)"
proof -
  have *: "take 2 a \<noteq> take 2 pre" "2 \<le> length a" "2 \<le> length pre" "0 \<notin> set a"
    using searched_names(2) assms unfolding list_all_iff by blast+
  show c: "\<not> has_prefix pre s" if "has_prefix a s" for s
    using has_prefix_clash [OF that _ *(2,3)] *(1) by blast
  show "\<not> has_prefix pre (a @ t)" by (rule c) (rule has_prefix_self [OF *(4)])
qed

definition env_shape ::
  "client_config_t \<Rightarrow> byte list list \<Rightarrow> dhcpMessage \<Rightarrow> tlv list \<Rightarrow> env_var list \<Rightarrow> bool" where
  "env_shape cfg environ p ts envp \<longleftrightarrow> (\<exists>vs fs.
     envp = env_head cfg environ @ addr_var ''ip='' (m_yiaddr p) # vs @
       (if m_siaddr p \<noteq> 0 then [addr_var ''siaddr='' (m_siaddr p)] else []) @ fs \<and>
     list_all2 (option_string p) (present ts (butlast dhcp_options)) vs \<and> (\<forall>v \<in> set fs. field_var v))"

lemma env_head_unsearched:
  assumes "v \<in> set (env_head cfg environ)"
  shows "\<exists>a \<in> set unsearched. has_prefix a (ev_text v)"
proof -
  have "has_prefix (str ''PATH'') (find_env environ (str ''PATH'') (str ''PATH=/bin:/usr/bin:/sbin:/usr/sbin''))"
    "has_prefix (str ''HOME'') (find_env environ (str ''HOME'') (str ''HOME=/''))"
    by (rule find_env_prefix, simp add: has_prefix_def cstr_def str_def)+
  moreover have "has_prefix (str ''interface='') (str ''interface='' @ k_interface cfg)"
    by (rule has_prefix_self) (simp add: str_def)
  ultimately show ?thesis using assms by (auto simp: env_head_def in_block_def)
qed

lemma siaddr_unsearched: "has_prefix (str ''siaddr='') (ev_text (addr_var ''siaddr='' a))"
  unfolding addr_var_def in_block_def by simp (rule has_prefix_self, simp add: str_def)

lemma field_unsearched: "field_var v \<Longrightarrow> \<exists>a \<in> set unsearched. has_prefix a (ev_text v)"
  using has_prefix_self [of "str ''boot_file=''"] has_prefix_self [of "str ''sname=''"]
  by (auto simp: field_var_def) (simp_all add: str_def)

lemma env_shape_cases:
  assumes "env_shape cfg environ p ts envp" and "v \<in> set envp"
  obtains (unsearched) a where "a \<in> set unsearched" and "has_prefix a (ev_text v)"
    | (ip) "v = addr_var ''ip='' (m_yiaddr p)"
    | (opt) opt where "opt \<in> set (butlast dhcp_options)" and "map_of ts (opt_code opt) \<noteq> None" and "option_string p opt v"
proof -
  obtain vs fs where e: "envp = env_head cfg environ @ addr_var ''ip='' (m_yiaddr p) # vs @
      (if m_siaddr p \<noteq> 0 then [addr_var ''siaddr='' (m_siaddr p)] else []) @ fs"
    and vs: "list_all2 (option_string p) (present ts (butlast dhcp_options)) vs" and fs: "\<forall>v \<in> set fs. field_var v"
    using assms(1) unfolding env_shape_def by blast
  from assms(2) consider "v \<in> set (env_head cfg environ)" | "v = addr_var ''ip='' (m_yiaddr p)" | "v \<in> set vs"
    | "v = addr_var ''siaddr='' (m_siaddr p)" | "v \<in> set fs"
    unfolding e by (auto split: if_splits)
  then show thesis
  proof cases
    case 1
    then show thesis using env_head_unsearched unsearched by blast
  next
    case 2
    then show thesis by (rule ip)
  next
    case 3
    then obtain i where i: "i < length vs" "v = vs ! i" by (auto simp: in_set_conv_nth)
    then have "i < length (present ts (butlast dhcp_options))"
      by (simp only: list_all2_lengthD [OF vs])
    then have "present ts (butlast dhcp_options) ! i \<in> set (present ts (butlast dhcp_options))"
      "option_string p (present ts (butlast dhcp_options) ! i) v"
      unfolding i(2) by (rule nth_mem, rule list_all2_nthD [OF vs])
    then show thesis unfolding set_filter by (blast intro: opt)
  next
    case 4
    then show thesis using siaddr_unsearched [of "m_siaddr p"] by (intro unsearched [of "str ''siaddr=''"]) simp_all
  next
    case 5
    then show thesis using fs field_unsearched unsearched by blast
  qed
qed

lemma option_string_det: "option_string p opt v \<Longrightarrow> option_string p opt w \<Longrightarrow> ev_text v = ev_text w"
  unfolding option_string_def by auto

definition quad :: "byte list \<Rightarrow> byte list" where
  "quad ip = dec (unat (ip ! 0)) @ 0x2e # dec (unat (ip ! 1)) @ 0x2e # dec (unat (ip ! 2)) @ 0x2e # dec (unat (ip ! 3))"

lemma makeip_quad: "makeip ip = quad ip @ [0x20]"
  by (simp add: makeip_def quad_def)

lemma isdigit_plain: "isdigit c \<Longrightarrow> c \<noteq> 0 \<and> c \<noteq> 0x20 \<and> c \<noteq> 0x2e"
  by (auto simp: isdigit_def)

lemma quad_plain: "0 \<notin> set (quad ip) \<and> 0x20 \<notin> set (quad ip)"
  using dec_isdigit isdigit_plain unfolding quad_def by fastforce

lemma makeip_no_NUL: "0 \<notin> set (makeip ip)"
  using quad_plain [of ip] by (simp add: makeip_quad)

lemma ip_not_in_table: "list_all (\<lambda>opt. str (opt_name opt) \<noteq> str ''ip'') (butlast dhcp_options)"
  by code_simp

lemma lookup_ip:
  assumes "env_shape cfg environ p ts envp"
  shows "get_env_vars envp (str ''ip='') = Some (quad (bytes_le32 (m_yiaddr p)))"
proof (rule get_env_found)
  let ?v = "addr_var ''ip='' (m_yiaddr p)"
  show "?v \<in> set envp" using assms by (auto simp: env_shape_def)
  show t: "ev_text ?v = str ''ip='' @ quad (bytes_le32 (m_yiaddr p)) @ [0x20]"
    by (simp add: addr_var_def in_block_def makeip_quad)
  show "0 \<notin> set (ev_text ?v)" using quad_plain by (simp add: t) (simp add: str_def)
  show "has_prefix (str ''ip='') (ev_text ?v)"
    unfolding t by (rule has_prefix_self) (simp add: str_def)
  show "\<forall>w \<in> set envp. has_prefix (str ''ip='') (ev_text w) \<longrightarrow> ev_text w = ev_text ?v"
  proof (intro ballI impI)
    fix w assume "w \<in> set envp" and h: "has_prefix (str ''ip='') (ev_text w)"
    with assms show "ev_text w = ev_text ?v"
    proof (cases rule: env_shape_cases)
      case (unsearched a)
      then show ?thesis using h unsearched_clash(1) [of a "str ''ip=''"] by simp
    next
      case (opt opt)
      then obtain tx where "ev_text w = str (opt_name opt) @ 0x3d # tx" by (auto simp: option_string_def)
      moreover have "str ''ip='' = str ''ip'' @ [0x3d]" "0 \<notin> set (str ''ip'')" "0x3d \<notin> set (str ''ip'')"
        by (simp_all add: str_def)
      ultimately have "str ''ip'' = str (opt_name opt)"
        using h has_prefix_name table_names [OF opt(1)] by metis
      then show ?thesis using ip_not_in_table opt(1) unfolding list_all_iff by metis
    qed simp
  qed
qed

lemma named_no_clash:
  assumes "opt \<in> {subnet_opt, router_opt, dns_opt, discovery_opt}" and "env_shape cfg environ p ts envp"
    and "w \<in> set envp" and "has_prefix (name_eq opt) (ev_text w)"
  shows "option_string p opt w \<and> map_of ts (opt_code opt) \<noteq> None"
proof -
  have m: "name_eq opt \<in> set (map (\<lambda>opt. name_eq opt) [subnet_opt, router_opt, dns_opt, discovery_opt])"
    using assms(1) by auto
  then have n: "name_eq opt \<in> set (tl searched)" unfolding searched_names(1) .
  from assms(2,3) show ?thesis
  proof (cases rule: env_shape_cases)
    case (unsearched a)
    then show ?thesis using assms(4) n unsearched_clash(1) [of a "name_eq opt"] by auto
  next
    case ip
    have "take 2 (str ''ip='') \<noteq> take 2 (name_eq opt) \<and> 2 \<le> length (name_eq opt)"
      using searched_names(3) n unfolding list_all_iff by blast
    moreover have "has_prefix (str ''ip='') (ev_text w)"
      unfolding ip addr_var_def in_block_def by simp (rule has_prefix_self, simp add: str_def)
    ultimately show ?thesis using has_prefix_clash [OF _ assms(4), of "str ''ip=''" 2] by simp
  next
    case (opt opt')
    obtain tx where "ev_text w = str (opt_name opt') @ 0x3d # tx" using opt(3) by (auto simp: option_string_def)
    then have "str (opt_name opt') = str (opt_name opt)"
      using assms(4) has_prefix_name table_names [OF opt(1)] table_names [OF named_in_table [OF assms(1)]] by metis
    then have "opt' = opt" by (rule named_unique [OF assms(1) opt(1)])
    then show ?thesis using opt(2,3) by simp
  qed
qed

lemma lookup_absent:
  assumes "opt \<in> {subnet_opt, router_opt, dns_opt, discovery_opt}" and "env_shape cfg environ p ts envp"
    and "map_of ts (opt_code opt) = None"
  shows "get_env_vars envp (name_eq opt) = None"
  using named_no_clash [OF assms(1,2)] assms(3) by (intro get_env_absent) blast

lemma shape_has_option:
  assumes "env_shape cfg environ p ts envp" and "opt \<in> set (butlast dhcp_options)" and "map_of ts (opt_code opt) \<noteq> None"
  obtains v where "v \<in> set envp" and "option_string p opt v"
proof -
  obtain vs fs where e: "envp = env_head cfg environ @ addr_var ''ip='' (m_yiaddr p) # vs @
      (if m_siaddr p \<noteq> 0 then [addr_var ''siaddr='' (m_siaddr p)] else []) @ fs"
    "list_all2 (option_string p) (present ts (butlast dhcp_options)) vs"
    using assms(1) unfolding env_shape_def by blast
  have vs: "list_all2 (option_string p) (present ts (butlast dhcp_options)) vs" "set vs \<subseteq> set envp"
    using e(2) by (simp_all only: e(1)) auto
  have "opt \<in> set (present ts (butlast dhcp_options))" using assms(2,3) by simp
  then obtain i where i: "i < length (present ts (butlast dhcp_options))" "present ts (butlast dhcp_options) ! i = opt"
    unfolding in_set_conv_nth by blast
  then have "i < length vs" by (simp only: list_all2_lengthD [OF vs(1), symmetric])
  then have "vs ! i \<in> set envp" using vs(2) by (meson nth_mem subsetD)
  moreover have "option_string p opt (vs ! i)"
    using list_all2_nthD [OF vs(1) i(1)] unfolding i(2) .
  ultimately show thesis by (rule that)
qed

text \<open>The list of addresses of an option as the script sees it.\<close>

definition ip_words :: "byte list list \<Rightarrow> byte list" where
  "ip_words ips = butlast (concat (map makeip ips))"

lemma lookup_ips:
  assumes "opt \<in> {subnet_opt, router_opt, dns_opt}" and "env_shape cfg environ p ts envp"
    and "msg_opts p ts" and "no_overload ts"
    and "map_of ts (opt_code opt) = Some (concat ips)" and "ips \<noteq> []" and "\<forall>x \<in> set ips. length x = 4"
  shows "get_env_vars envp (name_eq opt) = Some (ip_words ips)"
proof -
  have n: "opt \<in> {subnet_opt, router_opt, dns_opt, discovery_opt}" using assms(1) by auto
  note o = named_in_table [OF n]
  have ty: "opt_type opt = OPTION_IP" using assms(1) by (auto simp: dhcp_options_def)
  have "length (concat ips) = 4 * length ips" using assms(7) by (induction ips) auto
  then have "length (concat ips) mod 4 = 0 \<and> concat ips \<noteq> []"
    using assms(6,7) by (cases ips) auto
  then have "sized opt (concat ips)" using ty by (auto simp: sized_def option_lengths_def)
  then obtain op u tx where f: "get_option p (opt_code opt) = Some (Some op)"
    "fill_options p op opt = Some (str (opt_name opt) @ 0x3d # tx)" "tx = concat (map makeip ips)"
    using fill_options_fits [OF o assms(3-5)] ty assms(6,7) by metis
  obtain v where v: "v \<in> set envp" "option_string p opt v"
    using shape_has_option [OF assms(2) o] assms(5) by auto
  have "concat (map makeip ips) = ip_words ips @ [0x20]"
    using assms(6) unfolding ip_words_def
    by (cases ips rule: rev_cases) (simp_all add: makeip_quad butlast_append)
  then have t: "ev_text v = name_eq opt @ ip_words ips @ [0x20]"
    using v(2) f by (auto simp: option_string_def)
  have "0 \<notin> set (concat (map makeip ips))" using makeip_no_NUL by auto
  then have z: "0 \<notin> set (ip_words ips)" unfolding ip_words_def by (blast dest: in_set_butlastD)
  show ?thesis
  proof (rule get_env_found [OF v(1) _ _ _ t])
    show "0 \<notin> set (ev_text v)" using z table_names [OF o] by (simp add: t)
    show "has_prefix (name_eq opt) (ev_text v)"
      unfolding t by (rule has_prefix_self) (use table_names [OF o] in simp)
    show "\<forall>w \<in> set envp. has_prefix (name_eq opt) (ev_text w) \<longrightarrow> ev_text w = ev_text v"
      using named_no_clash [OF n assms(2)] option_string_det v(2) by blast
  qed
qed

subsection \<open>Words of a text\<close>

lemma length_quad: "length (quad ip) \<le> 15"
  using length_sprintip [of "[]" ip] by (simp add: sprintip_makeip makeip_quad)

lemma ip_words_simps:
  "ip_words [x] = quad x" "ip_words (x # y # ys) = quad x @ 0x20 # ip_words (y # ys)"
  by (simp_all add: ip_words_def makeip_quad butlast_append)

lemma strncpy_pad: "m \<le> n \<Longrightarrow> take m (cstr s @ replicate n 0) = strncpy m s"
  by (simp add: strncpy_def)

lemma next_word_last:
  assumes "0 \<notin> set w" and "0x20 \<notin> set w" and "length w < n"
  shows "next_word (strncpy n w) = Some (w, None)"
proof -
  have "cstr w = w" using assms(1) by (auto simp: cstr_def)
  then have "strncpy n w = w @ 0 # replicate (n - length w - 1) 0"
    using assms(3) by (simp add: strncpy_def Suc_diff_Suc flip: replicate_Suc)
  moreover have "takeWhile (\<lambda>c. c \<noteq> 0x20 \<and> c \<noteq> 0) (w @ 0 # t) = w" for t
    using assms(1,2) by (auto simp: takeWhile_append)
  ultimately show ?thesis by (simp add: next_word_def)
qed

lemma next_word_blank:
  assumes "0 \<notin> set w" and "0x20 \<notin> set w" and "length w < n"
  shows "next_word (strncpy n (w @ 0x20 # t)) = Some (w, Some (strncpy (n - length w - 1) t))"
proof -
  obtain m where m: "n = length w + Suc m" using less_imp_Suc_add [OF assms(3)] by auto
  have "cstr (w @ 0x20 # t) = w @ 0x20 # cstr t"
    using assms(1) by (auto simp: cstr_def takeWhile_append)
  then have "strncpy n (w @ 0x20 # t) = w @ 0x20 # take m (cstr t @ replicate n 0)"
    by (simp add: strncpy_def m)
  moreover have "take m (cstr t @ replicate n 0) = strncpy (n - length w - 1) t"
    using strncpy_pad [of m n t] by (simp add: m)
  moreover have "takeWhile (\<lambda>c. c \<noteq> 0x20 \<and> c \<noteq> 0) (w @ 0x20 # r) = w" for r
    using assms(1,2) by (auto simp: takeWhile_append)
  ultimately show ?thesis by (simp add: next_word_def)
qed

lemma next_word_ips:
  assumes "15 < n"
  shows "next_word (strncpy n (ip_words (x # xs))) =
    Some (quad x, if xs = [] then None else Some (strncpy (n - length (quad x) - 1) (ip_words xs)))"
proof -
  have "length (quad x) < n" using length_quad [of x] assms by simp
  then show ?thesis
    using next_word_last [of "quad x" n] next_word_blank [of "quad x" n "ip_words xs"] quad_plain [of x]
    by (cases xs) (simp_all add: ip_words_simps)
qed

lemma dec_255: "dec 255 = str ''255''"
  by (simp add: str_def dec.simps)

lemma quad_255:
  assumes "take 3 (quad r) = str ''255''"
  shows "r ! 0 = 255"
proof -
  let ?d = "dec (unat (r ! 0))"
  obtain t where q: "quad r = ?d @ 0x2e # t" by (simp add: quad_def)
  have "\<not> length ?d < 3"
  proof
    assume "length ?d < 3"
    then have "0x2e \<in> set (take 3 (quad r))"
      by (auto simp: q take_Cons' split: if_splits)
    then show False using assms by (simp add: str_def)
  qed
  then have "?d = dec 255" using assms dec_u8 [of "r ! 0"] by (simp add: q dec_255)
  then have "unat (r ! 0) = 255" by (metis digits_dec)
  then have "of_nat (unat (r ! 0)) = (255 :: byte)" by simp
  then show ?thesis by simp
qed

lemma inet_aton_quad_text:
  assumes "length ip = 4"
  shows "inet_aton (quad ip) = Some (le32_of ip)"
proof -
  obtain a b c d where ip: "ip = [a, b, c, d]"
    using assms by (auto simp: length_Suc_conv eval_nat_numeral)
  have "inet_aton (quad ip) = Some (htonl (of_nat (((unat a * 256 + unat b) * 256 + unat c) * 256 + unat d)))"
    using inet_aton_quad [of "unat a" "unat b" "unat c" "unat d"] by (simp add: quad_def ip unat_byte_le)
  then show ?thesis by (simp only: ntohl_quad ip le32_of.simps)
qed

subsection \<open>The steps of the script\<close>

lemma inet_addr_quad: "length ip = 4 \<Longrightarrow> inet_addr (quad ip) = le32_of ip"
  by (simp add: inet_addr_def inet_aton_quad_text)

lemma inet_addr_all_ones: "inet_addr (str ''255.255.255.255'') = - 1"
proof -
  have "str ''255.255.255.255'' = quad [255, 255, 255, 255]"
    by (simp add: quad_def str_def dec.simps)
  then show ?thesis using inet_addr_quad [of "[255, 255, 255, 255]"] by (simp add: le32_def)
qed

lemma set_ifconfig_lease:
  assumes "se_ethernet env" and "se_set_addr env" and "se_set_brdaddr env" and "a \<noteq> 0" and "length m = 4"
  obtains out where "set_ifconfig env i (Some (quad (bytes_le32 a))) (Some (quad m)) = Some out"
    and "{If_addr i a, If_netmask i (le32_of m), If_brdaddr i ((a AND le32_of m) OR NOT (le32_of m))} \<subseteq> set out"
  using assms by (auto simp: set_ifconfig_def inet_addr_quad inet_addr_all_ones)

lemma set_ifconfig_no_mask:
  "\<lbrakk>se_ethernet env; se_set_addr env; a \<noteq> 0\<rbrakk> \<Longrightarrow> set_ifconfig env i (Some (quad (bytes_le32 a))) None = None"
  by (simp add: set_ifconfig_def inet_addr_quad)

lemma set_router_first:
  assumes "length r = 4" and "r ! 0 \<noteq> 255"
  obtains out where "set_router env i ip subnet (Some (ip_words (r # rs))) = Some out"
    and "quad r \<noteq> se_cur_router env \<Longrightarrow> Sc_gateway i (Some (quad r)) \<in> set out"
proof -
  have "take 3 (quad r) \<noteq> str ''255''" using quad_255 assms(2) by blast
  then have "set_router env i ip subnet (Some (ip_words (r # rs))) =
      (if quad r = se_cur_router env then Some []
       else Some ((if se_cur_router env \<noteq> [] then [Sc_log_gateway (se_cur_router env) (quad r)] else []) @
         [Sc_gateway (se_if_local env) None, Sc_gateway i (Some (quad r))] @
         (if se_gateway_fails env then [Sc_gateway2 i ip subnet (quad r)] else [])))"
    using next_word_ips [of 256 r rs] inet_aton_quad_text [OF assms(1)]
    by (simp add: set_router_def router_loop.simps)
  then show thesis by (cases "quad r = se_cur_router env") (auto intro: that)
qed

lemma set_dns_two:
  "set_dns env i (Some (ip_words (d # ds))) = Some (
     (if se_autodns env then [Sc_dhcpd_dns (quad d) (if ds = [] then None else Some (quad (hd ds)))] else []) @
     (if \<not> se_manual_dns env
      then [Sc_dns_shadow i (quad d) (if ds = [] then None else Some (quad (hd ds))),
            Sc_system_dns (if i = se_if_wan env then str ''wan1'' else str ''wan2'')] else []))"
proof -
  have "15 < 128 - length (quad d) - 1" using length_quad [of d] by simp
  then show ?thesis
    using next_word_ips [of 128 d ds] next_word_ips [of "128 - length (quad d) - 1" "hd ds" "tl ds"]
    by (cases ds) (simp_all add: set_dns_def)
qed

definition iface_ok :: "client_config_t \<Rightarrow> bool" where
  "iface_ok cfg \<longleftrightarrow> k_interface cfg \<noteq> [] \<and> 0 \<notin> set (k_interface cfg) \<and> last (k_interface cfg) \<noteq> 0x20"

lemma lookup_interface:
  assumes "iface_ok cfg" and "env_shape cfg environ p ts envp"
  shows "get_env_vars envp (str ''interface='') = Some (k_interface cfg)"
proof -
  obtain rest where e: "envp = in_block (11 + length (k_interface cfg)) (str ''interface='' @ k_interface cfg) # rest"
    using assms(2) by (auto simp: env_shape_def env_head_def)
  have n: "0 \<notin> set (str ''interface='')" by (simp add: str_def)
  have "has_prefix (str ''interface='') (str ''interface='' @ k_interface cfg)" by (rule has_prefix_self [OF n])
  moreover have "cstr (str ''interface='' @ k_interface cfg) = str ''interface='' @ k_interface cfg"
    using assms(1) n by (auto simp: cstr_def iface_ok_def)
  ultimately show ?thesis using assms(1) by (simp add: get_env_vars_def e in_block_def iface_ok_def)
qed

lemma fill_envp_defined:
  assumes "msg_opts p ts" and "no_overload ts" and "wf_msg p" and "options_sized ts"
  obtains envp p' where "fill_envp cfg environ (Some p) = Some (envp, Some p')" and "env_shape cfg environ p ts envp"
  using fill_envp_shape [OF assms] unfolding env_shape_def by metis

text \<open>The names of the variables as the script writes them.\<close>

lemma searched_names_eq:
  "str ''subnet='' = name_eq subnet_opt" "str ''router='' = name_eq router_opt" "str ''dns='' = name_eq dns_opt"
  "opt_code subnet_opt = DHCP_SUBNET" "opt_code router_opt = DHCP_ROUTER" "opt_code dns_opt = DHCP_DNS_SERVER"
  by (simp_all add: dhcp_options_def str_def)

text \<open>A message with the three options that the script applies: the mask \<open>m\<close>, the routers \<open>rs\<close> and the
  name servers \<open>ds\<close>.\<close>

definition lease_message :: "dhcpMessage \<Rightarrow> tlv list \<Rightarrow> byte list \<Rightarrow> byte list list \<Rightarrow> byte list list \<Rightarrow> bool" where
  "lease_message p ts m rs ds \<longleftrightarrow> wf_msg p \<and> msg_opts p ts \<and> no_overload ts \<and> options_sized ts \<and>
     m_yiaddr p \<noteq> 0 \<and> map_of ts DHCP_SUBNET = Some m \<and> length m = 4 \<and>
     map_of ts DHCP_ROUTER = Some (concat rs) \<and> rs \<noteq> [] \<and> list_all (\<lambda>r. length r = 4) rs \<and>
     map_of ts DHCP_DNS_SERVER = Some (concat ds) \<and> ds \<noteq> [] \<and> list_all (\<lambda>d. length d = 4) ds"

definition script_ready :: "script_env \<Rightarrow> bool" where
  "script_ready env \<longleftrightarrow> se_ethernet env \<and> se_set_addr env \<and> se_set_brdaddr env"

lemma lease_lookups:
  assumes "lease_message p ts m rs ds" and "env_shape cfg environ p ts envp"
  shows "get_env_vars envp (str ''subnet='') = Some (quad m)"
    and "get_env_vars envp (str ''router='') = Some (ip_words rs)"
    and "get_env_vars envp (str ''dns='') = Some (ip_words ds)"
proof -
  note l = assms(1) [unfolded lease_message_def list_all_iff]
  have "get_env_vars envp (name_eq subnet_opt) = Some (ip_words [m])"
    using l by (intro lookup_ips [OF _ assms(2)]) (simp_all only: searched_names_eq, simp_all)
  then show "get_env_vars envp (str ''subnet='') = Some (quad m)"
    by (simp only: searched_names_eq ip_words_simps)
  show "get_env_vars envp (str ''router='') = Some (ip_words rs)" "get_env_vars envp (str ''dns='') = Some (ip_words ds)"
    unfolding searched_names_eq using l
    by (intro lookup_ips [OF _ assms(2)]; simp only: searched_names_eq; simp)+
qed

lemma script_names: "str ''bound'' \<noteq> str ''deconfig''"
  by (simp add: str_def)

lemma run_script_bound:
  assumes "fill_envp cfg (se_environ env) packet = Some (envp, q)"
    and "get_env_vars envp (str ''interface='') = Some i"
  obtains tl where "run_script env cfg packet (str ''bound'') =
    map_option (\<lambda>out. (q, out @ tl)) (apply_lease env cfg i envp True)"
proof -
  let ?on = "case get_env_vars envp (str ''discovery='') of None \<Rightarrow> False | Some d \<Rightarrow> d \<noteq> str ''0''"
  have "run_script env cfg packet (str ''bound'') = map_option (\<lambda>out. (q, out @ [Sc_icmp_solicite ?on] @
      (if ?on then [Sc_log_discovery] else []))) (apply_lease env cfg i envp True)"
    by (cases "apply_lease env cfg i envp True") (simp_all add: run_script_def assms script_names Let_def)
  then show thesis by (rule that)
qed

text \<open>An option for addresses that is shorter than an address gets a block for its name only, and at
  least eight characters are written behind it.\<close>

lemma short_option_overruns:
  assumes "off + 4 \<le> length a" and "len < 4" and "opt_type opt = OPTION_IP"
  shows "\<exists>t. fill_values a OPTION_IP off 4 len = Some t \<and> upper_length len opt = Some 0 \<and>
    8 \<le> ev_over (in_block (0 + length (opt_name opt) + 2) (str (opt_name opt) @ 0x3d # t))"
proof -
  have d: "1 \<le> length (dec n)" for n by (simp add: Suc_le_eq)
  let ?t = "makeip (take 4 (drop off a))"
  have "8 \<le> length ?t"
    using d [of "unat (take 4 (drop off a) ! 0)"] d [of "unat (take 4 (drop off a) ! 1)"]
      d [of "unat (take 4 (drop off a) ! 2)"] d [of "unat (take 4 (drop off a) ! 3)"]
    by (simp add: makeip_def del: dec_nonempty)
  moreover have "fill_values a OPTION_IP off 4 len = Some ?t"
    using assms(1,2) by (subst fill_values.simps) (simp add: fill_value_def rd_n_def sprintip_makeip)
  moreover have "upper_length len opt = Some 0"
    using assms(2,3) by (simp add: upper_length_def option_lengths_def max_option_length_def rd_def)
  ultimately show ?thesis by (auto simp: in_block_def)
qed

subsection \<open>Sample values\<close>

definition sample_lease_opts :: "tlv list" where
  "sample_lease_opts = [(DHCP_MESSAGE_TYPE, [DHCPACK]), (DHCP_SUBNET, [255, 255, 255, 0]), (DHCP_ROUTER, [203, 0, 1, 1]),
     (DHCP_DNS_SERVER, [168, 126, 63, 1, 168, 126, 63, 2])]"

definition sample_script_env :: script_env where
  "sample_script_env = \<lparr>se_environ = [], se_ethernet = True, se_set_addr = True, se_set_brdaddr = True,
     se_set_netmask = True, se_cur_ip = [], se_cur_subnet = [], se_cur_router = [], se_gateway_fails = False,
     se_autodns = True, se_manual_dns = False, se_nat = True, se_if_local = str ''br0'', se_if_wan = str ''eth1''\<rparr>"

lemma sample_lease_sized: "options_sized sample_lease_opts" "options_sized [(DHCP_MESSAGE_TYPE, [DHCPACK])]"
  by code_simp+

lemma sample_lease_message:
  "lease_message (sample_answer sample_lease_opts) sample_lease_opts [255, 255, 255, 0] [[203, 0, 1, 1]]
     [[168, 126, 63, 1], [168, 126, 63, 2]]"
proof -
  have "wf_msg (sample_answer sample_lease_opts) \<and> msg_opts (sample_answer sample_lease_opts) sample_lease_opts"
    using sample_answer_msg [of sample_lease_opts] by (simp add: sample_lease_opts_def wf_tlv_def)
  moreover have "m_yiaddr (sample_answer sample_lease_opts) \<noteq> 0" by (simp add: sample_answer_def)
  ultimately show ?thesis
    using sample_lease_sized(1) by (simp add: lease_message_def) (simp add: sample_lease_opts_def no_overload_def)
qed

lemma sample_script_ready: "script_ready sample_script_env" "iface_ok sample_client"
  by (simp_all add: script_ready_def sample_script_env_def iface_ok_def sample_client_def str_def)

subsection \<open>Properties\<close>

text \<open>C10: When the client becomes bound, the script gives the interface the address of the message, the
  mask of the message and the broadcast address that belongs to both; it makes the first router of
  the list the default gateway, unless it already is, and hands the first two name servers to the
  DHCP server of the local network when these are taken over automatically.  The message has a
  nonzero address, a mask, at least one router and one name server, options of the lengths of their
  types and no overload option; the first router does not start with 255; and the interface is an
  Ethernet interface with a proper name whose address and broadcast address can be set.\<close>

theorem bound_configures:
  assumes "lease_message p ts m rs ds" and "iface_ok cfg" and "script_ready env" and "hd rs ! 0 \<noteq> 255"
  shows "\<exists>p' out. run_script env cfg (Some p) (str ''bound'') = Some (p', out) \<and>
    {If_addr (k_interface cfg) (m_yiaddr p), If_netmask (k_interface cfg) (le32_of m),
     If_brdaddr (k_interface cfg) ((m_yiaddr p AND le32_of m) OR NOT (le32_of m))} \<subseteq> set out \<and>
    (quad (hd rs) \<noteq> se_cur_router env \<longrightarrow> Sc_gateway (k_interface cfg) (Some (quad (hd rs))) \<in> set out) \<and>
    (se_autodns env \<longrightarrow>
      Sc_dhcpd_dns (quad (hd ds)) (if tl ds = [] then None else Some (quad (ds ! 1))) \<in> set out)"
proof -
  let ?i = "k_interface cfg"
  note l = assms(1) [unfolded lease_message_def list_all_iff]
  obtain envp p' where f: "fill_envp cfg (se_environ env) (Some p) = Some (envp, Some p')"
    and e: "env_shape cfg (se_environ env) p ts envp"
    using fill_envp_defined [of p ts cfg "se_environ env"] l by metis
  note v = lookup_interface [OF assms(2) e] lookup_ip [OF e] lease_lookups [OF assms(1) e]
  obtain o1 where o1: "set_ifconfig env ?i (Some (quad (bytes_le32 (m_yiaddr p)))) (Some (quad m)) = Some o1"
    "{If_addr ?i (m_yiaddr p), If_netmask ?i (le32_of m),
      If_brdaddr ?i ((m_yiaddr p AND le32_of m) OR NOT (le32_of m))} \<subseteq> set o1"
    using set_ifconfig_lease [of env "m_yiaddr p" m ?i] assms(3) l unfolding script_ready_def by metis
  obtain r rs' d ds' where rd: "rs = r # rs'" "ds = d # ds'" using l by (metis list.exhaust)
  obtain o2 where o2: "set_router env ?i (quad (bytes_le32 (m_yiaddr p))) (Some (quad m)) (Some (ip_words rs)) = Some o2"
    "quad r \<noteq> se_cur_router env \<Longrightarrow> Sc_gateway ?i (Some (quad r)) \<in> set o2"
    using set_router_first [of r env ?i _ _ rs'] assms(4) l by (auto simp: rd)
  obtain o3 where o3: "set_dns env ?i (Some (ip_words ds)) = Some o3"
    "se_autodns env \<Longrightarrow> Sc_dhcpd_dns (quad d) (if ds' = [] then None else Some (quad (hd ds'))) \<in> set o3"
    using set_dns_two [of env ?i d ds'] by (simp add: rd)
  have "(if tl ds = [] then None else Some (quad (ds ! 1))) = (if ds' = [] then None else Some (quad (hd ds')))"
    by (simp add: rd hd_conv_nth)
  note d2 = this
  obtain o4 where a: "apply_lease env cfg ?i envp True = Some (o1 @ [Sc_wizard ?i] @ o2 @ o3 @ o4)"
    by (simp add: apply_lease_def v o1(1) o2(1) o3(1) Let_def)
  obtain o5 where "run_script env cfg (Some p) (str ''bound'') = Some (Some p', o1 @ [Sc_wizard ?i] @ o2 @ o3 @ o4 @ o5)"
    using run_script_bound [OF f v(1)] a by auto
  then show ?thesis
    using o1(2) o2(2) o3(2) unfolding d2
    by (intro exI [of _ "Some p'"] exI [of _ "o1 @ [Sc_wizard ?i] @ o2 @ o3 @ o4 @ o5"]) (auto simp: rd(1) rd(2))
qed

theorem bound_configures_witness:
  "\<exists>p' out. run_script sample_script_env sample_client (Some (sample_answer sample_lease_opts)) (str ''bound'') =
       Some (p', out) \<and> If_netmask (k_interface sample_client) (le32_of [255, 255, 255, 0]) \<in> set out \<and>
     Sc_gateway (k_interface sample_client) (Some (quad [203, 0, 1, 1])) \<in> set out \<and>
     Sc_dhcpd_dns (quad [168, 126, 63, 1]) (Some (quad [168, 126, 63, 2])) \<in> set out"
proof -
  have "quad [203, 0, 1, 1] \<noteq> se_cur_router sample_script_env" "se_autodns sample_script_env"
    by (simp_all add: sample_script_env_def quad_def)
  then show ?thesis
    using bound_configures [OF sample_lease_message sample_script_ready(2,1)] by auto
qed

text \<open>C15: An answer without a subnet mask ends the client: the script hands a null pointer to the
  function that configures the interface, which reads it.  The answer has a nonzero address, options
  of the lengths of their types and no overload option, and the interface is an Ethernet interface
  with a proper name whose address can be set.\<close>

theorem bound_needs_mask:
  assumes "wf_msg p" and "msg_opts p ts" and "no_overload ts" and "options_sized ts" and "iface_ok cfg"
    and "script_ready env" and "m_yiaddr p \<noteq> 0" and "map_of ts DHCP_SUBNET = None"
  shows "run_script env cfg (Some p) (str ''bound'') = None"
proof -
  obtain envp p' where f: "fill_envp cfg (se_environ env) (Some p) = Some (envp, Some p')"
    and e: "env_shape cfg (se_environ env) p ts envp"
    using fill_envp_defined [OF assms(2,3,1,4)] by metis
  have n: "get_env_vars envp (str ''subnet='') = None"
    unfolding searched_names_eq by (rule lookup_absent [OF _ e]) (simp_all only: searched_names_eq assms(8), simp)
  have "set_ifconfig env (k_interface cfg) (Some (quad (bytes_le32 (m_yiaddr p)))) None = None"
    using set_ifconfig_no_mask assms(6,7) unfolding script_ready_def by blast
  then have "apply_lease env cfg (k_interface cfg) envp True = None"
    by (simp add: apply_lease_def lookup_ip [OF e] n)
  then show ?thesis using run_script_bound [OF f lookup_interface [OF assms(5) e]] by (metis option.simps(8))
qed

theorem bound_needs_mask_witness:
  "run_script sample_script_env sample_client (Some (sample_answer [(DHCP_MESSAGE_TYPE, [DHCPACK])])) (str ''bound'') = None"
  using sample_answer_msg [of "[(DHCP_MESSAGE_TYPE, [DHCPACK])]"]
  by (intro bound_needs_mask [OF _ _ _ sample_lease_sized(2) sample_script_ready(2,1)])
    (simp_all add: wf_tlv_def no_overload_def, simp add: sample_answer_def)

text \<open>C14: For a message without an overload option whose options have the lengths of their types, the
  vector of the environment has room for every string, and every string fits into its block, with one exception: the block for an
  address is one byte too short, and the terminating byte of an address of fifteen characters is
  written behind it.\<close>

theorem env_vars_fit:
  assumes "wf_msg p" and "msg_opts p ts" and "no_overload ts" and "options_sized ts"
  shows "\<exists>envp p' n. fill_envp cfg environ (Some p) = Some (envp, p') \<and>
    num_options p = Some n \<and> length envp + 1 = n + 5 \<and>
    (\<forall>v \<in> set envp. ev_over v \<noteq> 0 \<longrightarrow> ev_over v = 1 \<and>
      (\<exists>a \<in> {m_yiaddr p, m_siaddr p}. v \<in> {addr_var ''ip='' a, addr_var ''siaddr='' a} \<and>
        length (quad (bytes_le32 a)) = 15)) \<and>
    (length (quad (bytes_le32 (m_yiaddr p))) = 15 \<longrightarrow> (\<exists>v \<in> set envp. ev_over v = 1))"
proof -
  obtain vs fs p' where f: "fill_envp cfg environ (Some p) = Some (env_head cfg environ @ addr_var ''ip='' (m_yiaddr p) #
      vs @ (if m_siaddr p \<noteq> 0 then [addr_var ''siaddr='' (m_siaddr p)] else []) @ fs, Some p')"
    and vs: "list_all2 (option_string p) (present ts (butlast dhcp_options)) vs" and fs: "\<forall>v \<in> set fs. field_var v"
    and n: "num_options p = Some (length vs + (if m_siaddr p \<noteq> 0 then 1 else 0) + length fs)"
    by (rule fill_envp_shape [OF assms(2,3,1,4)])
  let ?e = "env_head cfg environ @ addr_var ''ip='' (m_yiaddr p) # vs @
    (if m_siaddr p \<noteq> 0 then [addr_var ''siaddr='' (m_siaddr p)] else []) @ fs"
  have h: "ev_over v = 0" if "v \<in> set (env_head cfg environ)" for v
    using that by (auto simp: env_head_def in_block_def)
  have o: "ev_over v = 0" if "v \<in> set vs" for v
    using that vs unfolding list_all2_conv_all_nth in_set_conv_nth option_string_def by metis
  have g: "ev_over v = 0" if "v \<in> set fs" for v
    using that fs by (auto simp: field_var_def)
  have a: "ev_over (addr_var name x) = (if length (quad (bytes_le32 x)) = 15 then 1 else 0)" for name x
    using length_quad [of "bytes_le32 x"] by (simp add: addr_var_def in_block_def makeip_quad)
  have "v \<in> {addr_var ''ip='' (m_yiaddr p), addr_var ''siaddr='' (m_siaddr p)}" if "v \<in> set ?e" "ev_over v \<noteq> 0" for v
    using that h o g by (auto split: if_splits)
  then have "\<forall>v \<in> set ?e. ev_over v \<noteq> 0 \<longrightarrow> ev_over v = 1 \<and>
      (\<exists>a \<in> {m_yiaddr p, m_siaddr p}. v \<in> {addr_var ''ip='' a, addr_var ''siaddr='' a} \<and>
        length (quad (bytes_le32 a)) = 15)"
    using a by (metis (no_types, lifting) insert_iff singletonD)
  moreover have "length ?e + 1 = length vs + (if m_siaddr p \<noteq> 0 then 1 else 0) + length fs + 5"
    by (simp add: env_head_def)
  moreover have "length (quad (bytes_le32 (m_yiaddr p))) = 15 \<longrightarrow> (\<exists>v \<in> set ?e. ev_over v = 1)"
    using a [of "''ip=''" "m_yiaddr p"] by auto
  ultimately show ?thesis using f n by blast
qed

theorem env_vars_fit_witness:
  "\<exists>envp p' n. fill_envp sample_client [] (Some (sample_answer sample_lease_opts)) = Some (envp, p') \<and>
     num_options (sample_answer sample_lease_opts) = Some n \<and> length envp + 1 = n + 5"
  using env_vars_fit [of "sample_answer sample_lease_opts" sample_lease_opts sample_client "[]"] sample_lease_message
  unfolding lease_message_def by blast

end
