(* ===== verification/Igmp_Net.thy ===== *)
theory Igmp_Net
  imports Dhcp_Packet Dhcp_Config
begin

section \<open>Addresses, interfaces and IGMP messages of the IGMP proxy\<close>

text \<open>
  The helpers of \<^verbatim>\<open>igmpproxy/src/lib.c\<close> (address formatting and the second Internet checksum of
  the source tree), the interface vector of \<^verbatim>\<open>ifvc.c\<close> and the message level of \<^verbatim>\<open>igmp.c\<close>: the
  header template in \<^verbatim>\<open>send_buf\<close>, \<^verbatim>\<open>buildIgmp\<close>, \<^verbatim>\<open>sendIgmp\<close> and the checks \<^verbatim>\<open>acceptIgmp\<close>
  makes before it looks at the message type.  Addresses are in network byte order, that is, a
  \<open>u32\<close> holds the little-endian reading of the four octets.  \<^verbatim>\<open>log\<close> writes messages only: the
  \<^verbatim>\<open>exit\<close> its comment promises for errors is compiled out (\<^verbatim>\<open>syslog.c\<close>, \<^verbatim>\<open>#if 0\<close>), so an
  error message does not end a handler.
\<close>

subsection \<open>lib.c\<close>

abbreviation (input) dot :: byte where "dot \<equiv> 0x2e"
abbreviation (input) slash :: byte where "slash \<equiv> 0x2f"

definition inetFmt :: "u32 \<Rightarrow> byte list" where
  "inetFmt addr =
     (let a = bytes_le32 addr in
      dec (unat (a ! 0)) @ dot # dec (unat (a ! 1)) @ dot # dec (unat (a ! 2)) @ dot #
      dec (unat (a ! 3)))"

definition fmtInAdr :: "u32 \<Rightarrow> byte list" where
  "fmtInAdr InAdr =
     (let a = bytes_le32 InAdr in
      dec (unat (a ! 0)) @ dot # dec (unat (a ! 1)) @ dot # dec (unat (a ! 2)) @ dot #
      dec (unat (a ! 3)))"

text \<open>\<^verbatim>\<open>ffs\<close>: one plus the index of the least significant set bit, zero for zero.\<close>

fun ffs_from :: "nat \<Rightarrow> nat \<Rightarrow> u32 \<Rightarrow> nat" where
  "ffs_from i 0 w = 0"
| "ffs_from i (Suc n) w = (if bit w i then i + 1 else ffs_from (i + 1) n w)"

definition ffs :: "u32 \<Rightarrow> nat" where
  "ffs w = ffs_from 0 32 w"

definition inetFmts :: "u32 \<Rightarrow> u32 \<Rightarrow> byte list" where
  "inetFmts addr net_mask =
     (if addr = 0 \<and> net_mask = 0 then str ''default''
      else
        let a = bytes_le32 addr; m = bytes_le32 net_mask; bits = 33 - ffs (ntohl net_mask);
            o0 = dec (unat (a ! 0)); o1 = dec (unat (a ! 1)); o2 = dec (unat (a ! 2));
            o3 = dec (unat (a ! 3))
        in if m ! 3 \<noteq> 0 then o0 @ dot # o1 @ dot # o2 @ dot # o3 @ slash # dec bits
           else if m ! 2 \<noteq> 0 then o0 @ dot # o1 @ dot # o2 @ slash # dec bits
           else if m ! 1 \<noteq> 0 then o0 @ dot # o1 @ slash # dec bits
           else o0 @ slash # dec bits)"

text \<open>The accumulator of \<^verbatim>\<open>inetChksum\<close> is an \<^verbatim>\<open>int\<close>, as in \<^verbatim>\<open>packet.c\<close>; it stays below \<open>2 ^ 31\<close>
  for the blocks a socket buffer can hold.\<close>

fun chksum_words :: "nat \<Rightarrow> byte list \<Rightarrow> nat" where
  "chksum_words s (a # b # w) = chksum_words (s + unat (le16 a b)) w"
| "chksum_words s [a] = s + unat (le16 a 0)"
| "chksum_words s [] = s"

definition inetChksum :: "byte list \<Rightarrow> u16" where
  "inetChksum addr =
     (let s = chksum_words 0 addr;
          s = s div 65536 + s mod 65536;
          s = s + s div 65536
      in NOT (of_nat s))"

subsection \<open>The interface vector (ifvc.c)\<close>

datatype if_state_t = IF_STATE_DISABLED | IF_STATE_UPSTREAM | IF_STATE_DOWNSTREAM

record subnet =
  subnet_addr :: u32
  subnet_mask :: u32

record IfDesc =
  if_Name :: "byte list"
  if_InAdr :: u32
  if_Flags :: u16
  if_state :: if_state_t
  if_allowednets :: "subnet list"
  if_robustness :: u32
  if_threshold :: byte
  if_ratelimit :: u32
  if_index :: u32

abbreviation (input) MAX_IF :: nat where "MAX_IF \<equiv> 40"
abbreviation (input) DEFAULT_ROBUSTNESS :: u32 where "DEFAULT_ROBUSTNESS \<equiv> 5"
abbreviation (input) IFF_LOOPBACK :: u16 where "IFF_LOOPBACK \<equiv> 8"

text \<open>What the \<^verbatim>\<open>ioctl\<close> calls report about one interface.\<close>

record ifreq =
  ifr_name :: "byte list"
  ifr_inet :: bool
  ifr_addr :: u32
  ifr_netmask :: u32
  ifr_flags :: u16

definition zero_IfDesc :: IfDesc where
  "zero_IfDesc = \<lparr>if_Name = [], if_InAdr = 0, if_Flags = 0, if_state = IF_STATE_DISABLED,
     if_allowednets = [], if_robustness = 0, if_threshold = 0, if_ratelimit = 0, if_index = 0\<rparr>"

definition build_IfDesc :: "byte list \<Rightarrow> byte list \<Rightarrow> ifreq \<Rightarrow> IfDesc" where
  "build_IfDesc wanif local_ip r =
     (let d = zero_IfDesc\<lparr>if_Name := ifr_name r, if_index := - 1\<rparr> in
      if \<not> ifr_inet r then d\<lparr>if_InAdr := 0\<rparr>
      else
        let d = d\<lparr>if_InAdr := ifr_addr r\<rparr>
        in if wanif \<noteq> if_Name d \<and> inetFmt (if_InAdr d) \<noteq> local_ip then d
           else d\<lparr>if_Flags := ifr_flags r,
                  if_allowednets := [\<lparr>subnet_addr = ifr_addr r AND ifr_netmask r,
                                      subnet_mask = ifr_netmask r\<rparr>],
                  if_state := IF_STATE_DOWNSTREAM, if_robustness := DEFAULT_ROBUSTNESS,
                  if_threshold := 1, if_ratelimit := 0\<rparr>)"

text \<open>The kernel fills at most \<open>MAX_IF\<close> entries, the size of the vector it is given.\<close>

definition buildIfVc :: "byte list \<Rightarrow> byte list \<Rightarrow> ifreq list \<Rightarrow> IfDesc list" where
  "buildIfVc wanif local_ip reqs = map (build_IfDesc wanif local_ip) (take MAX_IF reqs)"

definition getIfByName :: "byte list \<Rightarrow> IfDesc list \<Rightarrow> IfDesc option" where
  "getIfByName IfName ifs = find (\<lambda>d. if_Name d = IfName) ifs"

text \<open>The address of entry \<open>Ix\<close> is computed before it is compared with the end of the vector: an
  index past the array (the unsigned reading of -1 in particular) forms a pointer that belongs
  to no entry, the outer \<open>None\<close>.\<close>

definition getIfByIx :: "u32 \<Rightarrow> IfDesc list \<Rightarrow> IfDesc option option" where
  "getIfByIx Ix ifs =
     (if unat Ix \<le> MAX_IF then Some (if unat Ix < length ifs then Some (ifs ! unat Ix) else None)
      else None)"

fun match_nets :: "u32 \<Rightarrow> IfDesc \<Rightarrow> subnet list \<Rightarrow> IfDesc option \<Rightarrow> IfDesc + IfDesc option" where
  "match_nets ipaddr Dp [] fallback = Inr fallback"
| "match_nets ipaddr Dp (n # ns) fallback =
     (if subnet_addr n AND subnet_mask n = 0 then match_nets ipaddr Dp ns (Some Dp)
      else if ipaddr AND subnet_mask n = subnet_addr n then Inl Dp
      else match_nets ipaddr Dp ns fallback)"

fun match_ifs :: "u32 \<Rightarrow> IfDesc list \<Rightarrow> IfDesc option \<Rightarrow> IfDesc option" where
  "match_ifs ipaddr [] fallback = fallback"
| "match_ifs ipaddr (Dp # ifs) fallback =
     (case match_nets ipaddr Dp (if_allowednets Dp) fallback of
        Inl d \<Rightarrow> Some d
      | Inr fb \<Rightarrow> match_ifs ipaddr ifs fb)"

definition getIfByAddress :: "u32 \<Rightarrow> IfDesc list \<Rightarrow> IfDesc option" where
  "getIfByAddress ipaddr ifs = match_ifs ipaddr ifs None"

definition getIfByVifIndex :: "u32 \<Rightarrow> IfDesc list \<Rightarrow> IfDesc option" where
  "getIfByVifIndex vifindex ifs =
     (if vifindex > 0 then find (\<lambda>d. if_index d = vifindex) ifs else None)"

definition isAdressValidForIf :: "IfDesc option \<Rightarrow> u32 \<Rightarrow> bool" where
  "isAdressValidForIf intrface ipaddr =
     (case intrface of
        None \<Rightarrow> False
      | Some d \<Rightarrow> list_ex (\<lambda>n. ipaddr AND subnet_mask n = subnet_addr n) (if_allowednets d))"

subsection \<open>IGMP messages (igmp.c)\<close>

abbreviation (input) RECV_BUF_SIZE :: nat where "RECV_BUF_SIZE \<equiv> 8192"
abbreviation (input) MIN_IP_HEADER_LEN :: nat where "MIN_IP_HEADER_LEN \<equiv> 20"
abbreviation (input) IGMP_MINLEN :: nat where "IGMP_MINLEN \<equiv> 8"
abbreviation (input) MAXTTL :: byte where "MAXTTL \<equiv> 255"
abbreviation (input) IPPROTO_IGMP :: byte where "IPPROTO_IGMP \<equiv> 2"
abbreviation (input) IGMP_TIMER_SCALE :: u32 where "IGMP_TIMER_SCALE \<equiv> 10"
abbreviation (input) IGMP_MEMBERSHIP_QUERY :: byte where "IGMP_MEMBERSHIP_QUERY \<equiv> 0x11"
abbreviation (input) IGMP_V1_MEMBERSHIP_REPORT :: byte where "IGMP_V1_MEMBERSHIP_REPORT \<equiv> 0x12"
abbreviation (input) IGMP_DVMRP :: byte where "IGMP_DVMRP \<equiv> 0x13"
abbreviation (input) IGMP_V2_MEMBERSHIP_REPORT :: byte where "IGMP_V2_MEMBERSHIP_REPORT \<equiv> 0x16"
abbreviation (input) IGMP_V2_LEAVE_GROUP :: byte where "IGMP_V2_LEAVE_GROUP \<equiv> 0x17"

text \<open>\<^verbatim>\<open>allhosts_group\<close> (224.0.0.1), \<^verbatim>\<open>allrouters_group\<close> (224.0.0.2) and the UPnP group.\<close>

definition allhosts_group :: u32 where "allhosts_group = htonl 0xe0000001"
definition allrouters_group :: u32 where "allrouters_group = htonl 0xe0000002"
definition UPNP_MCAST_ADDR :: u32 where "UPNP_MCAST_ADDR = htonl 0xeffffffa"

definition IN_MULTICAST :: "u32 \<Rightarrow> bool" where
  "IN_MULTICAST a \<longleftrightarrow> a AND 0xf0000000 = 0xe0000000"

text \<open>\<^verbatim>\<open>initIgmp\<close> zeroes the IP header of the fresh \<^verbatim>\<open>send_buf\<close> and fills in the constant fields;
  \<open>rest\<close> is what \<^verbatim>\<open>malloc\<close> left behind the header.  \<^verbatim>\<open>k_set_ttl\<close> sets \<^verbatim>\<open>curttl\<close> to one.\<close>

definition initIgmp :: "byte list \<Rightarrow> byte list" where
  "initIgmp rest =
     ip_bytes (zero_ip\<lparr>ip_version := IPVERSION, ip_ihl := 5, ip_tos := 0xc0, ip_ttl := MAXTTL,
                       ip_protocol := IPPROTO_IGMP\<rparr>) @ rest"

abbreviation (input) curttl :: byte where "curttl \<equiv> 1"

definition buildIgmp ::
  "u32 \<Rightarrow> u32 \<Rightarrow> byte \<Rightarrow> byte \<Rightarrow> u32 \<Rightarrow> nat \<Rightarrow> byte list \<Rightarrow> byte list option" where
  "buildIgmp src dst type code grp datalen send_buf = do {
     b \<leftarrow> wr send_buf 12 (bytes_le32 src);
     b \<leftarrow> wr b 16 (bytes_le32 dst);
     b \<leftarrow> wr b 2 (bytes_le16 (htons (of_nat (MIN_IP_HEADER_LEN + IGMP_MINLEN + datalen))));
     b \<leftarrow> wr b 8 [if IN_MULTICAST (ntohl dst) then curttl else MAXTTL];
     b \<leftarrow> wr b 20 [type];
     b \<leftarrow> wr b 21 [code];
     b \<leftarrow> wr b 24 (bytes_le32 grp);
     b \<leftarrow> wr b 22 (bytes_le16 0);
     m \<leftarrow> rd_n b MIN_IP_HEADER_LEN (IGMP_MINLEN + datalen);
     wr b 22 (bytes_le16 (inetChksum m))
   }"

text \<open>What the proxy does to the kernel and the network.  \<open>Ig_freed_read\<close> and \<open>Ig_freed_write\<close>
  are accesses to a block the code has just given to \<^verbatim>\<open>free\<close>; the run continues with the value
  the block had.  \<open>Heap_past n\<close>: \<open>n\<close> bytes are written behind the end of an allocated block.\<close>

datatype igmp_out =
    K_set_if u32
  | K_set_loop bool
  | Ig_send "byte list" u32
  | Ig_join u32 u32
  | Ig_leave u32 u32
  | Ipt_insert "byte list" u32
  | Ipt_delete "byte list" u32
  | Mfc_add u32 u32 "u16 option" "byte list"
  | Mfc_del u32 u32 "u16 option"
  | Sw_regist_mac "byte list" u16
  | Sw_write_register nat u32
  | Sw_write_entry
  | Sw_unlink_entry
  | Ipt_input bool
  | Ipt_prerouting bool
  | Mrt_init
  | Mrt_add_vif u16 byte u32 u32
  | Mrt_done
  | Ig_freed_read
  | Ig_freed_write
  | Heap_past nat

definition sendIgmp ::
  "u32 \<Rightarrow> u32 \<Rightarrow> byte \<Rightarrow> byte \<Rightarrow> u32 \<Rightarrow> nat \<Rightarrow> byte list \<Rightarrow> (byte list \<times> igmp_out list) option" where
  "sendIgmp src dst type code grp datalen send_buf = do {
     b \<leftarrow> buildIgmp src dst type code grp datalen send_buf;
     d \<leftarrow> rd_n b 0 (MIN_IP_HEADER_LEN + IGMP_MINLEN + datalen);
     let setigmpsource = IN_MULTICAST (ntohl dst);
         setloop = setigmpsource \<and> (type \<noteq> IGMP_DVMRP \<or> dst = allhosts_group);
         before = (if setigmpsource then [K_set_if src] else []) @
                  (if setloop then [K_set_loop True] else []);
         after = (if setloop then [K_set_loop False] else []) @
                 (if setigmpsource then [K_set_if 0] else [])
     in Some (b, before @ [Ig_send d dst] @ after)
   }"

text \<open>The checks of \<^verbatim>\<open>acceptIgmp\<close>: source, group, type and code of a message that passes them,
  \<open>None\<close> inside when the packet is ignored, \<open>None\<close> outside for a read past the buffer.\<close>

definition igmp_parse :: "nat \<Rightarrow> byte list \<Rightarrow> (u32 \<times> u32 \<times> byte \<times> byte) option option" where
  "igmp_parse recvlen recv_buf =
     (if recvlen < 20 then Some None
      else do {
        h \<leftarrow> rd_n recv_buf 0 20;
        let ip = ip_of_bytes h;
            src = ip_saddr ip; dst = ip_daddr ip;
            iphdrlen = 4 * unat (ip_ihl ip);
            ipdatalen = int (unat (ntohs (ip_tot_len ip))) - int iphdrlen
        in if dst = UPNP_MCAST_ADDR then Some None
           else if ip_protocol ip = 0 then Some None
           else if int iphdrlen + ipdatalen \<noteq> int recvlen then Some None
           else do {
             g \<leftarrow> rd_n recv_buf (iphdrlen + 4) 4;
             if ipdatalen - int IGMP_MINLEN < 0 then Some None
             else do {
               type \<leftarrow> rd recv_buf iphdrlen;
               code \<leftarrow> rd recv_buf (iphdrlen + 1);
               Some (Some (src, le32_of g, type, code))
             }
           }
      })"

subsection \<open>The two checksums agree\<close>

lemma chksum_words_sum: "chksum_words s w = checksum_sum s w"
  by (induction s w rule: chksum_words.induct) simp_all

lemma checksum_fold_two_steps:
  assumes "s < 2 ^ 31"
  shows "checksum_fold s = ((s div 65536 + s mod 65536) +
      (s div 65536 + s mod 65536) div 65536) mod 65536"
proof -
  let ?a = "s mod 65536 + s div 65536"
  have a: "?a < 2 * 65536"
    using assms by (simp add: less_mult_imp_div_less add.commute)
  have "checksum_fold ?a = (?a + ?a div 65536) mod 65536"
  proof (cases "?a < 65536")
    case False
    then obtain r where r: "?a = 65536 + r" "r < 65536"
      using a by (metis add_diff_inverse_nat less_diff_conv2 mult_2 not_less)
    then have "r + 1 < 65536"
      using assms by (simp add: less_mult_imp_div_less)
    moreover have "(65536 + r) div 65536 = 1" "r < 65535 \<Longrightarrow> (65537 + r) mod 65536 = Suc r"
      using r by (simp_all add: le_mod_geq)
    ultimately show ?thesis
      using r by (subst checksum_fold.simps, subst checksum_fold.simps)
        (simp only: r(1), simp)
  qed (subst checksum_fold.simps, simp)
  moreover have "checksum_fold s = checksum_fold ?a"
    by (cases "s div 65536 = 0") (subst checksum_fold.simps, simp)+
  ultimately show ?thesis
    by (simp add: add.commute)
qed

lemma of_nat_mod_u16: "(of_nat (n mod 65536) :: u16) = of_nat n"
  by (simp add: word_eq_iff_unsigned [where 'a = nat] unsigned_of_nat take_bit_eq_mod)

lemma inetChksum_checksum:
  assumes "length bs \<le> 65535"
  shows "inetChksum bs = checksum bs"
  using checksum_fold_two_steps [OF checksum_sum_int32 [OF assms]]
  by (simp add: inetChksum_def checksum_def chksum_words_sum Let_def of_nat_mod_u16)

subsection \<open>Printed addresses\<close>

lemma inet_aton_inetFmt: "inet_aton (inetFmt addr) = Some addr"
proof -
  let ?o = "\<lambda>i. unat (bytes_le32 addr ! i)"
  have "inet_aton (inetFmt addr) =
      Some (htonl (of_nat (((?o 0 * 256 + ?o 1) * 256 + ?o 2) * 256 + ?o 3)))"
    unfolding inetFmt_def Let_def by (rule inet_aton_quad) (simp_all only: unat_byte_le)
  also have "\<dots> = Some (le32 (bytes_le32 addr ! 0) (bytes_le32 addr ! 1) (bytes_le32 addr ! 2)
      (bytes_le32 addr ! 3))"
    by (simp only: ntohl_quad)
  finally show ?thesis by (simp add: bytes_le32_def wire)
qed

lemma inetFmts_fits: "length (inetFmts addr m) < 19"
proof -
  have d: "length (dec (unat (bytes_le32 addr ! i))) \<le> 3" for i
    by (rule dec_u8)
  have "length (dec (33 - ffs (ntohl m))) \<le> 2"
    by (rule dec_length) simp_all
  then show ?thesis
    using d [of 0] d [of 1] d [of 2] d [of 3] by (auto simp: inetFmts_def Let_def str_def)
qed

subsection \<open>Messages on the wire\<close>

definition send_template :: "byte list \<Rightarrow> bool" where
  "send_template b \<longleftrightarrow> length b = RECV_BUF_SIZE \<and> take 2 b = [0x45, 0xc0] \<and> b ! 9 = IPPROTO_IGMP"

lemma initIgmp_template: "length rest = RECV_BUF_SIZE - 20 \<Longrightarrow> send_template (initIgmp rest)"
  by (simp add: send_template_def initIgmp_def ip_bytes_def zero_ip_def bytes_le16_def bytes_le32_def)

definition igmp_msg :: "byte \<Rightarrow> byte \<Rightarrow> u32 \<Rightarrow> byte list" where
  "igmp_msg type code grp =
     [type, code] @ bytes_le16 (inetChksum ([type, code] @ [0, 0] @ bytes_le32 grp)) @ bytes_le32 grp"

lemma length_28_obtains:
  assumes "28 \<le> length b"
  obtains b0 b1 b2 b3 b4 b5 b6 b7 b8 b9 b10 b11 b12 b13 b14 b15 b16 b17 b18 b19 b20 b21 b22 b23
    b24 b25 b26 b27 r where
    "b = [b0, b1, b2, b3, b4, b5, b6, b7, b8, b9, b10, b11, b12, b13, b14, b15, b16, b17, b18, b19,
      b20, b21, b22, b23, b24, b25, b26, b27] @ r"
  using assms by (auto simp: Suc_le_length_iff eval_nat_numeral)

lemma buildIgmp_frame:
  assumes "send_template b"
  obtains b' where "buildIgmp src dst type code grp 0 b = Some b'" and "send_template b'"
    and "take 28 b' = [0x45, 0xc0] @ bytes_le16 (htons 28) @ take 4 (drop 4 b) @
      [if IN_MULTICAST (ntohl dst) then curttl else MAXTTL, IPPROTO_IGMP] @ take 2 (drop 10 b) @
      bytes_le32 src @ bytes_le32 dst @ igmp_msg type code grp"
proof -
  have "28 \<le> length b" using assms by (simp add: send_template_def)
  then obtain b0 b1 b2 b3 b4 b5 b6 b7 b8 b9 b10 b11 b12 b13 b14 b15 b16 b17 b18 b19 b20 b21 b22 b23
    b24 b25 b26 b27 r where b: 
    "b = [b0, b1, b2, b3, b4, b5, b6, b7, b8, b9, b10, b11, b12, b13, b14, b15, b16, b17, b18, b19,
      b20, b21, b22, b23, b24, b25, b26, b27] @ r"
    by (rule length_28_obtains)
  let ?b = "[b0, b1] @ bytes_le16 (htons 28) @ [b4, b5, b6, b7] @
      [if IN_MULTICAST (ntohl dst) then curttl else MAXTTL, b9, b10, b11] @
      bytes_le32 src @ bytes_le32 dst @ igmp_msg type code grp @ r"
  have "buildIgmp src dst type code grp 0 b = Some ?b"
    by (simp add: buildIgmp_def b wr_def rd_n_def bytes_le32_def bytes_le16_def igmp_msg_def)
  moreover have "send_template ?b"
    using assms by (simp add: send_template_def b bytes_le32_def bytes_le16_def igmp_msg_def)
  moreover have "take 28 ?b = [0x45, 0xc0] @ bytes_le16 (htons 28) @ take 4 (drop 4 b) @
      [if IN_MULTICAST (ntohl dst) then curttl else MAXTTL, IPPROTO_IGMP] @ take 2 (drop 10 b) @
      bytes_le32 src @ bytes_le32 dst @ igmp_msg type code grp"
    using assms by (simp add: send_template_def b bytes_le32_def bytes_le16_def igmp_msg_def)
  ultimately show thesis by (rule that)
qed

lemma igmp_parse_frame:
  assumes "take 28 b = [0x45, 0xc0] @ bytes_le16 (htons 28) @ f @ [ttl, IPPROTO_IGMP] @ c @
      bytes_le32 src @ bytes_le32 dst @ igmp_msg type code grp"
    and "length f = 4" and "length c = 2" and "28 \<le> length b"
  shows "igmp_parse 28 b = Some (if dst = UPNP_MCAST_ADDR then None else Some (src, grp, type, code))"
proof -
  obtain f0 f1 f2 f3 where f: "f = [f0, f1, f2, f3]"
    using assms(2) by (auto simp: length_Suc_conv eval_nat_numeral)
  obtain c0 c1 where c: "c = [c0, c1]"
    using assms(3) by (auto simp: length_Suc_conv eval_nat_numeral)
  define r where "r = drop 28 b"
  have b: "b = ([0x45, 0xc0] @ bytes_le16 (htons 28) @ f @ [ttl, IPPROTO_IGMP] @ c @
      bytes_le32 src @ bytes_le32 dst @ igmp_msg type code grp) @ r"
    by (metis append_take_drop_id assms(1) r_def)
  have l: "unat (ntohs (htons 28)) = 28" by simp
  show ?thesis
    unfolding igmp_parse_def b f c
    by (simp add: igmp_msg_def bytes_le16_def bytes_le32_def rd_n_def rd_def ip_of_bytes_def fld_def
        le16_bytes le32_bytes)
qed

lemma igmp_msg_checksum: "inetChksum (igmp_msg type code grp) = 0"
  using checksum_verifies [of "[type, code]" "bytes_le32 grp"]
  by (simp add: igmp_msg_def inetChksum_checksum)

lemma length_igmp_msg [simp]: "length (igmp_msg type code grp) = 8"
  by (simp add: igmp_msg_def)

lemma sendIgmp_defined:
  assumes "send_template b"
  obtains b' d out where "sendIgmp src dst type code grp 0 b = Some (b', out)" and "send_template b'"
    and "Ig_send d dst \<in> set out" and "length d = 28" and "drop 20 d = igmp_msg type code grp"
    and "dst \<noteq> UPNP_MCAST_ADDR \<Longrightarrow> igmp_parse 28 d = Some (Some (src, grp, type, code))"
proof -
  obtain b' where b: "buildIgmp src dst type code grp 0 b = Some b'" "send_template b'"
    and t: "take 28 b' = [0x45, 0xc0] @ bytes_le16 (htons 28) @ take 4 (drop 4 b) @
      [if IN_MULTICAST (ntohl dst) then curttl else MAXTTL, IPPROTO_IGMP] @ take 2 (drop 10 b) @
      bytes_le32 src @ bytes_le32 dst @ igmp_msg type code grp"
    by (rule buildIgmp_frame [OF assms])
  have "length b' = 8192" "length b = 8192"
    using b assms by (simp_all add: send_template_def)
  moreover have "igmp_parse 28 (take 28 b') = Some (if dst = UPNP_MCAST_ADDR then None else Some (src, grp, type, code))"
    using calculation by (intro igmp_parse_frame [where f = "take 4 (drop 4 b)" and c = "take 2 (drop 10 b)"])
      (simp_all add: t min_def)
  ultimately show thesis
    using b t by (intro that [of b' _ "take 28 b'"]) (auto simp: sendIgmp_def rd_n_def Let_def)
qed

subsection \<open>Which interface an address belongs to\<close>

definition wildcard_net :: "subnet \<Rightarrow> bool" where
  "wildcard_net n \<longleftrightarrow> subnet_addr n AND subnet_mask n = 0"

definition serves :: "u32 \<Rightarrow> IfDesc \<Rightarrow> bool" where
  "serves ip d \<longleftrightarrow>
     (\<exists>n \<in> set (if_allowednets d). \<not> wildcard_net n \<and> ip AND subnet_mask n = subnet_addr n)"

definition wildcard_if :: "IfDesc \<Rightarrow> bool" where
  "wildcard_if d \<longleftrightarrow> (\<exists>n \<in> set (if_allowednets d). wildcard_net n)"

lemma match_nets_spec:
  "match_nets ip d ns fb =
     (if \<exists>n \<in> set ns. \<not> wildcard_net n \<and> ip AND subnet_mask n = subnet_addr n then Inl d
      else Inr (if \<exists>n \<in> set ns. wildcard_net n then Some d else fb))"
  by (induction ns arbitrary: fb) (auto simp: wildcard_net_def)

lemma match_ifs_spec:
  "match_ifs ip ifs fb =
     (case find (serves ip) ifs of
        Some d \<Rightarrow> Some d
      | None \<Rightarrow> if filter wildcard_if ifs = [] then fb else Some (last (filter wildcard_if ifs)))"
proof (induction ifs arbitrary: fb)
  case (Cons d ifs)
  show ?case
    by (simp add: match_nets_spec Cons.IH serves_def [symmetric] wildcard_if_def [symmetric]
        split: option.split)
qed simp

lemma getIfByAddress_mem: "getIfByAddress ip ifs = Some d \<Longrightarrow> d \<in> set ifs"
  unfolding getIfByAddress_def match_ifs_spec
  by (auto simp: find_Some_iff split: option.splits if_splits dest!: last_in_set)

subsection \<open>Properties\<close>

text \<open>The two checksum routines of the source tree agree: \<^verbatim>\<open>inetChksum\<close> of the IGMP proxy,
  which folds the carries exactly twice, computes the same value as \<^verbatim>\<open>checksum\<close> of udhcp, which
  folds until nothing is left, for every block up to the size of an IP packet.\<close>

theorem inetChksum_eq_checksum:
  assumes "length bs \<le> 65535"
  shows "inetChksum bs = checksum bs"
  using assms by (rule inetChksum_checksum)

theorem inetChksum_eq_checksum_witness: "inetChksum [0x11, 100, 0, 0, 7] = checksum [0x11, 100, 0, 0, 7]"
  by (rule inetChksum_eq_checksum) simp

text \<open>C40: An IGMP message built in the output buffer is received as it was meant: the buffer keeps
  its header template for the next message, the checksum of the IGMP part verifies, and the
  receiving side accepts the 28 bytes and reads the same source, group, type and code, unless
  the message is addressed to the UPnP group, which the proxy ignores on purpose.\<close>

theorem igmp_message_roundtrip:
  assumes "send_template b"
  shows "\<exists>b'. buildIgmp src dst type code grp 0 b = Some b' \<and> send_template b' \<and>
    inetChksum (take 8 (drop 20 b')) = 0 \<and>
    igmp_parse 28 b' = Some (if dst = UPNP_MCAST_ADDR then None else Some (src, grp, type, code))"
proof -
  obtain b' where b: "buildIgmp src dst type code grp 0 b = Some b'" "send_template b'"
    and t: "take 28 b' = [0x45, 0xc0] @ bytes_le16 (htons 28) @ take 4 (drop 4 b) @
      [if IN_MULTICAST (ntohl dst) then curttl else MAXTTL, IPPROTO_IGMP] @ take 2 (drop 10 b) @
      bytes_le32 src @ bytes_le32 dst @ igmp_msg type code grp"
    by (rule buildIgmp_frame [OF assms])
  have l: "length b' = 8192" "length b = 8192"
    using b assms by (simp_all add: send_template_def)
  have "take 8 (drop 20 b') = drop 20 (take 28 b')"
    by (simp add: take_drop)
  also have "\<dots> = igmp_msg type code grp"
    using l by (simp add: t)
  finally have "take 8 (drop 20 b') = igmp_msg type code grp" .
  then show ?thesis
    using b igmp_parse_frame [OF t] l by (auto simp: igmp_msg_checksum)
qed

theorem igmp_message_roundtrip_witness:
  "\<exists>b'. buildIgmp 0x0100a8c0 allhosts_group 0x11 50 0 0 (initIgmp (replicate 8172 0)) = Some b' \<and>
    igmp_parse 28 b' = Some (Some (0x0100a8c0, 0, 0x11, 50))"
proof -
  have "send_template (initIgmp (replicate 8172 0))"
    by (rule initIgmp_template) simp
  moreover have "allhosts_group \<noteq> UPNP_MCAST_ADDR"
    by (simp add: allhosts_group_def UPNP_MCAST_ADDR_def)
  ultimately show ?thesis
    using igmp_message_roundtrip [of "initIgmp (replicate 8172 0)" "0x0100a8c0" allhosts_group "0x11" 50 0]
    by auto
qed

end
