(* ===== verification/Igmp_Switch.thy ===== *)
theory Igmp_Switch
  imports Igmp_Net
begin

section \<open>Group membership and the switch\<close>

text \<open>
  \<^verbatim>\<open>igmpproxy/src/mc_switch.c\<close> records which hosts have reported which multicast group and on
  which port of the Ethernet switch each of them is; \<^verbatim>\<open>salsa2.c\<close> mirrors the port map of every
  group in a table of 64 hardware entries.  A group is found by the 23 address bits that its
  MAC address carries (\<^verbatim>\<open>a1\<close>, \<^verbatim>\<open>a2\<close>, \<^verbatim>\<open>a3\<close>); the five bits that are lost are kept in \<^verbatim>\<open>a0\<close> of
  the group and of every member.  Group and member addresses are in host byte order here, as in
  the source.

  Parameters: \<open>port_of\<close> is \<^verbatim>\<open>portLookUpByIP\<close> (the ARP table and the bridge, -1 for a host that
  is not found) and \<open>wan_port\<close> is \<^verbatim>\<open>hw.board.eport.wan[0]\<close>.  The product has no wireless code, so
  the branches under \<^verbatim>\<open>USE_WIRELESS_CGI\<close> and \<^verbatim>\<open>RALINK_WIFI_IGMPSNOOP_SUPPORT\<close> are left out.
  \<^verbatim>\<open>char\<close> is unsigned, and a shift by 32 or more gives zero, as on the ARM core.
\<close>

subsection \<open>Data\<close>

record group_member =
  gm_ip_addr :: u32
  gm_a0 :: byte
  gm_port_num :: byte
  gm_has_report :: byte
  gm_sent_report :: byte

record mgroup =
  g_a0 :: byte
  g_a1 :: byte
  g_a2 :: byte
  g_a3 :: byte
  g_port_map :: u32
  g_members :: "group_member list"

record mac_entry =
  me_mac :: "byte list"
  me_portmap :: u32

record mc_switch =
  sw_groups :: "mgroup list"
  sw_router_port :: int
  sw_table :: "mac_entry list"

type_synonym group_key = "byte \<times> byte \<times> byte"

definition IP_GET_LOST_MAPPING :: "u32 \<Rightarrow> byte" where
  "IP_GET_LOST_MAPPING mip = ucast (drop_bit 23 (mip AND 0x0F800000))"

definition IP_MULTICAST_A0 :: "byte \<Rightarrow> byte" where
  "IP_MULTICAST_A0 a0 = drop_bit 1 a0 OR 0xE0"

definition IP_MULTICAST_A1 :: "byte \<Rightarrow> byte \<Rightarrow> byte" where
  "IP_MULTICAST_A1 a0 a1 = push_bit 7 (a0 AND 1) OR a1"

definition craft_mip :: "byte \<Rightarrow> mgroup \<Rightarrow> u32" where
  "craft_mip a0 g = le32 (IP_MULTICAST_A0 a0) (IP_MULTICAST_A1 a0 (g_a1 g)) (g_a2 g) (g_a3 g)"

definition key_of :: "u32 \<Rightarrow> group_key" where
  "key_of ip = (ucast (drop_bit 16 (ip AND 0x007F0000)), ucast (drop_bit 8 (ip AND 0x0000FF00)),
     ucast (ip AND 0x000000FF))"

definition group_key :: "mgroup \<Rightarrow> group_key" where
  "group_key g = (g_a1 g, g_a2 g, g_a3 g)"

subsection \<open>The hardware table (salsa2.c)\<close>

abbreviation (input) MAX_MGROUP :: nat where "MAX_MGROUP \<equiv> 64"
abbreviation (input) MGROUP_BASE_INDEX :: u16 where "MGROUP_BASE_INDEX \<equiv> 256"
abbreviation (input) SALSA2_MULTICAST_GROUP_REG :: nat where "SALSA2_MULTICAST_GROUP_REG \<equiv> 0x0a004000"
abbreviation (input) SALSA2_MULTICAST_GROUP_STEP :: nat where "SALSA2_MULTICAST_GROUP_STEP \<equiv> 4"

definition zero_mac :: "byte list" where
  "zero_mac = replicate 6 0"

definition zero_mac_entry :: mac_entry where
  "zero_mac_entry = \<lparr>me_mac = zero_mac, me_portmap = 0\<rparr>"

fun mgroup_index_loop :: "byte list \<Rightarrow> nat \<Rightarrow> nat option \<Rightarrow> mac_entry list \<Rightarrow> nat option" where
  "mgroup_index_loop mac i idx [] = idx"
| "mgroup_index_loop mac i idx (e # t) =
     (if me_mac e = mac then Some i
      else mgroup_index_loop mac (i + 1) (if me_portmap e = 0 \<and> idx = None then Some i else idx) t)"

definition get_mgroup_index :: "byte list \<Rightarrow> mac_entry list \<Rightarrow> nat option" where
  "get_mgroup_index mac t = mgroup_index_loop mac 0 None t"

definition group_mac :: "mgroup \<Rightarrow> byte list" where
  "group_mac g = [0x01, 0x00, 0x5e, g_a1 g, g_a2 g, g_a3 g]"

definition hw_portmap :: "int \<Rightarrow> u32 \<Rightarrow> u32" where
  "hw_portmap router_port port_map =
     (push_bit 1 port_map OR (if router_port \<ge> 0 then push_bit (nat router_port) 1 else 0))"

definition updateMacTable :: "mgroup \<Rightarrow> mc_switch \<Rightarrow> mc_switch \<times> igmp_out list" where
  "updateMacTable g sw =
     (let mac = group_mac g in
      case get_mgroup_index mac (sw_table sw) of
        None \<Rightarrow> (sw, [])
      | Some midx \<Rightarrow>
          let reg = SALSA2_MULTICAST_GROUP_REG + SALSA2_MULTICAST_GROUP_STEP * midx in
          if g_port_map g \<noteq> 0 then
            let pm = hw_portmap (sw_router_port sw) (g_port_map g) in
            (sw\<lparr>sw_table := (sw_table sw)[midx := \<lparr>me_mac = mac, me_portmap = pm\<rparr>]\<rparr>,
             [Sw_regist_mac mac (MGROUP_BASE_INDEX + of_nat midx), Sw_write_register reg pm])
          else
            (sw\<lparr>sw_table := (sw_table sw)[midx := zero_mac_entry]\<rparr>,
             [Sw_regist_mac mac ((MGROUP_BASE_INDEX + of_nat midx) OR 0x8000), Sw_write_register reg 0]))"

definition all_hosts_group :: "u32 \<Rightarrow> mgroup" where
  "all_hosts_group pm = \<lparr>g_a0 = 0, g_a1 = 0, g_a2 = 0, g_a3 = 1, g_port_map = pm, g_members = []\<rparr>"

definition switch_init :: "mc_switch \<Rightarrow> mc_switch \<times> igmp_out list" where
  "switch_init sw =
     updateMacTable (all_hosts_group 0x1ffffff)
       (sw\<lparr>sw_table := replicate MAX_MGROUP zero_mac_entry\<rparr>)"

definition switch_fini :: "mc_switch \<Rightarrow> mc_switch \<times> igmp_out list" where
  "switch_fini sw =
     (let out = concat (map (\<lambda>(midx, e).
                  if me_portmap e \<noteq> 0
                  then [Sw_regist_mac (me_mac e) ((MGROUP_BASE_INDEX + of_nat midx) OR 0x80),
                        Sw_write_register (SALSA2_MULTICAST_GROUP_REG + SALSA2_MULTICAST_GROUP_STEP * midx) 0]
                  else []) (zip [0..<length (sw_table sw)] (sw_table sw)));
          (sw', out') = updateMacTable (all_hosts_group 0) sw
      in (sw', out @ out'))"

subsection \<open>Groups and members (mc_switch.c)\<close>

definition find_entry :: "u32 \<Rightarrow> mgroup list \<Rightarrow> mgroup option" where
  "find_entry ip_addr gs = find (\<lambda>g. group_key g = key_of ip_addr) gs"

definition build_entry :: "u32 \<Rightarrow> mgroup option" where
  "build_entry m_ip_addr =
     (case key_of m_ip_addr of (a1, a2, a3) \<Rightarrow>
        if a1 = 0 \<and> a2 = 0 \<and> a3 = 1 then None
        else Some \<lparr>g_a0 = IP_GET_LOST_MAPPING m_ip_addr, g_a1 = a1, g_a2 = a2, g_a3 = a3,
                   g_port_map = 0, g_members = []\<rparr>)"

definition same_member :: "u32 \<Rightarrow> u32 \<Rightarrow> group_member \<Rightarrow> bool" where
  "same_member m_ip_addr u_ip_addr m \<longleftrightarrow>
     gm_ip_addr m = u_ip_addr \<and> gm_a0 m = IP_GET_LOST_MAPPING m_ip_addr"

definition lookup_member :: "mgroup \<Rightarrow> u32 \<Rightarrow> u32 \<Rightarrow> group_member option" where
  "lookup_member entry m_ip_addr u_ip_addr = find (same_member m_ip_addr u_ip_addr) (g_members entry)"

fun update_first :: "('a \<Rightarrow> bool) \<Rightarrow> ('a \<Rightarrow> 'a) \<Rightarrow> 'a list \<Rightarrow> 'a list" where
  "update_first P f [] = []"
| "update_first P f (x # xs) = (if P x then f x # xs else x # update_first P f xs)"

fun remove_first :: "('a \<Rightarrow> bool) \<Rightarrow> 'a list \<Rightarrow> 'a list" where
  "remove_first P [] = []"
| "remove_first P (x # xs) = (if P x then xs else x # remove_first P xs)"

definition insert_member :: "(u32 \<Rightarrow> int) \<Rightarrow> mgroup \<Rightarrow> u32 \<Rightarrow> u32 \<Rightarrow> mgroup" where
  "insert_member port_of entry m_ip_addr u_ip_addr =
     (case lookup_member entry m_ip_addr u_ip_addr of
        Some _ \<Rightarrow> entry\<lparr>g_members := update_first (same_member m_ip_addr u_ip_addr)
          (\<lambda>m. m\<lparr>gm_port_num := of_int (port_of u_ip_addr), gm_has_report := 10, gm_sent_report := 0\<rparr>)
          (g_members entry)\<rparr>
      | None \<Rightarrow> entry\<lparr>g_members :=
          \<lparr>gm_ip_addr = u_ip_addr, gm_a0 = IP_GET_LOST_MAPPING m_ip_addr,
           gm_port_num = of_int (port_of u_ip_addr), gm_has_report = 10, gm_sent_report = 0\<rparr>
          # g_members entry\<rparr>)"

fun port_map_loop :: "nat \<Rightarrow> u32 \<Rightarrow> group_member list \<Rightarrow> u32" where
  "port_map_loop wan_port new_portmap [] = new_portmap"
| "port_map_loop wan_port new_portmap (m # ms) =
     (if gm_port_num m = 255 then 0x5f AND NOT (push_bit wan_port 1)
      else port_map_loop wan_port (new_portmap OR push_bit (unat (gm_port_num m)) 1) ms)"

definition put_entry :: "mgroup \<Rightarrow> mc_switch \<Rightarrow> mc_switch" where
  "put_entry entry sw =
     sw\<lparr>sw_groups := update_first (\<lambda>g. group_key g = group_key entry) (\<lambda>_. entry) (sw_groups sw)\<rparr>"

definition update_group_port_map :: "nat \<Rightarrow> mgroup \<Rightarrow> mc_switch \<Rightarrow> mc_switch \<times> igmp_out list" where
  "update_group_port_map wan_port entry sw =
     (let new_portmap = port_map_loop wan_port 0 (g_members entry) in
      if g_port_map entry \<noteq> new_portmap
      then let entry = entry\<lparr>g_port_map := new_portmap\<rparr> in updateMacTable entry (put_entry entry sw)
      else (put_entry entry sw, []))"

definition insert_multicast_ip ::
  "(u32 \<Rightarrow> int) \<Rightarrow> nat \<Rightarrow> u32 \<Rightarrow> u32 \<Rightarrow> mc_switch \<Rightarrow> mc_switch \<times> igmp_out list" where
  "insert_multicast_ip port_of wan_port m_ip_addr u_ip_addr sw =
     (case (case find_entry m_ip_addr (sw_groups sw) of
              Some entry \<Rightarrow> Some (entry, sw)
            | None \<Rightarrow> map_option (\<lambda>entry. (entry, sw\<lparr>sw_groups := entry # sw_groups sw\<rparr>))
                        (build_entry m_ip_addr)) of
        None \<Rightarrow> (sw, [])
      | Some (entry, sw) \<Rightarrow>
          let entry = insert_member port_of entry m_ip_addr u_ip_addr;
              (sw, out) = update_group_port_map wan_port entry sw
          in (sw, out @ [Sw_write_entry]))"

definition remove_member ::
  "nat \<Rightarrow> u32 \<Rightarrow> u32 \<Rightarrow> bool \<Rightarrow> mc_switch \<Rightarrow> mc_switch \<times> igmp_out list" where
  "remove_member wan_port m_ip_addr u_ip_addr write_option sw =
     (case find_entry m_ip_addr (sw_groups sw) of
        None \<Rightarrow> (sw, [])
      | Some entry \<Rightarrow>
          if g_members entry = [] then (sw, [])
          else
            let entry = entry\<lparr>g_members :=
                  remove_first (same_member m_ip_addr u_ip_addr) (g_members entry)\<rparr>;
                (sw, out) = update_group_port_map wan_port entry sw
            in (sw, out @ (if write_option then [Sw_write_entry] else [])))"

definition all_member_leaved :: "u32 \<Rightarrow> mc_switch \<Rightarrow> bool" where
  "all_member_leaved m_ip_addr sw =
     (case find_entry m_ip_addr (sw_groups sw) of None \<Rightarrow> True | Some entry \<Rightarrow> g_port_map entry = 0)"

text \<open>\<^verbatim>\<open>query_specific_members\<close>: every report counter is decremented, and the members whose counter
  is at most five are asked again (destination and group in network order).\<close>

definition count_down :: "group_member \<Rightarrow> group_member" where
  "count_down m = m\<lparr>gm_has_report := gm_has_report m - 1\<rparr>"

definition requery :: "mgroup \<Rightarrow> group_member \<Rightarrow> (u32 \<times> u32) list" where
  "requery g m =
     (if gm_has_report m \<le> 5 then [(htonl (gm_ip_addr m), craft_mip (gm_a0 m) g)] else [])"

definition query_members :: "mc_switch \<Rightarrow> mc_switch \<times> (u32 \<times> u32) list" where
  "query_members sw =
     (let gs = map (\<lambda>g. g\<lparr>g_members := map count_down (g_members g)\<rparr>) (sw_groups sw) in
      (sw\<lparr>sw_groups := gs\<rparr>, concat (map (\<lambda>g. concat (map (requery g) (g_members g))) gs)))"

text \<open>The inner loop of \<^verbatim>\<open>sweap_no_report_members\<close> walks over the members of a group while
  \<^verbatim>\<open>remove_member\<close> unlinks and frees one of them.  \<open>ms\<close> are the members behind the current one.
  When the last member was freed, its \<^verbatim>\<open>next\<close> pointer is read; when the member behind the current
  one was freed instead (it has the same host and the group's own \<^verbatim>\<open>a0\<close>), the loop goes on with
  the freed block.\<close>

lemma length_remove_first [termination_simp]: "length (remove_first P xs) \<le> length xs"
  by (induction xs) auto

function sweap_loop ::
  "nat \<Rightarrow> u32 \<Rightarrow> group_member list \<Rightarrow> mc_switch \<Rightarrow> mc_switch \<times> igmp_out list" where
  "sweap_loop wan_port mip [] sw = (sw, [])"
| "sweap_loop wan_port mip (m # ms) sw =
     (if gm_has_report m \<noteq> 0 then sweap_loop wan_port mip ms sw
      else
        let freed = same_member mip (gm_ip_addr m);
            (sw1, out1) = remove_member wan_port mip (gm_ip_addr m) False sw;
            stale = (if ms = [] then freed m else \<not> freed m \<and> freed (hd ms));
            rest = (if freed m \<or> stale then ms else remove_first freed ms);
            (sw2, out2) = sweap_loop wan_port mip rest sw1
        in (sw2, out1 @ (if stale then [Ig_freed_read] else []) @ out2))"
  by pat_completeness auto
termination
  by (relation "measure (\<lambda>(_, _, ms, _). length ms)") (auto simp: less_Suc_eq_le length_remove_first)

fun sweap_groups ::
  "nat \<Rightarrow> u32 \<Rightarrow> mgroup list \<Rightarrow> mc_switch \<Rightarrow> mc_switch \<times> bool \<times> igmp_out list" where
  "sweap_groups wan_port mc_ipaddr [] sw = (sw, False, [])"
| "sweap_groups wan_port mc_ipaddr (pos # gs) sw =
     (if mc_ipaddr \<noteq> craft_mip (g_a0 pos) pos then sweap_groups wan_port mc_ipaddr gs sw
      else
        let (sw1, out1) = sweap_loop wan_port (ntohl mc_ipaddr) (g_members pos) sw
        in if (case find (\<lambda>g. group_key g = group_key pos) (sw_groups sw1) of
                 Some g \<Rightarrow> g_members g = [] | None \<Rightarrow> True)
           then (sw1, True, out1)
           else case sweap_groups wan_port mc_ipaddr gs sw1 of
                  (sw2, r, out2) \<Rightarrow> (sw2, r, out1 @ out2))"

definition sweap_no_report_members :: "nat \<Rightarrow> u32 \<Rightarrow> mc_switch \<Rightarrow> mc_switch \<times> bool \<times> igmp_out list" where
  "sweap_no_report_members wan_port mc_ipaddr sw =
     (case sweap_groups wan_port mc_ipaddr (sw_groups sw) sw of
        (sw', r, out) \<Rightarrow> (sw', r, out @ [Sw_write_entry]))"

definition remove_multicast_ip :: "u32 \<Rightarrow> mc_switch \<Rightarrow> mc_switch \<times> igmp_out list" where
  "remove_multicast_ip m_ip_addr sw =
     (case find_entry m_ip_addr (sw_groups sw) of
        None \<Rightarrow> (sw, [])
      | Some entry \<Rightarrow>
          let sw = sw\<lparr>sw_groups := remove_first (\<lambda>g. group_key g = key_of m_ip_addr) (sw_groups sw)\<rparr>;
              (sw, out) = updateMacTable (entry\<lparr>g_port_map := 0\<rparr>) sw
          in (sw, out @ [Sw_write_entry]))"

fun update_all :: "mgroup list \<Rightarrow> mc_switch \<Rightarrow> mc_switch \<times> igmp_out list" where
  "update_all [] sw = (sw, [])"
| "update_all (g # gs) sw =
     (let (sw1, out1) = updateMacTable g sw; (sw2, out2) = update_all gs sw1 in (sw2, out1 @ out2))"

definition remove_all_groups :: "mc_switch \<Rightarrow> mc_switch \<times> igmp_out list" where
  "remove_all_groups sw =
     (let (sw', out) = update_all (map (\<lambda>g. g\<lparr>g_port_map := 0\<rparr>) (sw_groups sw)) sw
      in (sw'\<lparr>sw_groups := []\<rparr>, out @ [Sw_unlink_entry]))"

definition update_router_port :: "(u32 \<Rightarrow> int) \<Rightarrow> u32 \<Rightarrow> mc_switch \<Rightarrow> mc_switch \<times> igmp_out list" where
  "update_router_port port_of src sw =
     (let temp_rport = port_of (ntohl src) in
      if temp_rport = sw_router_port sw then (sw, [])
      else
        let sw = sw\<lparr>sw_router_port := temp_rport\<rparr>
        in if temp_rport \<ge> 0 then update_all (sw_groups sw) sw else (sw, []))"

subsection \<open>Multicast addresses\<close>

lemma byte_eq_iff: "a = b \<longleftrightarrow> (\<forall>n < 8. bit a n = bit (b :: byte) n)"
  by (auto simp: bit_eq_iff dest: bit_imp_le_length)

lemma mask_consts:
  "(0xf0000000 :: u32) = push_bit 28 (mask 4)" "(0xe0000000 :: u32) = push_bit 29 (mask 3)"
  "(0x0f800000 :: u32) = push_bit 23 (mask 5)" "(0x007f0000 :: u32) = push_bit 16 (mask 7)"
  "(0x0000ff00 :: u32) = push_bit 8 (mask 8)" "(0x000000ff :: u32) = mask 8"
  "(0xe0 :: byte) = push_bit 5 (mask 3)" "(1 :: byte) = mask 1"
  by (simp_all add: mask_eq_exp_minus_1 push_bit_eq_mult)

lemma IN_MULTICAST_bits:
  assumes "IN_MULTICAST m"
  shows "bit m 31" "bit m 30" "bit m 29" "\<not> bit m 28"
proof -
  have "bit (m AND push_bit 28 (mask 4)) n = bit (push_bit 29 (mask 3) :: u32) n" for n
    using assms by (simp only: IN_MULTICAST_def mask_consts)
  from this [of 31] this [of 30] this [of 29] this [of 28]
  show "bit m 31" "bit m 30" "bit m 29" "\<not> bit m 28"
    by (simp_all add: bit_simps)
qed

lemma all_less_8:
  "(\<forall>n < 8. P n) \<longleftrightarrow> P 0 \<and> P 1 \<and> P 2 \<and> P 3 \<and> P 4 \<and> P 5 \<and> P 6 \<and> P (7 :: nat)"
proof -
  have "n = 0 \<or> n = 1 \<or> n = 2 \<or> n = 3 \<or> n = 4 \<or> n = 5 \<or> n = 6 \<or> n = (7 :: nat)" if "n < 8" for n
    using that by arith
  then show ?thesis by (intro iffI conjI allI impI) (simp_all, blast)
qed

lemma craft_bytes:
  assumes "IN_MULTICAST m"
  shows "IP_MULTICAST_A0 (IP_GET_LOST_MAPPING m) = ucast (drop_bit 24 m)"
    and "IP_MULTICAST_A1 (IP_GET_LOST_MAPPING m) (ucast (drop_bit 16 (m AND 0x007F0000))) = ucast (drop_bit 16 m)"
    and "ucast (drop_bit 8 (m AND 0x0000FF00)) = (ucast (drop_bit 8 m) :: byte)"
    and "ucast (m AND 0x000000FF) = (ucast m :: byte)"
  using IN_MULTICAST_bits [OF assms]
  by (simp_all only: byte_eq_iff all_less_8 IP_MULTICAST_A0_def IP_MULTICAST_A1_def
      IP_GET_LOST_MAPPING_def mask_consts) (simp_all add: bit_simps)

lemma craft_mip_htonl:
  assumes "IN_MULTICAST m" and "group_key g = key_of m"
  shows "craft_mip (IP_GET_LOST_MAPPING m) g = htonl m"
proof -
  have k: "g_a1 g = ucast (drop_bit 16 (m AND 0x007F0000))"
    "g_a2 g = ucast (drop_bit 8 (m AND 0x0000FF00))" "g_a3 g = ucast (m AND 0x000000FF)"
    using assms(2) by (simp_all add: group_key_def key_of_def)
  show ?thesis
    unfolding craft_mip_def k craft_bytes [OF assms(1)] by (simp add: ntohl_def)
qed

lemma group_address_inject:
  assumes "IN_MULTICAST m" "IN_MULTICAST m'" "key_of m = key_of m'"
    "IP_GET_LOST_MAPPING m = IP_GET_LOST_MAPPING m'"
  shows "m = m'"
proof -
  obtain a b c where k: "key_of m = (a, b, c)" by (cases "key_of m")
  let ?g = "\<lparr>g_a0 = 0, g_a1 = a, g_a2 = b, g_a3 = c, g_port_map = 0, g_members = []\<rparr>"
  have "group_key ?g = key_of m" "group_key ?g = key_of m'"
    using k assms(3) by (simp_all add: group_key_def)
  then have "htonl m = htonl m'"
    using craft_mip_htonl [OF assms(1)] craft_mip_htonl [OF assms(2)] assms(4) by metis
  then show ?thesis by simp
qed

subsection \<open>The first entry with a key, when keys are unique\<close>

lemma update_first_none: "\<forall>x \<in> set xs. \<not> P x \<Longrightarrow> update_first P f xs = xs"
  by (induction xs) auto

lemma remove_first_none: "\<forall>x \<in> set xs. \<not> P x \<Longrightarrow> remove_first P xs = xs"
  by (induction xs) auto

lemma update_first_map:
  "distinct (map key xs) \<Longrightarrow>
   update_first (\<lambda>x. key x = k) f xs = map (\<lambda>x. if key x = k then f x else x) xs"
proof (induction xs)
  case (Cons x xs)
  have "map (\<lambda>x. if key x = k then f x else x) xs = xs" if "key x = k"
    by (rule map_idI) (use that Cons.prems in \<open>auto simp: image_iff\<close>)
  with Cons show ?case by simp
qed simp

lemma remove_first_filter:
  "distinct (map key xs) \<Longrightarrow> remove_first (\<lambda>x. key x = k) xs = filter (\<lambda>x. key x \<noteq> k) xs"
proof (induction xs)
  case (Cons x xs)
  have "filter (\<lambda>x. key x \<noteq> k) xs = xs" if "key x = k"
    using that Cons.prems by (auto simp: filter_id_conv image_iff)
  with Cons show ?case by simp
qed simp

lemma find_key_Some:
  "\<lbrakk>distinct (map key xs); find (\<lambda>x. key x = k) xs = Some x\<rbrakk> \<Longrightarrow>
   x \<in> set xs \<and> key x = k \<and> (\<forall>y \<in> set xs. key y = k \<longrightarrow> y = x)"
  by (induction xs) (auto simp: image_iff split: if_splits)

lemma find_key_None: "find (\<lambda>x. key x = k) xs = None \<longleftrightarrow> k \<notin> key ` set xs"
  by (auto simp: find_None_iff)

subsection \<open>Consistency of groups, port maps and the hardware table\<close>

definition member_key :: "group_member \<Rightarrow> u32 \<times> byte" where
  "member_key m = (gm_ip_addr m, gm_a0 m)"

definition group_ok :: "nat \<Rightarrow> mgroup \<Rightarrow> bool" where
  "group_ok wan_port g \<longleftrightarrow>
     distinct (map member_key (g_members g)) \<and> g_port_map g = port_map_loop wan_port 0 (g_members g)"

definition groups_ok :: "nat \<Rightarrow> mgroup list \<Rightarrow> bool" where
  "groups_ok wan_port gs \<longleftrightarrow> distinct (map group_key gs) \<and> list_all (group_ok wan_port) gs"

definition hw_table_ok :: "mac_entry list \<Rightarrow> bool" where
  "hw_table_ok t \<longleftrightarrow> length t = MAX_MGROUP \<and>
     (\<forall>i < length t. \<forall>j < length t.
        me_mac (t ! i) = me_mac (t ! j) \<and> me_mac (t ! i) \<noteq> zero_mac \<longrightarrow> i = j)"

definition switch_ok :: "nat \<Rightarrow> mc_switch \<Rightarrow> bool" where
  "switch_ok wan_port sw \<longleftrightarrow> groups_ok wan_port (sw_groups sw) \<and> hw_table_ok (sw_table sw)"

lemma same_member_key:
  "same_member m u = (\<lambda>x. member_key x = (u, IP_GET_LOST_MAPPING m))"
  by (auto simp: same_member_def member_key_def)

lemma updateMacTable_groups [simp]:
  "sw_groups (fst (updateMacTable g sw)) = sw_groups sw"
  "sw_router_port (fst (updateMacTable g sw)) = sw_router_port sw"
  by (auto simp: updateMacTable_def Let_def split: option.split)

lemma mgroup_index_loop_Some:
  "mgroup_index_loop mac i idx t = Some k \<Longrightarrow>
   idx = Some k \<and> mac \<notin> me_mac ` set t \<or>
   i \<le> k \<and> k < i + length t \<and> (me_mac (t ! (k - i)) = mac \<or> mac \<notin> me_mac ` set t)"
proof (induction t arbitrary: i idx)
  case (Cons e t)
  show ?case
  proof (cases "me_mac e = mac")
    case False
    then have "mgroup_index_loop mac (i + 1)
        (if me_portmap e = 0 \<and> idx = None then Some i else idx) t = Some k"
      using Cons.prems by simp
    from Cons.IH [OF this] consider
      "(if me_portmap e = 0 \<and> idx = None then Some i else idx) = Some k" "mac \<notin> me_mac ` set t"
      | "i + 1 \<le> k" "k < i + 1 + length t" "me_mac (t ! (k - (i + 1))) = mac \<or> mac \<notin> me_mac ` set t"
      by blast
    then show ?thesis
    proof cases
      case 1
      then show ?thesis using False by (auto split: if_splits)
    next
      case 2
      then have "(e # t) ! (k - i) = t ! (k - (i + 1))"
        by (simp add: nth_Cons')
      then show ?thesis using 2 False by auto
    qed
  qed (use Cons.prems in simp)
qed simp

lemma get_mgroup_index_Some:
  "get_mgroup_index mac t = Some k \<Longrightarrow>
   k < length t \<and> (me_mac (t ! k) = mac \<or> mac \<notin> me_mac ` set t)"
  unfolding get_mgroup_index_def using mgroup_index_loop_Some [of mac 0 None t k] by auto

lemma hw_table_ok_update:
  assumes "hw_table_ok t" "k < length t"
    "mac = zero_mac \<or> me_mac (t ! k) = mac \<or> mac \<notin> me_mac ` set t"
  shows "hw_table_ok (t[k := \<lparr>me_mac = mac, me_portmap = pm\<rparr>])"
proof -
  let ?t = "t[k := \<lparr>me_mac = mac, me_portmap = pm\<rparr>]"
  have u: "i = j" if "i < length t" "j < length t" "me_mac (t ! i) = me_mac (t ! j)"
      "me_mac (t ! i) \<noteq> zero_mac" for i j
    using assms(1) that unfolding hw_table_ok_def by blast
  have n: "me_mac (?t ! x) = (if x = k then mac else me_mac (t ! x))" if "x < length t" for x
    using that by (simp add: nth_list_update)
  have k: "j = k" if "j < length t" "me_mac (t ! j) = mac" "mac \<noteq> zero_mac" for j
  proof -
    have "mac \<in> me_mac ` set t" using that(1,2) by auto
    then have "me_mac (t ! j) = me_mac (t ! k)" using assms(3) that by simp
    then show ?thesis using u that assms(2) by blast
  qed
  have "i = j" if "i < length t" "j < length t" "me_mac (?t ! i) = me_mac (?t ! j)"
      "me_mac (?t ! i) \<noteq> zero_mac" for i j
    using n [OF that(1)] n [OF that(2)] that k u by metis
  moreover have "length t = MAX_MGROUP" using assms(1) unfolding hw_table_ok_def by blast
  ultimately show ?thesis
    unfolding hw_table_ok_def length_list_update by blast
qed

lemma updateMacTable_table:
  assumes "hw_table_ok (sw_table sw)"
  shows "hw_table_ok (sw_table (fst (updateMacTable g sw)))"
proof (cases "get_mgroup_index (group_mac g) (sw_table sw)")
  case (Some k)
  from get_mgroup_index_Some [OF this] assms show ?thesis
    by (simp add: updateMacTable_def Some Let_def zero_mac_entry_def hw_table_ok_update)
qed (use assms in \<open>simp add: updateMacTable_def\<close>)

lemma update_all_ok:
  "hw_table_ok (sw_table sw) \<Longrightarrow>
   sw_groups (fst (update_all gs sw)) = sw_groups sw \<and> hw_table_ok (sw_table (fst (update_all gs sw)))"
proof (induction gs arbitrary: sw)
  case (Cons g gs)
  obtain sw1 o1 where u: "updateMacTable g sw = (sw1, o1)" by force
  then have "hw_table_ok (sw_table sw1)" "sw_groups sw1 = sw_groups sw"
    using updateMacTable_table [OF Cons.prems, of g] updateMacTable_groups [of g sw] by simp_all
  with Cons.IH [of sw1] show ?case
    by (simp add: u split_beta)
qed simp

lemma update_group_port_map_groups:
  "sw_groups (fst (update_group_port_map wan e sw)) =
     update_first (\<lambda>g. group_key g = group_key e)
       (\<lambda>_. e\<lparr>g_port_map := port_map_loop wan 0 (g_members e)\<rparr>) (sw_groups sw)"
proof -
  have k: "group_key (e\<lparr>g_port_map := x\<rparr>) = group_key e" for x
    by (simp add: group_key_def)
  show ?thesis
  proof (cases "g_port_map e = port_map_loop wan 0 (g_members e)")
    case True
    then have e: "e\<lparr>g_port_map := port_map_loop wan 0 (g_members e)\<rparr> = e" by simp
    show ?thesis
      unfolding update_group_port_map_def e using True by (simp add: put_entry_def)
  qed (simp add: update_group_port_map_def Let_def put_entry_def k)
qed

lemma update_group_port_map_table:
  "hw_table_ok (sw_table sw) \<Longrightarrow> hw_table_ok (sw_table (fst (update_group_port_map wan e sw)))"
  by (simp add: update_group_port_map_def Let_def updateMacTable_table put_entry_def)

lemma groups_ok_update:
  assumes "groups_ok wan gs" and "distinct (map member_key (g_members e))"
  shows "groups_ok wan (update_first (\<lambda>g. group_key g = group_key e)
      (\<lambda>_. e\<lparr>g_port_map := port_map_loop wan 0 (g_members e)\<rparr>) gs)"
proof -
  have d: "distinct (map group_key gs)"
    using assms by (simp add: groups_ok_def)
  have m: "map group_key (map (\<lambda>g. if group_key g = group_key e
      then e\<lparr>g_port_map := port_map_loop wan 0 (g_members e)\<rparr> else g) gs) = map group_key gs"
    by (simp add: group_key_def)
  show ?thesis
    unfolding groups_ok_def update_first_map [OF d] m
    using assms by (auto simp: groups_ok_def list_all_iff group_ok_def)
qed

lemma update_group_port_map_ok:
  "\<lbrakk>switch_ok wan sw; distinct (map member_key (g_members e))\<rbrakk> \<Longrightarrow>
   switch_ok wan (fst (update_group_port_map wan e sw))"
  by (simp add: switch_ok_def update_group_port_map_groups update_group_port_map_table groups_ok_update)

lemma insert_member_members:
  assumes "distinct (map member_key (g_members e))"
  shows "distinct (map member_key (g_members (insert_member port_of e m u))) \<and>
    member_key ` set (g_members (insert_member port_of e m u)) =
      insert (u, IP_GET_LOST_MAPPING m) (member_key ` set (g_members e))"
proof (cases "lookup_member e m u")
  case None
  then have "(u, IP_GET_LOST_MAPPING m) \<notin> member_key ` set (g_members e)"
    by (simp add: lookup_member_def same_member_key find_key_None)
  with assms None show ?thesis
    by (auto simp: insert_member_def member_key_def)
next
  case (Some x)
  define f where "f = (\<lambda>x. if member_key x = (u, IP_GET_LOST_MAPPING m) then x\<lparr>gm_port_num := of_int (port_of u),
    gm_has_report := 10, gm_sent_report := 0\<rparr> else x)"
  have k: "member_key (f x) = member_key x" for x
    by (simp add: member_key_def f_def)
  have g: "g_members (insert_member port_of e m u) = map f (g_members e)"
    using Some by (simp add: insert_member_def same_member_key update_first_map [OF assms] f_def)
  have "x \<in> set (g_members e)" "member_key x = (u, IP_GET_LOST_MAPPING m)"
    using Some find_key_Some [OF assms, of "(u, IP_GET_LOST_MAPPING m)" x]
    by (simp_all add: lookup_member_def same_member_key)
  then have i: "(u, IP_GET_LOST_MAPPING m) \<in> member_key ` set (g_members e)"
    by (metis image_eqI)
  show ?thesis
    unfolding g using assms by (simp add: image_image k comp_def insert_absorb [OF i])
qed

lemma group_key_update [simp]: "group_key (e\<lparr>g_members := x\<rparr>) = group_key e"
  "group_key (e\<lparr>g_port_map := y\<rparr>) = group_key e"
  by (simp_all add: group_key_def)

lemma insert_member_key [simp]: "group_key (insert_member port_of e m u) = group_key e"
  by (simp add: insert_member_def group_key_def split: option.split)

lemma remove_first_members:
  assumes "distinct (map member_key ms)"
  shows "distinct (map member_key (remove_first (same_member m u) ms)) \<and>
    member_key ` set (remove_first (same_member m u) ms) =
      member_key ` set ms - {(u, IP_GET_LOST_MAPPING m)}"
  unfolding same_member_key remove_first_filter [OF assms] using assms
  by (auto simp: distinct_map inj_on_def)

subsection \<open>The membership relation\<close>

definition members_at :: "mgroup list \<Rightarrow> group_key \<Rightarrow> (u32 \<times> byte) set" where
  "members_at gs k = (\<Union>g \<in> {g \<in> set gs. group_key g = k}. member_key ` set (g_members g))"

definition members_rel :: "mc_switch \<Rightarrow> (u32 \<times> u32) set" where
  "members_rel sw = {(m, u). IN_MULTICAST m \<and>
     (u, IP_GET_LOST_MAPPING m) \<in> members_at (sw_groups sw) (key_of m)}"

lemma members_at_entry:
  "\<lbrakk>distinct (map group_key gs); e \<in> set gs\<rbrakk> \<Longrightarrow>
   members_at gs (group_key e) = member_key ` set (g_members e)"
  by (auto simp: members_at_def distinct_map inj_on_def)

lemma members_at_update:
  assumes "distinct (map group_key gs)" and "group_key e \<in> group_key ` set gs" and "group_key e' = group_key e"
  shows "members_at (update_first (\<lambda>g. group_key g = group_key e) (\<lambda>_. e') gs) k =
    (if k = group_key e then member_key ` set (g_members e') else members_at gs k)"
proof -
  let ?f = "\<lambda>g. if group_key g = group_key e then e' else g"
  have k: "group_key (?f g) = group_key g" for g
    using assms(3) by simp
  obtain g0 where "g0 \<in> set gs" "group_key g0 = group_key e"
    using assms(2) by auto
  then show ?thesis
    unfolding members_at_def update_first_map [OF assms(1)]
    by (auto simp: k assms(3) split: if_splits)
qed

lemma groups_distinct: "switch_ok wan sw \<Longrightarrow> distinct (map group_key (sw_groups sw))"
  by (simp add: switch_ok_def groups_ok_def)

lemma entry_members_distinct:
  "\<lbrakk>switch_ok wan sw; e \<in> set (sw_groups sw)\<rbrakk> \<Longrightarrow> distinct (map member_key (g_members e))"
  by (simp add: switch_ok_def groups_ok_def list_all_iff group_ok_def)

lemma find_entry_Some:
  "\<lbrakk>switch_ok wan sw; find_entry m (sw_groups sw) = Some e\<rbrakk> \<Longrightarrow>
   e \<in> set (sw_groups sw) \<and> group_key e = key_of m \<and> distinct (map member_key (g_members e)) \<and>
   members_at (sw_groups sw) (key_of m) = member_key ` set (g_members e)"
  using find_key_Some [OF groups_distinct, of wan sw "key_of m" e] entry_members_distinct [of wan sw e]
    members_at_entry [OF groups_distinct, of wan sw e]
  by (auto simp: find_entry_def)

lemma find_entry_None:
  "find_entry m (sw_groups sw) = None \<Longrightarrow>
   key_of m \<notin> group_key ` set (sw_groups sw) \<and> members_at (sw_groups sw) (key_of m) = {}"
  by (force simp: find_entry_def find_key_None members_at_def)

lemma update_group_port_map_members:
  assumes "switch_ok wan sw" and "group_key e \<in> group_key ` set (sw_groups sw)"
  shows "members_at (sw_groups (fst (update_group_port_map wan e sw))) k =
    (if k = group_key e then member_key ` set (g_members e) else members_at (sw_groups sw) k)"
  unfolding update_group_port_map_groups
  by (subst members_at_update [OF groups_distinct [OF assms(1)] assms(2)]) (simp_all add: group_key_def)

lemma insert_multicast_ip_spec:
  assumes "switch_ok wan sw" and "key_of m \<noteq> (0, 0, 1) \<or> find_entry m (sw_groups sw) \<noteq> None"
  shows "switch_ok wan (fst (insert_multicast_ip port_of wan m u sw)) \<and>
    members_at (sw_groups (fst (insert_multicast_ip port_of wan m u sw))) k =
      (if k = key_of m then insert (u, IP_GET_LOST_MAPPING m) (members_at (sw_groups sw) k)
       else members_at (sw_groups sw) k)"
proof -
  have main: "switch_ok wan (fst (update_group_port_map wan (insert_member port_of e m u) sw')) \<and>
      members_at (sw_groups (fst (update_group_port_map wan (insert_member port_of e m u) sw'))) k =
        (if k = key_of m then insert (u, IP_GET_LOST_MAPPING m) (member_key ` set (g_members e))
         else members_at (sw_groups sw') k)"
    if s: "switch_ok wan sw'" and e: "e \<in> set (sw_groups sw')" "group_key e = key_of m" for sw' e
  proof -
    have d: "distinct (map member_key (g_members e))" by (rule entry_members_distinct [OF s e(1)])
    have "group_key (insert_member port_of e m u) \<in> group_key ` set (sw_groups sw')"
      using e(1) by simp
    then show ?thesis
      using update_group_port_map_ok [OF s] update_group_port_map_members [OF s]
        insert_member_members [OF d, of port_of m u] e(2) by simp
  qed
  show ?thesis
  proof (cases "find_entry m (sw_groups sw)")
    case (Some e)
    from find_entry_Some [OF assms(1) Some] main [OF assms(1), of e] Some show ?thesis
      by (simp add: insert_multicast_ip_def split_beta Let_def)
  next
    case None
    obtain a b c where k: "key_of m = (a, b, c)" by (cases "key_of m")
    define e where "e = \<lparr>g_a0 = IP_GET_LOST_MAPPING m, g_a1 = a, g_a2 = b, g_a3 = c,
      g_port_map = 0, g_members = []\<rparr>"
    let ?sw = "sw\<lparr>sw_groups := e # sw_groups sw\<rparr>"
    have b: "build_entry m = Some e"
      using assms(2) None k by (auto simp: build_entry_def e_def)
    have ek: "group_key e = key_of m" by (simp add: e_def group_key_def k)
    have n: "key_of m \<notin> group_key ` set (sw_groups sw)" "members_at (sw_groups sw) (key_of m) = {}"
      using find_entry_None [OF None] by auto
    have s: "switch_ok wan ?sw"
      using assms(1) n(1) ek by (auto simp: switch_ok_def groups_ok_def group_ok_def e_def)
    have a: "members_at (sw_groups ?sw) k = members_at (sw_groups sw) k" for k
      by (auto simp: members_at_def e_def)
    show ?thesis
      using main [OF s, of e] ek None b a [of k] n(2)
      by (simp add: insert_multicast_ip_def split_beta Let_def) (simp add: e_def)
  qed
qed

lemma insert_multicast_ip_ok:
  assumes "switch_ok wan sw"
  shows "switch_ok wan (fst (insert_multicast_ip port_of wan m u sw))"
proof (cases "key_of m \<noteq> (0, 0, 1) \<or> find_entry m (sw_groups sw) \<noteq> None")
  case False
  then show ?thesis
    using assms by (simp add: insert_multicast_ip_def build_entry_def)
qed (use insert_multicast_ip_spec [OF assms] in blast)

lemma members_key_image:
  "e \<in> set gs \<Longrightarrow> group_key (e\<lparr>g_members := x\<rparr>) \<in> group_key ` set gs"
  by (metis (no_types, lifting) group_key_update image_eqI)

lemma remove_member_spec:
  assumes "switch_ok wan sw"
  shows "switch_ok wan (fst (remove_member wan m u w sw)) \<and>
    members_at (sw_groups (fst (remove_member wan m u w sw))) k =
      (if k = key_of m then members_at (sw_groups sw) k - {(u, IP_GET_LOST_MAPPING m)}
       else members_at (sw_groups sw) k)"
proof (cases "find_entry m (sw_groups sw)")
  case None
  with find_entry_None [OF None] assms show ?thesis by (simp add: remove_member_def)
next
  case (Some e)
  have e: "e \<in> set (sw_groups sw)" "group_key e = key_of m" "distinct (map member_key (g_members e))"
    "members_at (sw_groups sw) (key_of m) = member_key ` set (g_members e)"
    using find_entry_Some [OF assms Some] by auto
  let ?e = "e\<lparr>g_members := remove_first (same_member m u) (g_members e)\<rparr>"
  have k: "group_key ?e = key_of m" "group_key ?e \<in> group_key ` set (sw_groups sw)"
    using e(2) members_key_image [OF e(1)] by simp_all
  show ?thesis
  proof (cases "g_members e = []")
    case False
    then show ?thesis
      using Some update_group_port_map_ok [OF assms, of ?e] update_group_port_map_members [OF assms k(2)]
        remove_first_members [OF e(3), of m u] e(4) k(1)
      by (simp add: remove_member_def split_beta Let_def)
  qed (use assms Some e(4) in \<open>simp add: remove_member_def\<close>)
qed

lemma set_remove_first:
  "set (remove_first P xs) \<subseteq> set xs" "x \<in> set xs \<Longrightarrow> \<not> P x \<Longrightarrow> x \<in> set (remove_first P xs)"
  by (induction xs) auto

definition unreported :: "u32 \<Rightarrow> group_member list \<Rightarrow> (u32 \<times> byte) set" where
  "unreported mip ms =
     (\<lambda>x. (gm_ip_addr x, IP_GET_LOST_MAPPING mip)) ` {x \<in> set ms. gm_has_report x = 0}"

lemma unreported_Cons:
  assumes "set rest \<subseteq> set ms" and "\<forall>x \<in> set ms - set rest. gm_ip_addr x = gm_ip_addr m"
    and "gm_has_report m = 0"
  shows "unreported mip (m # ms) = insert (gm_ip_addr m, IP_GET_LOST_MAPPING mip) (unreported mip rest)"
proof
  show "unreported mip (m # ms) \<subseteq> insert (gm_ip_addr m, IP_GET_LOST_MAPPING mip) (unreported mip rest)"
    using assms(2) unfolding unreported_def by fastforce
  show "insert (gm_ip_addr m, IP_GET_LOST_MAPPING mip) (unreported mip rest) \<subseteq> unreported mip (m # ms)"
    using assms(1,3) unfolding unreported_def by fastforce
qed

lemma sweap_rest:
  assumes "rest = (if P m \<or> stale then ms else remove_first P ms)"
  shows "set rest \<subseteq> set ms" and "\<forall>x \<in> set ms - set rest. P x"
  using assms set_remove_first(1) [of P ms] set_remove_first(2) [of _ ms P] by (auto split: if_splits)

lemma sweap_loop_spec:
  assumes "switch_ok wan sw"
  shows "switch_ok wan (fst (sweap_loop wan mip ms sw)) \<and>
    members_at (sw_groups (fst (sweap_loop wan mip ms sw))) k =
      (if k = key_of mip then members_at (sw_groups sw) k - unreported mip ms
       else members_at (sw_groups sw) k)"
  using assms
proof (induction wan mip ms sw rule: sweap_loop.induct)
  case (2 wan mip m ms sw)
  show ?case
  proof (cases "gm_has_report m = 0")
    case False
    then have "unreported mip (m # ms) = unreported mip ms"
      by (auto simp: unreported_def)
    then show ?thesis
      using "2.IH"(1) [OF _ "2.prems"] False by simp
  next
    case True
    define freed where "freed = same_member mip (gm_ip_addr m)"
    obtain sw1 o1 where r: "remove_member wan mip (gm_ip_addr m) False sw = (sw1, o1)" by force
    define stale where "stale = (if ms = [] then freed m else \<not> freed m \<and> freed (hd ms))"
    define rest where "rest = (if freed m \<or> stale then ms else remove_first freed ms)"
    obtain sw2 o2 where l: "sweap_loop wan mip rest sw1 = (sw2, o2)" by force
    have res: "fst (sweap_loop wan mip (m # ms) sw) = sw2"
      unfolding sweap_loop.simps(2) Let_def freed_def [symmetric] r prod.case stale_def [symmetric]
        rest_def [symmetric] l
      using True by simp
    have sw1: "switch_ok wan sw1" "members_at (sw_groups sw1) k =
        (if k = key_of mip then members_at (sw_groups sw) k - {(gm_ip_addr m, IP_GET_LOST_MAPPING mip)}
         else members_at (sw_groups sw) k)"
      using remove_member_spec [OF "2.prems", of mip "gm_ip_addr m" False k] r by simp_all
    have "switch_ok wan sw2 \<and> members_at (sw_groups sw2) k =
        (if k = key_of mip then members_at (sw_groups sw1) k - unreported mip rest
         else members_at (sw_groups sw1) k)"
      using "2.IH"(2) [OF _ freed_def r [symmetric] refl stale_def rest_def sw1(1)] True
      unfolding l by (simp only: fst_conv not_not simp_thms)
    moreover have "unreported mip (m # ms) =
        insert (gm_ip_addr m, IP_GET_LOST_MAPPING mip) (unreported mip rest)"
      using sweap_rest [OF rest_def] True by (intro unreported_Cons) (simp_all add: freed_def same_member_def)
    ultimately show ?thesis
      unfolding res using sw1(2)
      by (cases "k = key_of mip") (simp_all add: Diff_insert2 [of _ _ "unreported mip rest"])
  qed
qed (simp add: unreported_def)

lemma sweap_groups_spec:
  assumes "sweap_groups wan mc gs sw = (sw', r, out)" and "switch_ok wan sw"
  shows "switch_ok wan sw' \<and> members_at (sw_groups sw') k \<subseteq> members_at (sw_groups sw) k \<and>
    (r \<longrightarrow> (\<exists>g \<in> set gs. craft_mip (g_a0 g) g = mc \<and> members_at (sw_groups sw') (group_key g) = {}))"
  using assms
proof (induction wan mc gs sw arbitrary: sw' r out rule: sweap_groups.induct)
  case (2 wan mc pos gs sw)
  show ?case
  proof (cases "mc = craft_mip (g_a0 pos) pos")
    case False
    then show ?thesis using "2.IH"(1) [OF _ _ "2.prems"(2)] "2.prems"(1) by auto
  next
    case True
    obtain sw1 o1 where l: "sweap_loop wan (ntohl mc) (g_members pos) sw = (sw1, o1)" by force
    have s1: "switch_ok wan sw1" "members_at (sw_groups sw1) k' \<subseteq> members_at (sw_groups sw) k'" for k'
      using sweap_loop_spec [OF "2.prems"(2), of "ntohl mc" "g_members pos" k'] l by auto
    let ?c = "case find (\<lambda>g. group_key g = group_key pos) (sw_groups sw1) of
      Some g \<Rightarrow> g_members g = [] | None \<Rightarrow> True"
    show ?thesis
    proof (cases ?c)
      case c: True
      have "members_at (sw_groups sw1) (group_key pos) = {}"
      proof (cases "find (\<lambda>g. group_key g = group_key pos) (sw_groups sw1)")
        case None
        then have "group_key pos \<notin> group_key ` set (sw_groups sw1)"
          by (simp only: find_key_None not_False_eq_True)
        then show ?thesis by (auto simp: members_at_def image_iff)
      next
        case (Some g)
        with c find_key_Some [OF groups_distinct [OF s1(1)] Some] members_at_entry [OF groups_distinct [OF s1(1)], of g]
        show ?thesis by auto
      qed
      then show ?thesis
        using "2.prems"(1) True l c s1 by simp
    next
      case c: False
      obtain sw2 r2 o2 where g: "sweap_groups wan mc gs sw1 = (sw2, r2, o2)"
        by (metis prod_cases3)
      have "sw' = sw2" "r = r2"
        using "2.prems"(1) True l c g by simp_all
      then show ?thesis
        using "2.IH"(2) [OF _ l [symmetric] refl c g s1(1)] True s1(2) [of k] by auto
    qed
  qed
qed simp

lemma sweap_no_report_members_spec:
  assumes "sweap_no_report_members wan mc sw = (sw', r, out)" and "switch_ok wan sw"
  shows "switch_ok wan sw'" and "members_at (sw_groups sw') k \<subseteq> members_at (sw_groups sw) k"
    and "r \<Longrightarrow> \<exists>g \<in> set (sw_groups sw). craft_mip (g_a0 g) g = mc \<and> members_at (sw_groups sw') (group_key g) = {}"
proof -
  obtain o' where s: "sweap_groups wan mc (sw_groups sw) sw = (sw', r, o')"
    using assms(1) by (auto simp: sweap_no_report_members_def split: prod.splits)
  show "switch_ok wan sw'" "members_at (sw_groups sw') k \<subseteq> members_at (sw_groups sw) k"
    "r \<Longrightarrow> \<exists>g \<in> set (sw_groups sw). craft_mip (g_a0 g) g = mc \<and> members_at (sw_groups sw') (group_key g) = {}"
    using sweap_groups_spec [OF s assms(2)] by blast+
qed

lemma port_map_loop_count_down: "port_map_loop wan p (map count_down ms) = port_map_loop wan p ms"
  by (induction ms arbitrary: p) (simp_all add: count_down_def)

lemma query_members_ok:
  assumes "switch_ok wan sw"
  shows "switch_ok wan (fst (query_members sw))"
proof -
  let ?f = "\<lambda>g. g\<lparr>g_members := map count_down (g_members g)\<rparr>"
  have k: "member_key (count_down m) = member_key m" for m
    by (simp add: member_key_def count_down_def)
  have "group_ok wan (?f g)" if "group_ok wan g" for g
    using that by (simp add: group_ok_def port_map_loop_count_down comp_def k)
  moreover have "map group_key (map ?f gs) = map group_key gs" for gs
    by simp
  ultimately show ?thesis
    using assms by (simp add: switch_ok_def groups_ok_def query_members_def Let_def list_all_iff comp_def)
qed

lemma remove_multicast_ip_spec:
  assumes "switch_ok wan sw"
  shows "switch_ok wan (fst (remove_multicast_ip m sw)) \<and>
    members_at (sw_groups (fst (remove_multicast_ip m sw))) k =
      (if k = key_of m then {} else members_at (sw_groups sw) k)"
proof (cases "find_entry m (sw_groups sw)")
  case None
  with find_entry_None [OF None] assms show ?thesis by (simp add: remove_multicast_ip_def)
next
  case (Some e)
  let ?gs = "filter (\<lambda>g. group_key g \<noteq> key_of m) (sw_groups sw)"
  have g: "sw_groups (fst (remove_multicast_ip m sw)) = ?gs"
    using Some by (simp add: remove_multicast_ip_def Let_def split_beta remove_first_filter [OF groups_distinct [OF assms]])
  have "hw_table_ok (sw_table (fst (remove_multicast_ip m sw)))"
    using Some assms by (simp add: remove_multicast_ip_def Let_def split_beta updateMacTable_table switch_ok_def)
  moreover have "groups_ok wan ?gs"
    using assms by (auto simp: switch_ok_def groups_ok_def distinct_map_filter list_all_iff)
  moreover have "members_at ?gs k = (if k = key_of m then {} else members_at (sw_groups sw) k)"
    by (auto simp: members_at_def)
  ultimately show ?thesis
    by (simp add: switch_ok_def g)
qed

lemma update_router_port_ok:
  "switch_ok wan sw \<Longrightarrow> switch_ok wan (fst (update_router_port port_of src sw))"
  using update_all_ok [of "sw\<lparr>sw_router_port := port_of (ntohl src)\<rparr>" "sw_groups sw"]
  by (auto simp: update_router_port_def Let_def switch_ok_def)

lemma remove_all_groups_ok:
  "switch_ok wan sw \<Longrightarrow> switch_ok wan (fst (remove_all_groups sw))"
  using update_all_ok [of sw "map (\<lambda>g. g\<lparr>g_port_map := 0\<rparr>) (sw_groups sw)"]
  by (auto simp: remove_all_groups_def Let_def split_beta switch_ok_def groups_ok_def)

lemma switch_init_ok:
  "sw_groups sw = [] \<Longrightarrow> switch_ok wan (fst (switch_init sw))"
  unfolding switch_init_def switch_ok_def
  by (simp add: groups_ok_def, intro updateMacTable_table)
    (auto simp: hw_table_ok_def zero_mac_entry_def)

subsection \<open>An empty port map means an empty group\<close>

definition port_ok :: "group_member \<Rightarrow> bool" where
  "port_ok x \<longleftrightarrow> gm_port_num x < 32 \<or> gm_port_num x = 255"

lemma flood_map_nonzero: "(0x5f AND NOT (push_bit wan 1) :: u32) \<noteq> 0"
proof -
  have "bit (0x5f AND NOT (push_bit wan 1) :: u32) (if wan = 0 then 1 else 0)"
    by (simp add: bit_simps)
  then show ?thesis by (metis bit_0_eq bot_apply bot_bool_def)
qed

lemma port_bit_nonzero: "n < 32 \<Longrightarrow> (p OR push_bit n 1 :: u32) \<noteq> 0"
proof -
  assume "n < 32"
  then have "bit (p OR push_bit n 1 :: u32) n" by (simp add: bit_simps)
  then show ?thesis by (metis bit_0_eq bot_apply bot_bool_def)
qed

lemma port_map_loop_nonzero: "p \<noteq> 0 \<Longrightarrow> port_map_loop wan p ms \<noteq> 0"
proof (induction ms arbitrary: p)
  case (Cons m ms)
  have "p OR push_bit (unat (gm_port_num m)) 1 \<noteq> 0"
    using Cons.prems by (metis or_eq_0_iff)
  with Cons.IH flood_map_nonzero show ?case by simp
qed simp

lemma port_map_loop_eq_0:
  assumes "list_all port_ok ms"
  shows "port_map_loop wan 0 ms = 0 \<longleftrightarrow> ms = []"
proof (cases ms)
  case (Cons m ms')
  have "port_map_loop wan (0 OR push_bit (unat (gm_port_num m)) 1) ms' \<noteq> 0" if "gm_port_num m \<noteq> 255"
    using assms Cons that by (intro port_map_loop_nonzero port_bit_nonzero)
      (simp add: port_ok_def word_less_nat_alt)
  with Cons flood_map_nonzero show ?thesis by simp
qed simp

lemma all_member_leaved_iff:
  assumes "switch_ok wan sw" and "list_all (\<lambda>g. list_all port_ok (g_members g)) (sw_groups sw)"
  shows "all_member_leaved m sw \<longleftrightarrow> members_at (sw_groups sw) (key_of m) = {}"
proof (cases "find_entry m (sw_groups sw)")
  case None
  with find_entry_None [OF None] show ?thesis by (simp add: all_member_leaved_def)
next
  case (Some e)
  have "e \<in> set (sw_groups sw)" "members_at (sw_groups sw) (key_of m) = member_key ` set (g_members e)"
    using find_entry_Some [OF assms(1) Some] by auto
  with assms Some port_map_loop_eq_0 [of "g_members e" wan] show ?thesis
    by (auto simp: all_member_leaved_def switch_ok_def groups_ok_def group_ok_def list_all_iff)
qed

lemma switch_ok_port_map:
  "switch_ok wan sw \<Longrightarrow> g \<in> set (sw_groups sw) \<Longrightarrow> g_port_map g = port_map_loop wan 0 (g_members g)"
  by (simp add: switch_ok_def groups_ok_def group_ok_def list_all_iff)

subsection \<open>Properties\<close>

lemma members_rel_iff:
  "(m, u) \<in> members_rel sw \<longleftrightarrow>
     IN_MULTICAST m \<and> (u, IP_GET_LOST_MAPPING m) \<in> members_at (sw_groups sw) (key_of m)"
  by (simp add: members_rel_def)

text \<open>C30: The lists of mc_switch.c implement the relation "host \<open>u\<close> has reported group \<open>m\<close>", although
  groups are found by the 23 address bits of their MAC address only.  From a consistent state
  a report adds exactly the pair of its group and host and a leave message removes exactly that pair, for every multicast
  group other than those that share the MAC address of the all-hosts group.  Removing a group
  also drops the members of the other groups with the same MAC address.  After each of the three
  operations the state is consistent again, and the port map of every group is the one computed
  from its members, so that \<^verbatim>\<open>all_member_leaved\<close> is right when the ports are below 32 or the
  unknown port 255.\<close>

theorem switch_refines_membership:
  assumes "switch_ok wan sw" and "IN_MULTICAST m" and "key_of m \<noteq> (0, 0, 1)"
    and "list_all (\<lambda>g. list_all port_ok (g_members g)) (sw_groups sw)"
  shows "members_rel (fst (insert_multicast_ip port_of wan m u sw)) = insert (m, u) (members_rel sw) \<and>
    members_rel (fst (remove_member wan m u w sw)) = members_rel sw - {(m, u)} \<and>
    members_rel (fst (remove_multicast_ip m sw)) = {(m', u'). (m', u') \<in> members_rel sw \<and> key_of m' \<noteq> key_of m} \<and>
    (\<forall>sw' \<in> {fst (insert_multicast_ip port_of wan m u sw), fst (remove_member wan m u w sw),
        fst (remove_multicast_ip m sw)}.
      switch_ok wan sw' \<and> (\<forall>g \<in> set (sw_groups sw'). g_port_map g = port_map_loop wan 0 (g_members g))) \<and>
    (all_member_leaved m sw \<longleftrightarrow> (\<forall>g \<in> set (sw_groups sw). group_key g = key_of m \<longrightarrow> g_members g = []))"
proof (intro conjI)
  have i: "m' = m" if "IN_MULTICAST m'" "key_of m' = key_of m"
      "IP_GET_LOST_MAPPING m' = IP_GET_LOST_MAPPING m" for m'
    using group_address_inject [OF that(1) assms(2) that(2,3)] .
  have ins: "members_at (sw_groups (fst (insert_multicast_ip port_of wan m u sw))) k =
      (if k = key_of m then insert (u, IP_GET_LOST_MAPPING m) (members_at (sw_groups sw) k)
       else members_at (sw_groups sw) k)" for k
    using insert_multicast_ip_spec [OF assms(1)] assms(3) by blast
  have rem: "members_at (sw_groups (fst (remove_member wan m u w sw))) k =
      (if k = key_of m then members_at (sw_groups sw) k - {(u, IP_GET_LOST_MAPPING m)}
       else members_at (sw_groups sw) k)" for k
    using remove_member_spec [OF assms(1)] by blast
  have del: "members_at (sw_groups (fst (remove_multicast_ip m sw))) k =
      (if k = key_of m then {} else members_at (sw_groups sw) k)" for k
    using remove_multicast_ip_spec [OF assms(1)] by blast
  show "members_rel (fst (insert_multicast_ip port_of wan m u sw)) = insert (m, u) (members_rel sw)"
    using assms(2) i by (auto simp: members_rel_iff ins split: if_splits)
  show "members_rel (fst (remove_member wan m u w sw)) = members_rel sw - {(m, u)}"
    using i by (auto simp: members_rel_iff rem split: if_splits)
  show "members_rel (fst (remove_multicast_ip m sw)) =
      {(m', u'). (m', u') \<in> members_rel sw \<and> key_of m' \<noteq> key_of m}"
    by (auto simp: members_rel_iff del split: if_splits)
  have "switch_ok wan (fst (insert_multicast_ip port_of wan m u sw))"
    "switch_ok wan (fst (remove_member wan m u w sw))" "switch_ok wan (fst (remove_multicast_ip m sw))"
    using insert_multicast_ip_spec [OF assms(1)] remove_member_spec [OF assms(1)]
      remove_multicast_ip_spec [OF assms(1)] assms(3) by blast+
  then show "\<forall>sw' \<in> {fst (insert_multicast_ip port_of wan m u sw), fst (remove_member wan m u w sw),
        fst (remove_multicast_ip m sw)}.
      switch_ok wan sw' \<and> (\<forall>g \<in> set (sw_groups sw'). g_port_map g = port_map_loop wan 0 (g_members g))"
    using switch_ok_port_map by blast
  show "all_member_leaved m sw \<longleftrightarrow> (\<forall>g \<in> set (sw_groups sw). group_key g = key_of m \<longrightarrow> g_members g = [])"
    using all_member_leaved_iff [OF assms(1,4)] by (auto simp: members_at_def)
qed

definition sample_switch :: mc_switch where
  "sample_switch = \<lparr>sw_groups = [], sw_router_port = - 1, sw_table = replicate MAX_MGROUP zero_mac_entry\<rparr>"

lemma sample_switch_ok: "switch_ok wan sample_switch"
  by (simp add: switch_ok_def groups_ok_def hw_table_ok_def sample_switch_def zero_mac_entry_def)

theorem switch_refines_membership_witness:
  "members_rel (fst (insert_multicast_ip (\<lambda>_. 2) 0 0xe1020304 0xc0a80005 sample_switch)) =
     {(0xe1020304, 0xc0a80005)}"
proof -
  have "members_rel sample_switch = {}"
    by (auto simp: members_rel_def members_at_def sample_switch_def)
  moreover have "key_of 0xe1020304 \<noteq> (0, 0, 1)"
    by (simp add: key_of_def)
  ultimately show ?thesis
    using switch_refines_membership [OF sample_switch_ok, of "0xe1020304" "\<lambda>_. 2" 0 "0xc0a80005"]
    by (simp add: IN_MULTICAST_def) (simp add: sample_switch_def)
qed

end
