(* ===== verification/Igmp_Route.thy ===== *)
theory Igmp_Route
  imports Igmp_Switch
begin

section \<open>The routing table of the IGMP proxy\<close>

text \<open>
  \<^verbatim>\<open>igmpproxy/src/rttable.c\<close>: one entry per multicast group, kept in a doubly linked list that is
  sorted by group, here a list of records in which a group occurs once; an entry is identified by
  its group.  The kernel calls of \<^verbatim>\<open>mroute-api.c\<close> and \<^verbatim>\<open>mcgroup.c\<close> and the \<^verbatim>\<open>iptables\<close> commands
  are effects.  A definition is \<open>None\<close> where the code dereferences the upstream interface although
  there is none: \<^verbatim>\<open>getIfByIx\<close> then returns the null pointer or, for the initial index -1, a
  pointer in front of the vector, and the error message before the access does not end the
  program.  The product is built with \<^verbatim>\<open>IGMP_PROXY_REALTEK_METHOD\<close> and \<^verbatim>\<open>USE_EFM_PATCH\<close>.
\<close>

subsection \<open>Data\<close>

datatype route_state = ROUTESTATE_NOTJOINED | ROUTESTATE_JOINED | ROUTESTATE_CHECK_LAST_MEMBER

record RouteTable =
  rt_group :: u32
  rt_originAddr :: u32
  rt_vifBits :: u32
  rt_upstrState :: route_state
  rt_ageVifBits :: u32
  rt_ageValue :: int
  rt_ageActivity :: int

record Config =
  cf_robustnessValue :: u32
  cf_queryInterval :: u32
  cf_queryResponseInterval :: u32
  cf_startupQueryInterval :: u32
  cf_lastMemberQueryInterval :: u32
  cf_lastMemberQueryCount :: u32
  cf_fastUpstreamLeave :: bool

text \<open>What is fixed after the start: the configuration, the interface vector, the index of the
  upstream interface, \<^verbatim>\<open>igmp_proxy_running\<close> and the WAN port of the switch.\<close>

record proxy_conf =
  pc_conf :: Config
  pc_ifs :: "IfDesc list"
  pc_upStreamVif :: int
  pc_running :: bool
  pc_wan_port :: nat

text \<open>What the environment answers while a message or a timeout is handled: the state of the WAN
  link, the port of a host, whether a source is in the local network, the name of the WAN interface
  and the lines of \<^verbatim>\<open>/proc/net/ip_mr_cache\<close> behind the header (\<open>None\<close>: it cannot be opened).\<close>

record proxy_env =
  pe_wan_link :: bool
  pe_port_of :: "u32 \<Rightarrow> int"
  pe_same_net :: "u32 \<Rightarrow> bool"
  pe_wanif :: "byte list"
  pe_mr_cache :: "byte list list option"

abbreviation (input) MAX_MC_VIFS :: nat where "MAX_MC_VIFS \<equiv> 32"

definition BIT_SET :: "u32 \<Rightarrow> nat \<Rightarrow> u32" where
  "BIT_SET x n = x OR push_bit n 1"

definition BIT_TST :: "u32 \<Rightarrow> u32 \<Rightarrow> bool" where
  "BIT_TST x n \<longleftrightarrow> x AND push_bit (unat n) 1 \<noteq> 0"

definition upstream_if :: "proxy_conf \<Rightarrow> IfDesc option" where
  "upstream_if pc = (case getIfByIx (of_int (pc_upStreamVif pc)) (pc_ifs pc) of
     Some (Some d) \<Rightarrow> Some d | _ \<Rightarrow> None)"

subsection \<open>Kernel routes and upstream membership\<close>

text \<open>The route descriptor: the input interface (\<open>None\<close> while the variable is uninitialised) and
  the TTL vector, over all interfaces.  The shift by the index -1 of an unregistered interface
  gives zero on the ARM core.\<close>

fun route_desc :: "IfDesc list \<Rightarrow> u32 \<Rightarrow> u16 option \<times> byte list \<Rightarrow> u16 option \<times> byte list" where
  "route_desc [] vifBits (InVif, TtlVc) = (InVif, TtlVc)"
| "route_desc (Dp # ifs) vifBits (InVif, TtlVc) =
     (if if_state Dp = IF_STATE_UPSTREAM then route_desc ifs vifBits (Some (ucast (if_index Dp)), TtlVc)
      else if BIT_TST vifBits (if_index Dp)
      then route_desc ifs vifBits (InVif, TtlVc[unat (if_index Dp) := if_threshold Dp])
      else route_desc ifs vifBits (InVif, TtlVc))"

definition addMRoute :: "u32 \<Rightarrow> u32 \<Rightarrow> u16 option \<times> byte list \<Rightarrow> igmp_out list" where
  "addMRoute OriginAdr McAdr d = [Mfc_add OriginAdr McAdr (fst d) (snd d)]"

definition delMRoute :: "u32 \<Rightarrow> u32 \<Rightarrow> u16 option \<times> byte list \<Rightarrow> igmp_out list" where
  "delMRoute OriginAdr McAdr d = [Mfc_del OriginAdr McAdr (fst d)]"

definition internUpdateKernelRoute :: "proxy_conf \<Rightarrow> RouteTable \<Rightarrow> bool \<Rightarrow> igmp_out list" where
  "internUpdateKernelRoute pc route activate =
     (let d = route_desc (pc_ifs pc) (rt_vifBits route) (None, replicate MAX_MC_VIFS 0) in
      if activate then addMRoute (rt_originAddr route) (rt_group route) d
      else delMRoute (rt_originAddr route) (rt_group route) d)"

definition joinleave :: "bool \<Rightarrow> IfDesc \<Rightarrow> u32 \<Rightarrow> igmp_out list" where
  "joinleave join d mcastaddr =
     [if join then Ig_join mcastaddr (if_InAdr d) else Ig_leave mcastaddr (if_InAdr d)]"

definition sendJoinLeaveUpstream ::
  "proxy_conf \<Rightarrow> RouteTable \<Rightarrow> bool \<Rightarrow> (RouteTable \<times> igmp_out list) option" where
  "sendJoinLeaveUpstream pc route join =
     (if join then
        (if rt_vifBits route > 0 then
           do { upstrIf \<leftarrow> upstream_if pc;
                Some (route\<lparr>rt_upstrState := ROUTESTATE_JOINED\<rparr>,
                  joinleave True upstrIf (rt_group route) @ [Ipt_insert (if_Name upstrIf) (rt_group route)]) }
         else Some (route, []))
      else
        (if rt_upstrState route \<noteq> ROUTESTATE_NOTJOINED then
           do { upstrIf \<leftarrow> upstream_if pc;
                Some (route\<lparr>rt_upstrState := ROUTESTATE_NOTJOINED\<rparr>,
                  joinleave False upstrIf (rt_group route) @ [Ipt_delete (if_Name upstrIf) (rt_group route)]) }
         else Some (route, [])))"

subsection \<open>The table\<close>

definition initRouteTable :: "proxy_conf \<Rightarrow> RouteTable list \<times> igmp_out list" where
  "initRouteTable pc =
     ([], concat (map (\<lambda>Dp. if if_InAdr Dp \<noteq> 0 \<and> if_Flags Dp AND IFF_LOOPBACK = 0 \<and>
                              if_state Dp = IF_STATE_DOWNSTREAM
                            then joinleave True Dp allrouters_group else []) (pc_ifs pc)))"

fun clear_routes :: "proxy_conf \<Rightarrow> RouteTable list \<Rightarrow> igmp_out list option" where
  "clear_routes pc [] = Some []"
| "clear_routes pc (croute # rs) = do {
     (r, out) \<leftarrow> sendJoinLeaveUpstream pc croute False;
     out' \<leftarrow> clear_routes pc rs;
     Some (internUpdateKernelRoute pc croute False @ out @ out')
   }"

definition clearAllRoutes :: "proxy_conf \<Rightarrow> RouteTable list \<Rightarrow> (RouteTable list \<times> igmp_out list) option" where
  "clearAllRoutes pc routes = do { out \<leftarrow> clear_routes pc routes; Some ([], out) }"

definition findRoute :: "u32 \<Rightarrow> RouteTable list \<Rightarrow> RouteTable option" where
  "findRoute grp routes = find (\<lambda>r. rt_group r = grp) routes"

definition put_route :: "RouteTable \<Rightarrow> RouteTable list \<Rightarrow> RouteTable list" where
  "put_route r routes = update_first (\<lambda>x. rt_group x = rt_group r) (\<lambda>_. r) routes"

fun insert_after :: "RouteTable \<Rightarrow> RouteTable list \<Rightarrow> RouteTable list" where
  "insert_after newroute [] = [newroute]"
| "insert_after newroute [croute] = [croute, newroute]"
| "insert_after newroute (croute # n # rs) =
     (if rt_group n > rt_group newroute then croute # newroute # n # rs
      else croute # insert_after newroute (n # rs))"

definition link_route :: "RouteTable \<Rightarrow> RouteTable list \<Rightarrow> RouteTable list" where
  "link_route newroute routes =
     (case routes of
        [] \<Rightarrow> [newroute]
      | r # _ \<Rightarrow> if rt_group r > rt_group newroute then newroute # routes else insert_after newroute routes)"

definition new_route :: "proxy_conf \<Rightarrow> u32 \<Rightarrow> int \<Rightarrow> RouteTable" where
  "new_route pc grp ifx =
     \<lparr>rt_group = grp, rt_originAddr = 0, rt_vifBits = (if ifx \<ge> 0 then BIT_SET 0 (nat ifx) else 0),
      rt_upstrState = ROUTESTATE_NOTJOINED, rt_ageVifBits = 0,
      rt_ageValue = sint (cf_robustnessValue (pc_conf pc)), rt_ageActivity = 0\<rparr>"

definition hear_vif :: "int \<Rightarrow> RouteTable \<Rightarrow> RouteTable" where
  "hear_vif ifx r = r\<lparr>rt_vifBits := BIT_SET (rt_vifBits r) (nat ifx),
                      rt_ageVifBits := BIT_SET (rt_ageVifBits r) (nat ifx)\<rparr>"

definition join_route ::
  "proxy_conf \<Rightarrow> RouteTable \<Rightarrow> RouteTable list \<Rightarrow> igmp_out list
    \<Rightarrow> (bool \<times> RouteTable list \<times> igmp_out list) option" where
  "join_route pc croute routes out =
     (if rt_upstrState croute \<noteq> ROUTESTATE_JOINED then do {
        (croute, out') \<leftarrow> sendJoinLeaveUpstream pc croute True;
        Some (True, put_route croute routes, out @ out')
      } else Some (True, put_route croute routes, out))"

definition insertRoute ::
  "proxy_conf \<Rightarrow> u32 \<Rightarrow> int \<Rightarrow> RouteTable list \<Rightarrow> (bool \<times> RouteTable list \<times> igmp_out list) option" where
  "insertRoute pc grp ifx routes =
     (if \<not> IN_MULTICAST (ntohl grp) then Some (False, routes, [])
      else if ifx \<ge> int MAX_MC_VIFS then Some (False, routes, [])
      else case findRoute grp routes of
        None \<Rightarrow>
          let croute = new_route pc grp ifx;
              routes = link_route croute routes
          in if ifx \<ge> 0
             then let croute = hear_vif ifx croute
                  in join_route pc croute routes (internUpdateKernelRoute pc croute True)
             else join_route pc croute routes []
      | Some croute \<Rightarrow>
          if ifx \<ge> 0
          then let croute = hear_vif ifx croute
               in join_route pc croute routes
                    (if rt_originAddr croute \<noteq> 0 then internUpdateKernelRoute pc croute True else [])
          else join_route pc croute routes [])"

definition activateRoute ::
  "proxy_conf \<Rightarrow> u32 \<Rightarrow> u32 \<Rightarrow> RouteTable list \<Rightarrow> (bool \<times> RouteTable list \<times> igmp_out list) option" where
  "activateRoute pc grp originAddr routes = do {
     (routes, out) \<leftarrow>
       (case findRoute grp routes of
          Some _ \<Rightarrow> Some (routes, [])
        | None \<Rightarrow> map_option snd (insertRoute pc grp (- 1) routes));
     case findRoute grp routes of
       None \<Rightarrow> Some (False, routes, out)
     | Some croute \<Rightarrow>
         let croute = (if originAddr > 0 then croute\<lparr>rt_originAddr := originAddr\<rparr> else croute);
             active = rt_vifBits croute > 0
         in Some (active, put_route croute routes,
              out @ (if active then internUpdateKernelRoute pc croute True else []))
   }"

definition removeRoute ::
  "proxy_conf \<Rightarrow> RouteTable \<Rightarrow> RouteTable list \<Rightarrow> (RouteTable list \<times> igmp_out list) option" where
  "removeRoute pc croute routes = do {
     let out = internUpdateKernelRoute pc croute False;
     (r, out') \<leftarrow>
       (if rt_upstrState croute = ROUTESTATE_JOINED \<or>
           rt_upstrState croute = ROUTESTATE_CHECK_LAST_MEMBER \<and> \<not> cf_fastUpstreamLeave (pc_conf pc)
        then sendJoinLeaveUpstream pc croute False else Some (croute, []));
     Some (remove_first (\<lambda>x. rt_group x = rt_group croute) routes, out @ out')
   }"

subsection \<open>Ageing\<close>

definition age_activity :: "proxy_conf \<Rightarrow> RouteTable \<Rightarrow> RouteTable" where
  "age_activity pc croute =
     (let croute = croute\<lparr>rt_ageValue := rt_ageValue croute - 1\<rparr> in
      if rt_ageVifBits croute > 0 \<and> rt_ageActivity croute = 0 then
        (if rt_vifBits croute = rt_ageVifBits croute
         then croute\<lparr>rt_ageValue := sint (cf_robustnessValue (pc_conf pc))\<rparr>
         else croute\<lparr>rt_ageActivity := rt_ageActivity croute + 1, rt_vifBits := rt_ageVifBits croute\<rparr>)
      else if rt_ageActivity croute > 0 then
        (if rt_vifBits croute \<noteq> rt_ageVifBits croute
         then croute\<lparr>rt_vifBits := rt_vifBits croute OR rt_ageVifBits croute,
                     rt_ageActivity := rt_ageActivity croute + 1\<rparr>
         else croute)
      else croute)"

definition internAgeRoute ::
  "proxy_conf \<Rightarrow> RouteTable \<Rightarrow> mc_switch \<Rightarrow> RouteTable list
    \<Rightarrow> (bool \<times> mc_switch \<times> RouteTable list \<times> igmp_out list) option" where
  "internAgeRoute pc croute sw routes =
     (let croute = age_activity pc croute in
      if rt_ageValue croute = 0 then
        (if rt_ageActivity croute > 0 then
           let out = internUpdateKernelRoute pc croute True;
               croute = croute\<lparr>rt_ageValue := rt_ageActivity croute, rt_ageActivity := 0\<rparr>
           in Some (True, sw, put_route (croute\<lparr>rt_ageVifBits := 0\<rparr>) routes, out)
         else do {
           let (sw, out) = remove_multicast_ip (ntohl (rt_group croute)) sw;
           (routes, out') \<leftarrow> removeRoute pc croute routes;
           Some (True, sw, routes, out @ out' @ [Ig_freed_write])
         })
      else Some (False, sw, put_route (croute\<lparr>rt_ageVifBits := 0\<rparr>) routes, []))"

text \<open>\<^verbatim>\<open>string_to_hexa\<close> of \<^verbatim>\<open>lib/ul_lib/network.c\<close>; \<open>None\<close> when a fifth byte is written.\<close>

definition hex_digit :: "byte \<Rightarrow> byte option" where
  "hex_digit c =
     (let c = (if 0x61 \<le> c \<and> c \<le> 0x7a then c - 0x20 else c) in
      if 0x41 \<le> c \<and> c \<le> 0x46 then Some (c - 0x41 + 10)
      else if 0x30 \<le> c \<and> c \<le> 0x39 then Some (c - 0x30)
      else None)"

fun hexa_loop :: "nat \<Rightarrow> byte list \<Rightarrow> byte list \<Rightarrow> u32 option" where
  "hexa_loop j v [] = Some (htonl (le32_of v))"
| "hexa_loop j v [c] =
     (case hex_digit c of None \<Rightarrow> Some 0 | Some h \<Rightarrow> if j < 4 then Some 0 else None)"
| "hexa_loop j v (c # d # s) =
     (case hex_digit c of
        None \<Rightarrow> Some 0
      | Some h \<Rightarrow>
          if j < 4 then
            (case hex_digit d of
               None \<Rightarrow> Some 0
             | Some l \<Rightarrow> hexa_loop (j + 1) (v[j := push_bit 4 h OR l]) s)
          else None)"

definition string_to_hexa :: "byte list \<Rightarrow> u32 option" where
  "string_to_hexa s = hexa_loop 0 [0, 0, 0, 0] s"

abbreviation blank_delims :: "byte list" where "blank_delims \<equiv> [0x20, 9, 10]"

text \<open>\<^verbatim>\<open>ipmrcache_gc\<close>: kernel cache entries without a route are removed; \<open>c\<close> is the scratch entry
  \<^verbatim>\<open>croute\<close>, whose fields survive from line to line.\<close>

fun gc_loop ::
  "proxy_conf \<Rightarrow> proxy_env \<Rightarrow> RouteTable list \<Rightarrow> RouteTable \<Rightarrow> byte list list \<Rightarrow> igmp_out list option" where
  "gc_loop pc env routes c [] = Some []"
| "gc_loop pc env routes c (buffer # ls) =
     (case strtok blank_delims buffer of
        None \<Rightarrow> gc_loop pc env routes c ls
      | Some (ptr, rest) \<Rightarrow> do {
          g \<leftarrow> string_to_hexa ptr;
          let c = c\<lparr>rt_group := g\<rparr>;
          if g = UPNP_MCAST_ADDR then gc_loop pc env routes c ls
          else if findRoute g routes \<noteq> None then gc_loop pc env routes c ls
          else case strtok blank_delims rest of
            None \<Rightarrow> gc_loop pc env routes c ls
          | Some (ptr, _) \<Rightarrow> do {
              origin \<leftarrow> string_to_hexa ptr;
              let c = c\<lparr>rt_originAddr := origin, rt_upstrState := ROUTESTATE_JOINED\<rparr>;
              let (c, out) = (case getIfByName (pe_wanif env) (pc_ifs pc) of
                    None \<Rightarrow> (c, [])
                  | Some Dp \<Rightarrow> let c = c\<lparr>rt_vifBits := if_index Dp\<rparr> in (c, internUpdateKernelRoute pc c False));
              (c, out') \<leftarrow> sendJoinLeaveUpstream pc c False;
              out'' \<leftarrow> gc_loop pc env routes c ls;
              Some (out @ out' @ out'')
            }
        })"

definition zero_route :: RouteTable where
  "zero_route = \<lparr>rt_group = 0, rt_originAddr = 0, rt_vifBits = 0, rt_upstrState = ROUTESTATE_NOTJOINED,
     rt_ageVifBits = 0, rt_ageValue = 0, rt_ageActivity = 0\<rparr>"

definition ipmrcache_gc :: "proxy_conf \<Rightarrow> proxy_env \<Rightarrow> RouteTable list \<Rightarrow> igmp_out list option" where
  "ipmrcache_gc pc env routes =
     (case pe_mr_cache env of None \<Rightarrow> Some [] | Some ls \<Rightarrow> gc_loop pc env routes zero_route ls)"

text \<open>The two loops of \<^verbatim>\<open>ageActiveRoutes\<close> visit the entries that are in the table when the loop
  starts, each by its group.\<close>

fun sweep_routes ::
  "proxy_conf \<Rightarrow> u32 list \<Rightarrow> mc_switch \<Rightarrow> RouteTable list
    \<Rightarrow> (mc_switch \<times> RouteTable list \<times> igmp_out list) option" where
  "sweep_routes pc [] sw routes = Some (sw, routes, [])"
| "sweep_routes pc (g # gs) sw routes =
     (case findRoute g routes of
        None \<Rightarrow> sweep_routes pc gs sw routes
      | Some croute \<Rightarrow>
          (case sweap_no_report_members (pc_wan_port pc) g sw of
             (sw, gone, out) \<Rightarrow> do {
               (routes, out') \<leftarrow> (if gone then removeRoute pc croute routes else Some (routes, []));
               (sw, routes, out'') \<leftarrow> sweep_routes pc gs sw routes;
               Some (sw, routes, out @ out' @ out'')
             }))"

fun age_routes ::
  "proxy_conf \<Rightarrow> u32 list \<Rightarrow> mc_switch \<Rightarrow> RouteTable list
    \<Rightarrow> (mc_switch \<times> RouteTable list \<times> igmp_out list) option" where
  "age_routes pc [] sw routes = Some (sw, routes, [])"
| "age_routes pc (g # gs) sw routes =
     (case findRoute g routes of
        None \<Rightarrow> age_routes pc gs sw routes
      | Some croute \<Rightarrow>
          if rt_upstrState croute \<noteq> ROUTESTATE_CHECK_LAST_MEMBER then do {
            (_, sw, routes, out) \<leftarrow> internAgeRoute pc croute sw routes;
            (sw, routes, out') \<leftarrow> age_routes pc gs sw routes;
            Some (sw, routes, out @ out')
          } else age_routes pc gs sw routes)"

definition ageActiveRoutes ::
  "proxy_conf \<Rightarrow> proxy_env \<Rightarrow> mc_switch \<Rightarrow> RouteTable list
    \<Rightarrow> (mc_switch \<times> RouteTable list \<times> igmp_out list) option" where
  "ageActiveRoutes pc env sw routes = do {
     (sw, routes, out) \<leftarrow> sweep_routes pc (map rt_group routes) sw routes;
     (sw, routes, out') \<leftarrow> age_routes pc (map rt_group routes) sw routes;
     out'' \<leftarrow> ipmrcache_gc pc env routes;
     Some (sw, routes, out @ out' @ out'')
   }"

definition setRouteLastMemberMode ::
  "proxy_conf \<Rightarrow> u32 \<Rightarrow> mc_switch \<Rightarrow> RouteTable list \<Rightarrow> (RouteTable list \<times> igmp_out list) option" where
  "setRouteLastMemberMode pc grp sw routes =
     (case findRoute grp routes of
        None \<Rightarrow> Some (routes, [])
      | Some croute \<Rightarrow> do {
          (croute, out) \<leftarrow>
            (if rt_upstrState croute = ROUTESTATE_JOINED \<and> cf_fastUpstreamLeave (pc_conf pc) \<and>
                all_member_leaved (ntohl grp) sw
             then sendJoinLeaveUpstream pc croute False else Some (croute, []));
          Some (put_route (croute\<lparr>rt_upstrState := ROUTESTATE_CHECK_LAST_MEMBER,
                   rt_ageValue := sint (cf_lastMemberQueryCount (pc_conf pc))\<rparr>) routes, out)
        })"

definition lastMemberGroupAge ::
  "proxy_conf \<Rightarrow> u32 \<Rightarrow> mc_switch \<Rightarrow> RouteTable list
    \<Rightarrow> (bool \<times> mc_switch \<times> RouteTable list \<times> igmp_out list) option" where
  "lastMemberGroupAge pc grp sw routes =
     (case findRoute grp routes of
        None \<Rightarrow> Some (False, sw, routes, [])
      | Some croute \<Rightarrow>
          if rt_upstrState croute = ROUTESTATE_CHECK_LAST_MEMBER then do {
            (result, sw, routes, out) \<leftarrow> internAgeRoute pc croute sw routes;
            Some (\<not> result, sw, routes, out)
          } else Some (False, sw, routes, []))"

subsection \<open>The table stays sorted, without duplicates and multicast only\<close>

definition routes_ok :: "RouteTable list \<Rightarrow> bool" where
  "routes_ok routes \<longleftrightarrow> sorted_wrt (<) (map rt_group routes) \<and>
     (\<forall>g \<in> set (map rt_group routes). IN_MULTICAST (ntohl g))"

lemma routes_ok_distinct: "routes_ok routes \<Longrightarrow> distinct (map rt_group routes)"
  by (simp add: routes_ok_def strict_sorted_iff)

lemma routes_ok_cong: "map rt_group rs = map rt_group rs' \<Longrightarrow> routes_ok rs = routes_ok rs'"
  by (simp add: routes_ok_def)

lemma update_first_map_same:
  "(\<And>x. P x \<Longrightarrow> h (f x) = h x) \<Longrightarrow> map h (update_first P f xs) = map h xs"
  by (induction xs) auto

lemma put_route_groups: "map rt_group (put_route r routes) = map rt_group routes"
  unfolding put_route_def by (rule update_first_map_same) simp

lemma put_route_ok [simp]: "routes_ok (put_route r routes) = routes_ok routes"
  by (rule routes_ok_cong) (rule put_route_groups)

lemma put_route_find:
  "findRoute g (put_route r routes) =
     (if g = rt_group r then map_option (\<lambda>_. r) (findRoute g routes) else findRoute g routes)"
  by (induction routes) (auto simp: findRoute_def put_route_def)

lemma findRoute_group: "findRoute g routes = Some r \<Longrightarrow> rt_group r = g \<and> r \<in> set routes"
  by (auto simp: findRoute_def find_Some_iff)

lemma findRoute_None: "findRoute g routes = None \<longleftrightarrow> g \<notin> set (map rt_group routes)"
  by (auto simp: findRoute_def find_None_iff)

lemma insert_after_groups:
  "rs \<noteq> [] \<Longrightarrow> set (map rt_group (insert_after new rs)) = insert (rt_group new) (set (map rt_group rs)) \<and>
   hd (insert_after new rs) = hd rs"
  by (induction new rs rule: insert_after.induct) auto

lemma insert_after_sorted:
  "\<lbrakk>rs \<noteq> []; sorted_wrt (<) (map rt_group rs); rt_group (hd rs) < rt_group new;
    rt_group new \<notin> set (map rt_group rs)\<rbrakk> \<Longrightarrow>
   sorted_wrt (<) (map rt_group (insert_after new rs))"
proof (induction new rs rule: insert_after.induct)
  case (3 new c n rs)
  show ?case
  proof (cases "rt_group n > rt_group new")
    case True
    then show ?thesis using "3.prems" by (auto dest: order.strict_trans)
  next
    case False
    then have "rt_group n < rt_group new" using "3.prems" by (auto simp: not_less order_less_le)
    then have "sorted_wrt (<) (map rt_group (insert_after new (n # rs)))"
      using "3.IH" [OF False] "3.prems" by simp
    moreover have "set (map rt_group (insert_after new (n # rs))) =
        insert (rt_group new) (set (map rt_group (n # rs)))"
      using insert_after_groups [of "n # rs" new] by simp
    ultimately show ?thesis
      using False "3.prems" by (auto simp del: insert_after.simps simp: insert_after.simps(3))
  qed
qed auto

lemma link_route_ok:
  assumes "routes_ok routes" and "findRoute (rt_group new) routes = None"
    and "IN_MULTICAST (ntohl (rt_group new))"
  shows "routes_ok (link_route new routes) \<and>
    set (map rt_group (link_route new routes)) = insert (rt_group new) (set (map rt_group routes))"
proof (cases routes)
  case (Cons r rs)
  have n: "rt_group new \<notin> set (map rt_group routes)"
    using assms(2) by (simp only: findRoute_None not_False_eq_True)
  show ?thesis
  proof (cases "rt_group r > rt_group new")
    case True
    then show ?thesis
      using assms Cons by (auto simp: link_route_def routes_ok_def dest: order.strict_trans)
  next
    case False
    then have "rt_group r < rt_group new"
      using n Cons by (auto simp: not_less order_less_le)
    then show ?thesis
      using assms n Cons False insert_after_sorted [of routes new] insert_after_groups [of routes new]
      by (simp add: link_route_def routes_ok_def)
  qed
qed (use assms in \<open>simp add: link_route_def routes_ok_def\<close>)

lemma sendJoinLeaveUpstream_group:
  "sendJoinLeaveUpstream pc r join = Some (r', out) \<Longrightarrow> rt_group r' = rt_group r"
  by (auto simp: sendJoinLeaveUpstream_def split: if_splits Option.bind_splits)

lemma join_route_result:
  assumes "join_route pc r routes out = Some (ok, routes', out')"
  obtains r' where "rt_group r' = rt_group r" "routes' = put_route r' routes" "ok"
  using assms sendJoinLeaveUpstream_group [of pc r True]
  by (auto simp: join_route_def split: if_splits Option.bind_splits)

lemma new_route_group [simp]: "rt_group (new_route pc g ifx) = g"
  by (simp add: new_route_def)

lemma hear_vif_group [simp]: "rt_group (hear_vif ifx r) = rt_group r"
  by (simp add: hear_vif_def)

lemma insertRoute_ok:
  assumes "insertRoute pc g ifx routes = Some (ok, routes', out)" and "routes_ok routes"
  shows "routes_ok routes'"
proof (cases "IN_MULTICAST (ntohl g) \<and> ifx < int MAX_MC_VIFS")
  case True
  show ?thesis
  proof (cases "findRoute g routes")
    case None
    obtain r out1 where j: "join_route pc r (link_route (new_route pc g ifx) routes) out1 =
        Some (ok, routes', out)"
      using assms(1) True None by (auto simp: insertRoute_def Let_def split: if_splits)
    have "routes_ok (link_route (new_route pc g ifx) routes)"
      using link_route_ok [OF assms(2), of "new_route pc g ifx"] None True by simp
    with j show ?thesis by (metis join_route_result put_route_ok)
  next
    case (Some c)
    then obtain r out1 where "join_route pc r routes out1 = Some (ok, routes', out)"
      using assms(1) True by (auto simp: insertRoute_def Let_def split: if_splits)
    with assms(2) show ?thesis by (metis join_route_result put_route_ok)
  qed
qed (use assms in \<open>auto simp: insertRoute_def split: if_splits\<close>)

lemma sorted_wrt_remove_first:
  "sorted_wrt (<) (map h xs) \<Longrightarrow> sorted_wrt (<) (map h (remove_first P xs))"
  using set_remove_first(1) by (induction xs) fastforce+

lemma removeRoute_result:
  assumes "removeRoute pc r routes = Some (routes', out)"
  shows "routes' = remove_first (\<lambda>x. rt_group x = rt_group r) routes"
  using assms by (auto simp: removeRoute_def Let_def split: Option.bind_splits)

lemma removeRoute_ok:
  "\<lbrakk>removeRoute pc r routes = Some (routes', out); routes_ok routes\<rbrakk> \<Longrightarrow> routes_ok routes'"
  using sorted_wrt_remove_first [of rt_group routes] set_remove_first(1) [of _ routes]
  by (fastforce dest!: removeRoute_result simp: routes_ok_def)

lemma age_activity_group [simp]: "rt_group (age_activity pc r) = rt_group r"
  by (simp add: age_activity_def Let_def)

lemma age_activity_state [simp]: "rt_upstrState (age_activity pc r) = rt_upstrState r"
  by (simp add: age_activity_def Let_def)

definition aged :: "proxy_conf \<Rightarrow> RouteTable \<Rightarrow> RouteTable" where
  "aged pc r =
     (let r = age_activity pc r;
          r = (if rt_ageValue r = 0 then r\<lparr>rt_ageValue := rt_ageActivity r, rt_ageActivity := 0\<rparr> else r)
      in r\<lparr>rt_ageVifBits := 0\<rparr>)"

lemma aged_group [simp]: "rt_group (aged pc r) = rt_group r" "rt_upstrState (aged pc r) = rt_upstrState r"
  by (simp_all add: aged_def Let_def)

lemma internAgeRoute_cases:
  assumes "internAgeRoute pc r sw routes = Some (res, sw', routes', out)"
  obtains (kept) "routes' = put_route (aged pc r) routes" "sw' = sw"
      "rt_ageValue (age_activity pc r) = 0 \<longrightarrow> rt_ageActivity (age_activity pc r) > 0"
  | (died) out' where "removeRoute pc (age_activity pc r) routes = Some (routes', out')"
      "sw' = fst (remove_multicast_ip (ntohl (rt_group r)) sw)" "res"
      "rt_ageValue (age_activity pc r) = 0"
      "out = snd (remove_multicast_ip (ntohl (rt_group r)) sw) @ out' @ [Ig_freed_write]"
proof (cases "rt_ageValue (age_activity pc r) = 0 \<and> \<not> rt_ageActivity (age_activity pc r) > 0")
  case True
  obtain sw1 o1 where m: "remove_multicast_ip (ntohl (rt_group r)) sw = (sw1, o1)" by force
  from True assms obtain o2 where "removeRoute pc (age_activity pc r) routes = Some (routes', o2)"
    "sw' = sw1" "res" "out = o1 @ o2 @ [Ig_freed_write]"
    by (auto simp: internAgeRoute_def Let_def m split: Option.bind_splits)
  with True show ?thesis
    by (intro died) (simp_all add: m)
next
  case False
  with assms show ?thesis
    by (intro kept) (auto simp: internAgeRoute_def Let_def aged_def split: if_splits)
qed

lemma internAgeRoute_ok:
  assumes "internAgeRoute pc r sw routes = Some (res, sw', routes', out)"
    and "routes_ok routes" and "switch_ok wan sw"
  shows "routes_ok routes' \<and> switch_ok wan sw'"
  using assms(1)
proof (cases rule: internAgeRoute_cases)
  case kept
  then show ?thesis using assms by simp
next
  case (died out')
  then show ?thesis
    using removeRoute_ok assms(2) remove_multicast_ip_spec [OF assms(3)] by blast
qed

lemma sweep_routes_ok:
  "\<lbrakk>sweep_routes pc gs sw routes = Some (sw', routes', out); routes_ok routes;
    switch_ok (pc_wan_port pc) sw\<rbrakk> \<Longrightarrow> routes_ok routes' \<and> switch_ok (pc_wan_port pc) sw'"
proof (induction pc gs sw routes arbitrary: out rule: sweep_routes.induct)
  case (2 pc g gs sw routes)
  show ?case
  proof (cases "findRoute g routes")
    case None
    then show ?thesis using 2 by simp
  next
    case (Some c)
    obtain sw1 gone o1 where s: "sweap_no_report_members (pc_wan_port pc) g sw = (sw1, gone, o1)"
      by (metis prod_cases3)
    obtain r1 o2 o3 where r: "(if gone then removeRoute pc c routes else Some (routes, [])) = Some (r1, o2)"
      and t: "sweep_routes pc gs sw1 r1 = Some (sw', routes', o3)"
      using "2.prems"(1) Some s by (auto split: Option.bind_splits)
    have "routes_ok r1"
      using r "2.prems"(2) removeRoute_ok by (auto split: if_splits)
    moreover have "switch_ok (pc_wan_port pc) sw1"
      by (rule sweap_no_report_members_spec(1) [OF s "2.prems"(3)])
    ultimately show ?thesis
      using "2.IH"(2) [OF Some s [symmetric] refl r refl t] by simp
  qed
qed simp

lemma age_routes_ok:
  "\<lbrakk>age_routes pc gs sw routes = Some (sw', routes', out); routes_ok routes; switch_ok wan sw\<rbrakk> \<Longrightarrow>
   routes_ok routes' \<and> switch_ok wan sw'"
proof (induction gs arbitrary: sw routes out)
  case (Cons g gs)
  show ?case
  proof (cases "findRoute g routes")
    case None
    then show ?thesis using Cons by simp
  next
    case (Some c)
    show ?thesis
    proof (cases "rt_upstrState c = ROUTESTATE_CHECK_LAST_MEMBER")
      case False
      then obtain res sw1 r1 o1 o2 where i: "internAgeRoute pc c sw routes = Some (res, sw1, r1, o1)"
        and t: "age_routes pc gs sw1 r1 = Some (sw', routes', o2)"
        using Cons.prems(1) Some by (auto split: Option.bind_splits)
      show ?thesis
        using Cons.IH [OF t] internAgeRoute_ok [OF i Cons.prems(2,3)] by blast
    qed (use Cons Some in simp)
  qed
qed simp

lemma ageActiveRoutes_ok:
  assumes "ageActiveRoutes pc env sw routes = Some (sw', routes', out)" and "routes_ok routes"
    and "switch_ok (pc_wan_port pc) sw"
  shows "routes_ok routes' \<and> switch_ok (pc_wan_port pc) sw'"
proof -
  obtain sw1 r1 o1 o2 where s: "sweep_routes pc (map rt_group routes) sw routes = Some (sw1, r1, o1)"
    and a: "age_routes pc (map rt_group r1) sw1 r1 = Some (sw', routes', o2)"
    using assms(1) by (auto simp: ageActiveRoutes_def split: Option.bind_splits)
  show ?thesis
    using sweep_routes_ok [OF s assms(2,3)] age_routes_ok [OF a] by blast
qed

lemma setRouteLastMemberMode_ok:
  "\<lbrakk>setRouteLastMemberMode pc g sw routes = Some (routes', out); routes_ok routes\<rbrakk> \<Longrightarrow> routes_ok routes'"
  by (auto simp: setRouteLastMemberMode_def split: option.splits if_splits Option.bind_splits)

lemma lastMemberGroupAge_ok:
  assumes "lastMemberGroupAge pc g sw routes = Some (res, sw', routes', out)" and "routes_ok routes"
    and "switch_ok wan sw"
  shows "routes_ok routes' \<and> switch_ok wan sw'"
  using assms internAgeRoute_ok [OF _ assms(2,3)]
  by (auto simp: lastMemberGroupAge_def split: option.splits if_splits Option.bind_splits)

lemma activateRoute_ok:
  assumes "activateRoute pc g o' routes = Some (res, routes', out)" and "routes_ok routes"
  shows "routes_ok routes'"
  using assms insertRoute_ok [OF _ assms(2), of pc g "- 1"]
  by (auto simp: activateRoute_def Let_def split: option.splits if_splits Option.bind_splits)

subsection \<open>With an upstream interface nothing can go wrong\<close>

lemma sendJoinLeaveUpstream_defined:
  "upstream_if pc = Some d \<Longrightarrow> \<exists>r' out. sendJoinLeaveUpstream pc r join = Some (r', out)"
  by (simp add: sendJoinLeaveUpstream_def)

lemma removeRoute_defined:
  "upstream_if pc = Some d \<Longrightarrow> \<exists>routes' out. removeRoute pc r routes = Some (routes', out)"
  using sendJoinLeaveUpstream_defined [of pc d r False] by (auto simp: removeRoute_def Let_def)

lemma join_route_defined:
  "upstream_if pc = Some d \<Longrightarrow> \<exists>ok routes' out'. join_route pc r routes out = Some (ok, routes', out')"
  using sendJoinLeaveUpstream_defined [of pc d r True] by (auto simp: join_route_def)

lemma insertRoute_defined:
  "upstream_if pc = Some d \<Longrightarrow> \<exists>ok routes' out. insertRoute pc g ifx routes = Some (ok, routes', out)"
  by (auto simp: insertRoute_def join_route_defined Let_def split: option.split)

lemma internAgeRoute_defined:
  "upstream_if pc = Some d \<Longrightarrow>
   \<exists>res sw' routes' out. internAgeRoute pc r sw routes = Some (res, sw', routes', out)"
  using removeRoute_defined [of pc d "age_activity pc r" routes]
  by (auto simp: internAgeRoute_def Let_def split: prod.split)

lemma sweep_routes_defined:
  assumes "upstream_if pc = Some d"
  shows "\<exists>sw' routes' out. sweep_routes pc gs sw routes = Some (sw', routes', out)"
proof (induction gs arbitrary: sw routes)
  case (Cons g gs)
  show ?case
  proof (cases "findRoute g routes")
    case (Some c)
    obtain sw1 gone o1 where s: "sweap_no_report_members (pc_wan_port pc) g sw = (sw1, gone, o1)"
      by (metis prod_cases3)
    obtain r1 o2 where "(if gone then removeRoute pc c routes else Some (routes, [])) = Some (r1, o2)"
      using removeRoute_defined [OF assms, of c routes] by (cases gone) auto
    moreover obtain sw2 r2 o3 where "sweep_routes pc gs sw1 r1 = Some (sw2, r2, o3)"
      using Cons.IH by blast
    ultimately show ?thesis by (simp add: Some s)
  qed (use Cons.IH in simp)
qed simp

lemma age_routes_defined:
  assumes "upstream_if pc = Some d"
  shows "\<exists>sw' routes' out. age_routes pc gs sw routes = Some (sw', routes', out)"
proof (induction gs arbitrary: sw routes)
  case (Cons g gs)
  show ?case
  proof (cases "findRoute g routes")
    case (Some c)
    obtain res sw1 r1 o1 where "internAgeRoute pc c sw routes = Some (res, sw1, r1, o1)"
      using internAgeRoute_defined [OF assms] by blast
    moreover obtain sw2 r2 o2 where "age_routes pc gs sw1 r1 = Some (sw2, r2, o2)"
      using Cons.IH by blast
    ultimately show ?thesis using Cons.IH by (simp add: Some)
  qed (use Cons.IH in simp)
qed simp

text \<open>The kernel's list of cache entries is usable when the first two words of its lines, the group and
  the origin, have at most the eight hexadecimal digits that the kernel prints (the words of the
  headline are shorter).\<close>

definition cache_line_ok :: "byte list \<Rightarrow> bool" where
  "cache_line_ok l = (case strtok blank_delims l of
     None \<Rightarrow> True
   | Some (g, rest) \<Rightarrow> length g \<le> 8 \<and>
       (case strtok blank_delims rest of None \<Rightarrow> True | Some (org, _) \<Rightarrow> length org \<le> 8))"

definition cache_ok :: "proxy_env \<Rightarrow> bool" where
  "cache_ok env = (case pe_mr_cache env of None \<Rightarrow> True | Some ls \<Rightarrow> list_all cache_line_ok ls)"

lemma hexa_loop_defined: "length s \<le> 2 * (4 - j) \<Longrightarrow> hexa_loop j v s \<noteq> None"
  by (induction j v s rule: hexa_loop.induct) (auto split: option.splits)

lemma string_to_hexa_defined: "length s \<le> 8 \<Longrightarrow> \<exists>g. string_to_hexa s = Some g"
  using hexa_loop_defined [of s 0] by (simp add: string_to_hexa_def)

lemma gc_loop_defined:
  assumes "upstream_if pc = Some d" and "list_all cache_line_ok ls"
  shows "\<exists>out. gc_loop pc env routes c ls = Some out"
  using assms(2)
proof (induction ls arbitrary: c)
  case (Cons l ls)
  have IH: "\<exists>out. gc_loop pc env routes c' ls = Some out" for c'
    using Cons by simp
  show ?case
  proof (cases "strtok blank_delims l")
    case (Some w)
    obtain p rest where w: "w = (p, rest)" by fastforce
    then obtain g where g: "string_to_hexa p = Some g"
      using Cons.prems Some string_to_hexa_defined by (auto simp: cache_line_ok_def)
    show ?thesis
    proof (cases "g = UPNP_MCAST_ADDR \<or> findRoute g routes \<noteq> None \<or> strtok blank_delims rest = None")
      case True
      then show ?thesis using Some w g IH by (auto simp: Let_def)
    next
      case False
      then obtain q rest' where q: "strtok blank_delims rest = Some (q, rest')" by auto
      then obtain org where org: "string_to_hexa q = Some org"
        using Cons.prems Some w string_to_hexa_defined by (auto simp: cache_line_ok_def)
      have "\<exists>c'' out. sendJoinLeaveUpstream pc c' False = Some (c'', out)" for c'
        using sendJoinLeaveUpstream_defined [OF assms(1)] by blast
      with IH have k: "\<exists>out. (do {
          (c, o') \<leftarrow> sendJoinLeaveUpstream pc c' False;
          o'' \<leftarrow> gc_loop pc env routes c ls;
          Some (o1 @ o' @ o'')
        }) = Some out" for c' o1
        by (metis (no_types, lifting) bind.bind_lunit case_prod_conv)
      show ?thesis
        using False Some w g q org k by (simp add: Let_def split: prod.split option.split)
    qed
  qed (use IH in simp)
qed simp

lemma ageActiveRoutes_defined:
  assumes "upstream_if pc = Some d" and "cache_ok env"
  shows "\<exists>sw' routes' out. ageActiveRoutes pc env sw routes = Some (sw', routes', out)"
proof -
  obtain sw1 r1 o1 where "sweep_routes pc (map rt_group routes) sw routes = Some (sw1, r1, o1)"
    using sweep_routes_defined [OF assms(1)] by blast
  moreover obtain sw2 r2 o2 where "age_routes pc (map rt_group r1) sw1 r1 = Some (sw2, r2, o2)"
    using age_routes_defined [OF assms(1)] by blast
  moreover have "\<exists>o3. ipmrcache_gc pc env r2 = Some o3"
    using assms(2) gc_loop_defined [OF assms(1)]
    by (cases "pe_mr_cache env") (simp_all add: ipmrcache_gc_def cache_ok_def)
  ultimately show ?thesis
    by (auto simp: ageActiveRoutes_def)
qed

subsection \<open>A group that nobody reports dies\<close>

lemma findRoute_remove:
  assumes "routes_ok routes"
  shows "findRoute g (remove_first (\<lambda>x. rt_group x = h) routes) = (if g = h then None else findRoute g routes)"
  unfolding remove_first_filter [OF routes_ok_distinct [OF assms]]
  by (induction routes) (auto simp: findRoute_def)

lemma removeRoute_find:
  assumes "removeRoute pc c routes = Some (routes', out)" and "routes_ok routes"
  shows "findRoute g routes' = (if g = rt_group c then None else findRoute g routes)"
  unfolding removeRoute_result [OF assms(1)] by (rule findRoute_remove [OF assms(2)])

lemma removeRoute_leaves:
  "\<lbrakk>removeRoute pc c routes = Some (routes', out); rt_upstrState c = ROUTESTATE_JOINED;
    upstream_if pc = Some d\<rbrakk> \<Longrightarrow>
   Ig_leave (rt_group c) (if_InAdr d) \<in> set out \<and> Ipt_delete (if_Name d) (rt_group c) \<in> set out"
  by (auto simp: removeRoute_def sendJoinLeaveUpstream_def joinleave_def)

lemma internAgeRoute_other:
  assumes "internAgeRoute pc c sw routes = Some (res, sw', routes', out)" and "routes_ok routes"
    and "rt_group c \<noteq> g"
  shows "findRoute g routes' = findRoute g routes"
  using assms(1)
proof (cases rule: internAgeRoute_cases)
  case kept
  then show ?thesis using assms(3) by (auto simp: put_route_find)
next
  case (died out')
  then show ?thesis using removeRoute_find [OF died(1) assms(2)] assms(3) by auto
qed

lemma age_routes_notin:
  "\<lbrakk>age_routes pc gs sw routes = Some (sw', routes', out); routes_ok routes; g \<notin> set gs\<rbrakk> \<Longrightarrow>
   findRoute g routes' = findRoute g routes"
proof (induction gs arbitrary: sw routes out)
  case (Cons h gs)
  show ?case
  proof (cases "findRoute h routes")
    case None
    then show ?thesis using Cons by simp
  next
    case (Some c)
    show ?thesis
    proof (cases "rt_upstrState c = ROUTESTATE_CHECK_LAST_MEMBER")
      case False
      then obtain res sw1 r1 o1 o2 where i: "internAgeRoute pc c sw routes = Some (res, sw1, r1, o1)"
        and t: "age_routes pc gs sw1 r1 = Some (sw', routes', o2)"
        using Cons.prems(1) Some by (auto split: Option.bind_splits)
      have "routes_ok r1"
        using i Cons.prems(2) removeRoute_ok by (cases rule: internAgeRoute_cases) auto
      moreover have "findRoute g r1 = findRoute g routes"
        using internAgeRoute_other [OF i Cons.prems(2), of g] findRoute_group [OF Some] Cons.prems(3) by auto
      ultimately show ?thesis
        using Cons.IH [OF t] Cons.prems(3) by simp
    qed (use Cons Some in simp)
  qed
qed simp

definition idle :: "int \<Rightarrow> RouteTable \<Rightarrow> bool" where
  "idle n r \<longleftrightarrow> rt_ageValue r = n \<and> rt_ageVifBits r = 0 \<and> rt_ageActivity r = 0 \<and>
     rt_upstrState r \<noteq> ROUTESTATE_CHECK_LAST_MEMBER"

definition gone_clean :: "IfDesc \<Rightarrow> RouteTable \<Rightarrow> RouteTable list \<Rightarrow> igmp_out list \<Rightarrow> bool" where
  "gone_clean d r routes out \<longleftrightarrow> findRoute (rt_group r) routes = None \<and>
     (rt_upstrState r = ROUTESTATE_JOINED \<longrightarrow> Ig_leave (rt_group r) (if_InAdr d) \<in> set out)"

lemma gone_clean_mono: "gone_clean d r routes out \<Longrightarrow> gone_clean d r routes (o1 @ out @ o2)"
  by (auto simp: gone_clean_def)

lemma age_activity_idle: "idle n r \<Longrightarrow> age_activity pc r = r\<lparr>rt_ageValue := n - 1\<rparr>"
  by (simp add: idle_def age_activity_def Let_def)

lemma internAgeRoute_idle:
  assumes "internAgeRoute pc r sw routes = Some (res, sw', routes', out)" and "routes_ok routes"
    and "idle n r" and "findRoute g routes = Some r" and "upstream_if pc = Some d"
  shows "if n = 1 then gone_clean d r routes' out
    else findRoute g routes' = Some (r\<lparr>rt_ageValue := n - 1\<rparr>)"
  using assms(1)
proof (cases rule: internAgeRoute_cases)
  case kept
  have n: "n \<noteq> 1"
    using kept(3) age_activity_idle [OF assms(3), of pc] assms(3) by (auto simp: idle_def)
  have "aged pc r = r\<lparr>rt_ageValue := n - 1\<rparr>"
    using n assms(3) age_activity_idle [OF assms(3), of pc] by (simp add: aged_def Let_def idle_def)
  then show ?thesis
    using kept n findRoute_group [OF assms(4)] assms(4) by (simp add: put_route_find)
next
  case (died out')
  let ?r = "age_activity pc r"
  have n: "n = 1"
    using died(4) age_activity_idle [OF assms(3), of pc] by simp
  have "findRoute (rt_group r) routes' = None"
    using removeRoute_find [OF died(1) assms(2), of "rt_group r"] by simp
  moreover have "rt_upstrState r = ROUTESTATE_JOINED \<longrightarrow> Ig_leave (rt_group r) (if_InAdr d) \<in> set out'"
    using removeRoute_leaves [OF died(1) _ assms(5)] by simp
  ultimately have "gone_clean d r routes' out'" by (simp add: gone_clean_def)
  from gone_clean_mono [OF this] show ?thesis
    unfolding died(5) using n by simp
qed

lemma age_routes_idle:
  "\<lbrakk>age_routes pc gs sw routes = Some (sw', routes', out); routes_ok routes; distinct gs; g \<in> set gs;
    findRoute g routes = Some r; idle n r; upstream_if pc = Some d\<rbrakk> \<Longrightarrow>
   if n = 1 then gone_clean d r routes' out else findRoute g routes' = Some (r\<lparr>rt_ageValue := n - 1\<rparr>)"
proof (induction gs arbitrary: sw routes out)
  case (Cons h gs)
  show ?case
  proof (cases "findRoute h routes")
    case None
    then show ?thesis using Cons by auto
  next
    case (Some c)
    show ?thesis
    proof (cases "rt_upstrState c = ROUTESTATE_CHECK_LAST_MEMBER")
      case True
      then have "h \<noteq> g" using Some Cons.prems by (auto simp: idle_def)
      then show ?thesis using Cons True Some by auto
    next
      case False
      then obtain res sw1 r1 o1 o2 where i: "internAgeRoute pc c sw routes = Some (res, sw1, r1, o1)"
        and t: "age_routes pc gs sw1 r1 = Some (sw', routes', o2)" and o: "out = o1 @ o2"
        using Cons.prems(1) Some by (auto split: Option.bind_splits)
      have ok: "routes_ok r1"
        using i Cons.prems(2) removeRoute_ok by (cases rule: internAgeRoute_cases) auto
      show ?thesis
      proof (cases "h = g")
        case True
        then have c: "c = r" using Some Cons.prems(5) by simp
        have g: "g \<notin> set gs" using True Cons.prems(3) by simp
        have "findRoute (rt_group r) routes' = findRoute (rt_group r) r1"
          using age_routes_notin [OF t ok g] findRoute_group [OF Cons.prems(5)] by simp
        then show ?thesis
          using internAgeRoute_idle [OF i [unfolded c] Cons.prems(2,6,5,7)] o
            findRoute_group [OF Cons.prems(5)] by (auto simp: gone_clean_def split: if_splits)
      next
        case False
        have "findRoute g r1 = Some r"
          using internAgeRoute_other [OF i Cons.prems(2), of g] findRoute_group [OF Some] False
            Cons.prems(5) by simp
        then have "if n = 1 then gone_clean d r routes' o2
            else findRoute g routes' = Some (r\<lparr>rt_ageValue := n - 1\<rparr>)"
          using Cons.IH [OF t ok] Cons.prems False by simp
        then show ?thesis
          using o gone_clean_mono [of d r routes' o2 o1 "[]"] by (simp split: if_splits)
      qed
    qed
  qed
qed simp

lemma sweep_routes_absent:
  "\<lbrakk>sweep_routes pc gs sw routes = Some (sw', routes', out); routes_ok routes;
    findRoute g routes = None\<rbrakk> \<Longrightarrow> findRoute g routes' = None"
proof (induction gs arbitrary: sw routes out)
  case (Cons h gs)
  show ?case
  proof (cases "findRoute h routes")
    case (Some c)
    then obtain sw1 gone o1 r1 o2 o3 where
      r: "(if gone then removeRoute pc c routes else Some (routes, [])) = Some (r1, o2)"
      and t: "sweep_routes pc gs sw1 r1 = Some (sw', routes', o3)"
      using Cons.prems(1) by (auto split: Option.bind_splits prod.splits)
    have "routes_ok r1" "findRoute g r1 = None"
      using r Cons.prems(2,3) removeRoute_ok removeRoute_find [of pc c routes r1 o2 g]
      by (auto split: if_splits)
    then show ?thesis using Cons.IH [OF t] by simp
  qed (use Cons in auto)
qed simp

lemma sweep_routes_find:
  "\<lbrakk>sweep_routes pc gs sw routes = Some (sw', routes', out); routes_ok routes;
    findRoute g routes = Some r; upstream_if pc = Some d\<rbrakk> \<Longrightarrow>
   findRoute g routes' = Some r \<or> gone_clean d r routes' out"
proof (induction gs arbitrary: sw routes out)
  case (Cons h gs)
  show ?case
  proof (cases "findRoute h routes")
    case (Some c)
    then obtain sw1 gone o1 r1 o2 o3 where
      r: "(if gone then removeRoute pc c routes else Some (routes, [])) = Some (r1, o2)"
      and t: "sweep_routes pc gs sw1 r1 = Some (sw', routes', o3)" and o: "out = o1 @ o2 @ o3"
      using Cons.prems(1) by (auto split: Option.bind_splits prod.splits)
    have ok: "routes_ok r1"
      using r Cons.prems(2) removeRoute_ok by (auto split: if_splits)
    show ?thesis
    proof (cases "gone \<and> h = g")
      case True
      then have c: "c = r" and x: "removeRoute pc r routes = Some (r1, o2)"
        using Some Cons.prems(3) r by auto
      have "findRoute (rt_group r) r1 = None"
        using removeRoute_find [OF x Cons.prems(2)] by simp
      then have "findRoute (rt_group r) routes' = None"
        by (rule sweep_routes_absent [OF t ok])
      then show ?thesis
        using removeRoute_leaves [OF x _ Cons.prems(4)] by (auto simp: gone_clean_def o)
    next
      case False
      then have "findRoute g r1 = Some r"
        using r Cons.prems(2,3) removeRoute_find [of pc c routes r1 o2 g] findRoute_group [OF Some]
        by (auto split: if_splits)
      then show ?thesis
        using Cons.IH [OF t ok _ Cons.prems(4)] gone_clean_mono [of d r routes' o3 "o1 @ o2" "[]"]
        by (auto simp: o)
    qed
  qed (use Cons in auto)
qed simp

lemma age_routes_absent:
  "\<lbrakk>age_routes pc gs sw routes = Some (sw', routes', out); routes_ok routes;
    findRoute g routes = None\<rbrakk> \<Longrightarrow> findRoute g routes' = None"
proof (induction gs arbitrary: sw routes out)
  case (Cons h gs)
  show ?case
  proof (cases "findRoute h routes = None \<or> rt_upstrState (the (findRoute h routes)) = ROUTESTATE_CHECK_LAST_MEMBER")
    case True
    then show ?thesis using Cons by (cases "findRoute h routes") auto
  next
    case False
    then obtain c res sw1 r1 o1 o2 where c: "findRoute h routes = Some c"
      and i: "internAgeRoute pc c sw routes = Some (res, sw1, r1, o1)"
      and t: "age_routes pc gs sw1 r1 = Some (sw', routes', o2)"
      using Cons.prems(1) by (auto split: Option.bind_splits)
    have "routes_ok r1"
      using i Cons.prems(2) removeRoute_ok by (cases rule: internAgeRoute_cases) auto
    moreover have "findRoute g r1 = None"
      using internAgeRoute_other [OF i Cons.prems(2), of g] c Cons.prems(3) findRoute_group [OF c]
      by (cases "rt_group c = g") auto
    ultimately show ?thesis using Cons.IH [OF t] by simp
  qed
qed simp

lemma ageActiveRoutes_parts:
  assumes "ageActiveRoutes pc env sw routes = Some (sw', routes', out)"
  obtains sw1 r1 o1 o2 o3 where "sweep_routes pc (map rt_group routes) sw routes = Some (sw1, r1, o1)"
    and "age_routes pc (map rt_group r1) sw1 r1 = Some (sw', routes', o2)" and "out = o1 @ o2 @ o3"
  using assms by (auto simp: ageActiveRoutes_def split: Option.bind_splits)

lemma ageActiveRoutes_absent:
  assumes "ageActiveRoutes pc env sw routes = Some (sw', routes', out)" and "routes_ok routes"
    and "switch_ok (pc_wan_port pc) sw" and "findRoute g routes = None"
  shows "findRoute g routes' = None"
  by (rule ageActiveRoutes_parts [OF assms(1)])
    (metis age_routes_absent assms(2-4) sweep_routes_absent sweep_routes_ok)

lemma ageActiveRoutes_idle:
  assumes "ageActiveRoutes pc env sw routes = Some (sw', routes', out)" and "routes_ok routes"
    and "switch_ok (pc_wan_port pc) sw" and "findRoute g routes = Some r" and "idle n r"
    and "upstream_if pc = Some d"
  shows "gone_clean d r routes' out \<or> n \<noteq> 1 \<and> findRoute g routes' = Some (r\<lparr>rt_ageValue := n - 1\<rparr>)"
proof (rule ageActiveRoutes_parts [OF assms(1)])
  fix sw1 r1 o1 o2 o3
  assume s: "sweep_routes pc (map rt_group routes) sw routes = Some (sw1, r1, o1)"
    and a: "age_routes pc (map rt_group r1) sw1 r1 = Some (sw', routes', o2)" and o: "out = o1 @ o2 @ o3"
  have ok: "routes_ok r1" using sweep_routes_ok [OF s assms(2,3)] by simp
  have g: "rt_group r = g" using findRoute_group [OF assms(4)] by simp
  from sweep_routes_find [OF s assms(2,4,6)]
  show ?thesis
  proof
    assume f: "findRoute g r1 = Some r"
    have "g \<in> set (map rt_group r1)" using findRoute_group [OF f] by auto
    from age_routes_idle [OF a ok routes_ok_distinct [OF ok] this f assms(5,6)]
    show ?thesis
      using gone_clean_mono [of d r routes' o2 o1 o3] by (auto simp: o split: if_splits)
  next
    assume c: "gone_clean d r r1 o1"
    then have "findRoute (rt_group r) routes' = None"
      using age_routes_absent [OF a ok] by (simp add: gone_clean_def)
    with c show ?thesis by (auto simp: gone_clean_def o)
  qed
qed

fun age_rounds ::
  "proxy_conf \<Rightarrow> proxy_env list \<Rightarrow> mc_switch \<Rightarrow> RouteTable list
    \<Rightarrow> (mc_switch \<times> RouteTable list \<times> igmp_out list) option" where
  "age_rounds pc [] sw routes = Some (sw, routes, [])"
| "age_rounds pc (env # envs) sw routes = do {
     (sw, routes, out) \<leftarrow> ageActiveRoutes pc env sw routes;
     (sw, routes, out') \<leftarrow> age_rounds pc envs sw routes;
     Some (sw, routes, out @ out')
   }"

lemma age_rounds_absent:
  "\<lbrakk>routes_ok routes; switch_ok (pc_wan_port pc) sw; upstream_if pc = Some d;
    list_all cache_ok envs; findRoute g routes = None\<rbrakk> \<Longrightarrow>
   \<exists>sw' routes' out. age_rounds pc envs sw routes = Some (sw', routes', out) \<and> findRoute g routes' = None"
proof (induction envs arbitrary: sw routes)
  case (Cons env envs)
  then obtain sw1 r1 o1 where a: "ageActiveRoutes pc env sw routes = Some (sw1, r1, o1)"
    using ageActiveRoutes_defined [of pc d env sw routes] by auto
  then show ?case
    using Cons.IH [of r1 sw1] Cons.prems ageActiveRoutes_ok [OF a] ageActiveRoutes_absent [OF a] by auto
qed simp

subsection \<open>Properties\<close>

text \<open>C29: A group that is no longer reported dies: from a consistent state, when an entry of the table
  with a positive age value hears nothing, as many ageing rounds as its age value remove it,
  and if the group was joined upstream, a leave request has been sent.  Every round runs to its end, provided there is an upstream interface and the
  first two words of every line of the kernel's cache list have at most eight characters, as the
  kernel prints them.  Hearing nothing means that the entry's activity bits are clear, and its
  state is not that of a last-member check.\<close>

theorem silent_group_dies:
  assumes "routes_ok routes" and "switch_ok (pc_wan_port pc) sw" and "upstream_if pc = Some d"
    and "list_all cache_ok envs" and "findRoute g routes = Some r"
    and "rt_ageVifBits r = 0" and "rt_ageActivity r = 0"
    and "rt_upstrState r \<noteq> ROUTESTATE_CHECK_LAST_MEMBER"
    and "0 < rt_ageValue r" and "rt_ageValue r \<le> int (length envs)"
  shows "\<exists>sw' routes' out. age_rounds pc envs sw routes = Some (sw', routes', out) \<and>
    findRoute g routes' = None \<and>
    (rt_upstrState r = ROUTESTATE_JOINED \<longrightarrow> Ig_leave g (if_InAdr d) \<in> set out)"
  using assms
proof (induction envs arbitrary: sw routes r)
  case (Cons env envs)
  obtain sw1 r1 o1 where a: "ageActiveRoutes pc env sw routes = Some (sw1, r1, o1)"
    using ageActiveRoutes_defined [of pc d env sw routes] Cons.prems(3,4) by auto
  have ok: "routes_ok r1" "switch_ok (pc_wan_port pc) sw1"
    using ageActiveRoutes_ok [OF a Cons.prems(1,2)] by auto
  have g: "rt_group r = g" using findRoute_group [OF Cons.prems(5)] by simp
  have "idle (rt_ageValue r) r" using Cons.prems(6-8) by (simp add: idle_def)
  from ageActiveRoutes_idle [OF a Cons.prems(1,2,5) this Cons.prems(3)]
  show ?case
  proof
    assume c: "gone_clean d r r1 o1"
    then obtain sw2 r2 o2 where "age_rounds pc envs sw1 r1 = Some (sw2, r2, o2)" "findRoute g r2 = None"
      using age_rounds_absent [OF ok Cons.prems(3), of envs g] Cons.prems(4) g by (auto simp: gone_clean_def)
    then show ?thesis using c a g by (auto simp: gone_clean_def)
  next
    assume f: "rt_ageValue r \<noteq> 1 \<and> findRoute g r1 = Some (r\<lparr>rt_ageValue := rt_ageValue r - 1\<rparr>)"
    from Cons.IH [OF ok Cons.prems(3) _ conjunct2 [OF f]] Cons.prems(4,6-10) f
    obtain sw2 r2 o2 where "age_rounds pc envs sw1 r1 = Some (sw2, r2, o2)" "findRoute g r2 = None"
      "rt_upstrState r = ROUTESTATE_JOINED \<longrightarrow> Ig_leave g (if_InAdr d) \<in> set o2"
      by auto
    then show ?thesis using a by auto
  qed
qed simp

definition sample_if :: "string \<Rightarrow> u32 \<Rightarrow> if_state_t \<Rightarrow> u32 \<Rightarrow> subnet list \<Rightarrow> IfDesc" where
  "sample_if name a st i nets = \<lparr>if_Name = str name, if_InAdr = a, if_Flags = 0x1043, if_state = st,
     if_allowednets = nets, if_robustness = 5, if_threshold = 1, if_ratelimit = 0, if_index = i\<rparr>"

definition sample_wan :: IfDesc where
  "sample_wan = sample_if ''eth1'' 0x0202000a IF_STATE_UPSTREAM 0
     [\<lparr>subnet_addr = 0x0002000a, subnet_mask = 0x00ffffff\<rparr>, \<lparr>subnet_addr = 0, subnet_mask = 0\<rparr>]"

definition sample_lan :: IfDesc where
  "sample_lan = sample_if ''br0'' 0x0100a8c0 IF_STATE_DOWNSTREAM 1
     [\<lparr>subnet_addr = 0x0000a8c0, subnet_mask = 0x00ffffff\<rparr>]"

definition sample_config :: Config where
  "sample_config = \<lparr>cf_robustnessValue = 5, cf_queryInterval = 120, cf_queryResponseInterval = 5,
     cf_startupQueryInterval = 30, cf_lastMemberQueryInterval = 5, cf_lastMemberQueryCount = 5,
     cf_fastUpstreamLeave = True\<rparr>"

definition sample_pc :: proxy_conf where
  "sample_pc = \<lparr>pc_conf = sample_config, pc_ifs = [sample_wan, sample_lan], pc_upStreamVif = 0,
     pc_running = True, pc_wan_port = 0\<rparr>"

definition sample_penv :: proxy_env where
  "sample_penv = \<lparr>pe_wan_link = True, pe_port_of = (\<lambda>_. 2), pe_same_net = (\<lambda>_. False),
     pe_wanif = str ''eth1'', pe_mr_cache = None\<rparr>"

definition sample_cache_line :: "byte list" where
  "sample_cache_line = str ''e1020305 0a000105 0''"

definition sample_route :: RouteTable where
  "sample_route = \<lparr>rt_group = 0x040302e1, rt_originAddr = 0, rt_vifBits = 2,
     rt_upstrState = ROUTESTATE_JOINED, rt_ageVifBits = 0, rt_ageValue = 5, rt_ageActivity = 0\<rparr>"

lemma sample_upstream: "upstream_if sample_pc = Some sample_wan"
  by (simp add: upstream_if_def getIfByIx_def sample_pc_def)

lemma sample_group: "IN_MULTICAST (ntohl 0x040302e1)"
  by (simp add: IN_MULTICAST_def ntohl_def le32_def)

lemma sample_routes_ok: "routes_ok [sample_route]"
  using sample_group by (simp add: routes_ok_def sample_route_def)

theorem silent_group_dies_witness:
  "\<exists>sw' routes' out. age_rounds sample_pc (replicate 5 (sample_penv\<lparr>pe_mr_cache := Some [sample_cache_line]\<rparr>))
       sample_switch [sample_route] = Some (sw', routes', out) \<and> findRoute 0x040302e1 routes' = None \<and>
     Ig_leave 0x040302e1 (if_InAdr sample_wan) \<in> set out"
proof -
  have "cache_line_ok sample_cache_line" by code_simp
  then show ?thesis
    using silent_group_dies [OF sample_routes_ok sample_switch_ok sample_upstream,
        of "replicate 5 (sample_penv\<lparr>pe_mr_cache := Some [sample_cache_line]\<rparr>)" "0x040302e1" sample_route]
    by (simp add: list_all_iff cache_ok_def sample_route_def findRoute_def del: age_rounds.simps)
qed

text \<open>C31: Quick leave mode loses the upstream membership.  When one of several members of a joined
  group leaves, the entry is put into the last-member state without a leave request.  From then
  on the code takes the group for not joined: the next report joins it again and inserts its
  firewall rule a second time, and when the entry is removed instead, neither a leave request is
  sent nor the rule deleted.\<close>

theorem quick_leave_forgets_join:
  assumes "routes_ok routes" and "findRoute g routes = Some r" and "rt_upstrState r = ROUTESTATE_JOINED"
    and "cf_fastUpstreamLeave (pc_conf pc)" and "\<not> all_member_leaved (ntohl g) sw"
    and "upstream_if pc = Some d" and "0 \<le> ifx" and "ifx < 32"
  shows "\<exists>routes1 r1 routes2 out2 routes3 out3.
    setRouteLastMemberMode pc g sw routes = Some (routes1, []) \<and> findRoute g routes1 = Some r1 \<and>
    insertRoute pc g ifx routes1 = Some (True, routes2, out2) \<and>
      Ig_join g (if_InAdr d) \<in> set out2 \<and> Ipt_insert (if_Name d) g \<in> set out2 \<and>
    removeRoute pc r1 routes1 = Some (routes3, out3) \<and> findRoute g routes3 = None \<and>
      Ig_leave g (if_InAdr d) \<notin> set out3 \<and> Ipt_delete (if_Name d) g \<notin> set out3"
proof -
  let ?r = "r\<lparr>rt_upstrState := ROUTESTATE_CHECK_LAST_MEMBER,
    rt_ageValue := sint (cf_lastMemberQueryCount (pc_conf pc))\<rparr>"
  let ?routes = "put_route ?r routes"
  have g: "rt_group r = g" "IN_MULTICAST (ntohl g)"
    using findRoute_group [OF assms(2)] assms(1) by (auto simp: routes_ok_def)
  have s: "setRouteLastMemberMode pc g sw routes = Some (?routes, [])"
    using assms(2,5) by (simp add: setRouteLastMemberMode_def)
  have f: "findRoute g ?routes = Some ?r"
    using g(1) assms(2) by (simp add: put_route_find)
  have v: "rt_vifBits (hear_vif ifx ?r) > 0"
    using assms(7,8) port_bit_nonzero [of "nat ifx" "rt_vifBits ?r"]
    by (simp add: hear_vif_def BIT_SET_def word_gt_0)
  obtain routes2 out2 where i: "insertRoute pc g ifx ?routes = Some (True, routes2, out2)"
    "Ig_join g (if_InAdr d) \<in> set out2" "Ipt_insert (if_Name d) g \<in> set out2"
    using g f v assms(6-8)
    by (auto simp: insertRoute_def join_route_def sendJoinLeaveUpstream_def joinleave_def hear_vif_def)
  have "removeRoute pc ?r ?routes =
      Some (remove_first (\<lambda>x. rt_group x = rt_group r) ?routes, internUpdateKernelRoute pc ?r False)"
    using assms(4) by (simp add: removeRoute_def)
  moreover have "findRoute g (remove_first (\<lambda>x. rt_group x = rt_group r) ?routes) = None"
    using findRoute_remove [of ?routes g "rt_group r"] assms(1) g(1) by simp
  moreover have "Ig_leave g (if_InAdr d) \<notin> set (internUpdateKernelRoute pc ?r False)"
    "Ipt_delete (if_Name d) g \<notin> set (internUpdateKernelRoute pc ?r False)"
    by (simp_all add: internUpdateKernelRoute_def delMRoute_def Let_def)
  ultimately show ?thesis
    using s f i by blast
qed

definition sample_busy_switch :: mc_switch where
  "sample_busy_switch = sample_switch\<lparr>sw_groups := [\<lparr>g_a0 = 2, g_a1 = 2, g_a2 = 3, g_a3 = 4, g_port_map = 4,
     g_members = [\<lparr>gm_ip_addr = 0xc0a80005, gm_a0 = 2, gm_port_num = 2, gm_has_report = 10,
                    gm_sent_report = 0\<rparr>]\<rparr>]\<rparr>"

theorem quick_leave_forgets_join_witness:
  "\<exists>routes1 routes2 out2. setRouteLastMemberMode sample_pc 0x040302e1 sample_busy_switch [sample_route] =
     Some (routes1, []) \<and> insertRoute sample_pc 0x040302e1 1 routes1 = Some (True, routes2, out2) \<and>
     Ipt_insert (str ''eth1'') 0x040302e1 \<in> set out2"
proof -
  have "\<not> all_member_leaved (ntohl 0x040302e1) sample_busy_switch"
    by (simp add: all_member_leaved_def find_entry_def sample_busy_switch_def group_key_def key_of_def
        ntohl_def le32_def)
  then show ?thesis
    using quick_leave_forgets_join [OF sample_routes_ok _ _ _ _ sample_upstream,
        of "0x040302e1" sample_route sample_busy_switch 1]
    by (fastforce simp: findRoute_def sample_route_def sample_pc_def sample_config_def sample_wan_def
        sample_if_def)
qed

end
