(* ===== verification/Igmp_Callout.thy ===== *)
theory Igmp_Callout
  imports Prelude
begin

section \<open>The callout queue of the IGMP proxy\<close>

text \<open>
  \<^verbatim>\<open>igmpproxy/src/callout.c\<close> keeps the pending timeouts of the proxy in a delta list: every node
  stores the time that passes between its predecessor's expiry and its own.  The operations
  below are the functions of that file on a list of nodes; a node's \<^verbatim>\<open>func\<close> and \<^verbatim>\<open>data\<close> are one
  value, \<open>None\<close> for the null function.  \<^verbatim>\<open>age_callout_queue\<close> detaches the expired nodes before
  it calls their functions, so its model returns the functions in call order together with the
  queue they find; the proxy's own model runs them.  Times are mathematical integers: every
  difference the code forms lies between zero and the delay it was given.  The identifiers are
  mathematical integers too, while the counter of the code overflows after \<open>2 ^ 31\<close> timers, and the
  allocation of a node always succeeds.

  The interface is the locale \<open>timer_queue\<close>: a queue promises an agenda of absolute deadlines,
  and each operation is the obvious one on that agenda.  The consequences a caller relies on (a
  timer expires in the step in which its delay has passed, whatever is scheduled in between)
  are proved once in the locale, and the delta list is shown to keep the promise.
\<close>

subsection \<open>The data and the operations of callout.c\<close>

record 'f timeOutQueue =
  tm_id :: int
  tm_func :: "'f option"
  tm_time :: int

record 'f callouts =
  co_id :: int
  co_queue :: "'f timeOutQueue list"

definition callout_init :: "'f callouts \<Rightarrow> 'f callouts" where
  "callout_init c = c\<lparr>co_queue := []\<rparr>"

fun free_nodes :: "'f timeOutQueue list \<Rightarrow> 'f timeOutQueue list" where
  "free_nodes [] = []"
| "free_nodes (_ # q) = free_nodes q"

definition free_all_callouts :: "'f callouts \<Rightarrow> 'f callouts" where
  "free_all_callouts c = c\<lparr>co_queue := free_nodes (co_queue c)\<rparr>"

fun detach_expired ::
  "int \<Rightarrow> 'f timeOutQueue list \<Rightarrow> 'f timeOutQueue list \<times> 'f timeOutQueue list" where
  "detach_expired elapsed [] = ([], [])"
| "detach_expired elapsed (p # q) =
     (if tm_time p > elapsed then ([], p\<lparr>tm_time := tm_time p - elapsed\<rparr> # q)
      else case detach_expired (elapsed - tm_time p) q of (x, r) \<Rightarrow> (p # x, r))"

definition age_callout_queue :: "int \<Rightarrow> 'f callouts \<Rightarrow> 'f list \<times> 'f callouts" where
  "age_callout_queue elapsed c =
     (case detach_expired elapsed (co_queue c) of
        (x, r) \<Rightarrow> (List.map_filter tm_func x, c\<lparr>co_queue := r\<rparr>))"

definition timer_nextTimer :: "'f callouts \<Rightarrow> int" where
  "timer_nextTimer c =
     (case co_queue c of [] \<Rightarrow> - 1 | p # _ \<Rightarrow> if tm_time p < 0 then 0 else tm_time p)"

fun insert_node ::
  "'f timeOutQueue \<Rightarrow> int \<Rightarrow> 'f timeOutQueue list \<Rightarrow> 'f timeOutQueue list" where
  "insert_node node delay [] = [node\<lparr>tm_time := delay\<rparr>]"
| "insert_node node delay (p # q) =
     (if delay < tm_time p
      then node\<lparr>tm_time := delay\<rparr> # p\<lparr>tm_time := tm_time p - delay\<rparr> # q
      else p # insert_node node (delay - tm_time p) q)"

definition timer_setTimer :: "int \<Rightarrow> 'f option \<Rightarrow> 'f callouts \<Rightarrow> int \<times> 'f callouts" where
  "timer_setTimer delay action c =
     (let i = co_id c + 1;
          node = \<lparr>tm_id = i, tm_func = action, tm_time = delay\<rparr>
      in (i, \<lparr>co_id = i, co_queue = insert_node node delay (co_queue c)\<rparr>))"

fun left_loop :: "int \<Rightarrow> int \<Rightarrow> 'f timeOutQueue list \<Rightarrow> int" where
  "left_loop timer_id l [] = - 1"
| "left_loop timer_id l (p # q) =
     (if tm_id p = timer_id then l + tm_time p else left_loop timer_id (l + tm_time p) q)"

definition timer_leftTimer :: "int \<Rightarrow> 'f callouts \<Rightarrow> int" where
  "timer_leftTimer timer_id c = (if timer_id = 0 then - 1 else left_loop timer_id 0 (co_queue c))"

fun unlink_node :: "int \<Rightarrow> 'f timeOutQueue list \<Rightarrow> 'f timeOutQueue list option" where
  "unlink_node timer_id [] = None"
| "unlink_node timer_id (p # q) =
     (if tm_id p = timer_id
      then Some (case q of [] \<Rightarrow> [] | n # r \<Rightarrow> n\<lparr>tm_time := tm_time n + tm_time p\<rparr> # r)
      else map_option ((#) p) (unlink_node timer_id q))"

definition timer_clearTimer :: "int \<Rightarrow> 'f callouts \<Rightarrow> bool \<times> 'f callouts" where
  "timer_clearTimer timer_id c =
     (if timer_id = 0 then (False, c)
      else case unlink_node timer_id (co_queue c) of
             None \<Rightarrow> (False, c)
           | Some q \<Rightarrow> (True, c\<lparr>co_queue := q\<rparr>))"

subsection \<open>The contract: an agenda of absolute deadlines\<close>

type_synonym 'f agenda = "(int \<times> int \<times> 'f option) list"

abbreviation deadline :: "int \<times> int \<times> 'f option \<Rightarrow> int" where
  "deadline e \<equiv> fst (snd e)"

abbreviation action_of :: "int \<times> int \<times> 'f option \<Rightarrow> 'f option" where
  "action_of e \<equiv> snd (snd e)"

definition agenda_add :: "int \<Rightarrow> int \<Rightarrow> 'f option \<Rightarrow> 'f agenda \<Rightarrow> 'f agenda" where
  "agenda_add i d f A =
     takeWhile (\<lambda>e. deadline e \<le> d) A @ (i, d, f) # dropWhile (\<lambda>e. deadline e \<le> d) A"

definition agenda_due :: "int \<Rightarrow> 'f agenda \<Rightarrow> 'f agenda" where
  "agenda_due t A = takeWhile (\<lambda>e. deadline e \<le> t) A"

definition agenda_after :: "int \<Rightarrow> 'f agenda \<Rightarrow> 'f agenda" where
  "agenda_after t A =
     map (\<lambda>e. (fst e, deadline e - t, action_of e)) (dropWhile (\<lambda>e. deadline e \<le> t) A)"

definition agenda_del :: "int \<Rightarrow> 'f agenda \<Rightarrow> 'f agenda" where
  "agenda_del i A = filter (\<lambda>e. fst e \<noteq> i) A"

definition agenda_ok :: "'f agenda \<Rightarrow> bool" where
  "agenda_ok A \<longleftrightarrow> sorted (map deadline A) \<and> distinct (map fst A) \<and> (\<forall>e \<in> set A. 0 \<le> deadline e)"

lemma takeWhile_sorted_filter:
  "sorted (map g xs) \<Longrightarrow> takeWhile (\<lambda>x. g x \<le> t) xs = filter (\<lambda>x. g x \<le> (t :: int)) xs"
proof (induction xs)
  case (Cons x xs)
  then have "\<not> g x \<le> t \<Longrightarrow> filter (\<lambda>x. g x \<le> t) xs = []"
    by (fastforce simp: filter_empty_conv)
  with Cons show ?case by simp
qed simp

lemma dropWhile_sorted_filter:
  "sorted (map g xs) \<Longrightarrow> dropWhile (\<lambda>x. g x \<le> t) xs = filter (\<lambda>x. \<not> g x \<le> (t :: int)) xs"
proof (induction xs)
  case (Cons x xs)
  then have "\<not> g x \<le> t \<Longrightarrow> filter (\<lambda>x. \<not> g x \<le> t) xs = xs"
    by (fastforce simp: filter_id_conv)
  with Cons show ?case by simp
qed simp

lemma set_map_filter: "y \<in> set (List.map_filter g xs) \<longleftrightarrow> (\<exists>x \<in> set xs. g x = Some y)"
  by (induction xs) (auto simp: List.map_filter_simps split: option.splits)

lemma set_agenda_add: "set (agenda_add i d f A) = insert (i, d, f) (set A)"
  unfolding agenda_add_def
  by (metis (no_types, lifting) Un_insert_right list.simps(15) set_append takeWhile_dropWhile_id)

lemma agenda_due_set:
  "agenda_ok A \<Longrightarrow> e \<in> set (agenda_due t A) \<longleftrightarrow> e \<in> set A \<and> deadline e \<le> t"
  by (simp add: agenda_ok_def agenda_due_def takeWhile_sorted_filter)

lemma agenda_after_set:
  "agenda_ok A \<Longrightarrow> (i, d, f) \<in> set (agenda_after t A) \<longleftrightarrow> (i, d + t, f) \<in> set A \<and> 0 < d"
  by (force simp: agenda_ok_def agenda_after_def dropWhile_sorted_filter image_iff)

text \<open>What a caller does with a queue, and what it sees of it.\<close>

datatype 'f timer_op = Op_set int "'f option" | Op_age int

fun elapsed_by :: "'f timer_op list \<Rightarrow> int" where
  "elapsed_by [] = 0"
| "elapsed_by (Op_set _ _ # ops) = elapsed_by ops"
| "elapsed_by (Op_age t # ops) = t + elapsed_by ops"

fun op_ok :: "'f timer_op \<Rightarrow> bool" where
  "op_ok (Op_set d _) \<longleftrightarrow> 0 \<le> d"
| "op_ok (Op_age t) \<longleftrightarrow> 0 \<le> t"

lemma elapsed_by_nonneg: "list_all op_ok ops \<Longrightarrow> 0 \<le> elapsed_by ops"
  by (induction ops rule: elapsed_by.induct) auto

fun run_ops ::
  "(int \<Rightarrow> 'f option \<Rightarrow> 'q \<Rightarrow> 'q) \<Rightarrow> (int \<Rightarrow> 'q \<Rightarrow> 'f list \<times> 'q) \<Rightarrow> 'f timer_op list \<Rightarrow> 'q
     \<Rightarrow> 'f list \<times> 'q" where
  "run_ops set_op age_op [] q = ([], q)"
| "run_ops set_op age_op (Op_set d f # ops) q = run_ops set_op age_op ops (set_op d f q)"
| "run_ops set_op age_op (Op_age t # ops) q =
     (case age_op t q of (fs, q') \<Rightarrow>
        case run_ops set_op age_op ops q' of (gs, q'') \<Rightarrow> (fs @ gs, q''))"

locale timer_queue =
  fixes qinv :: "'q \<Rightarrow> bool"
    and agenda :: "'q \<Rightarrow> 'f agenda"
    and set_op :: "int \<Rightarrow> 'f option \<Rightarrow> 'q \<Rightarrow> 'q"
    and new_id :: "'q \<Rightarrow> int"
    and clear_op :: "int \<Rightarrow> 'q \<Rightarrow> 'q"
    and age_op :: "int \<Rightarrow> 'q \<Rightarrow> 'f list \<times> 'q"
  assumes agenda_wf: "qinv q \<Longrightarrow> agenda_ok (agenda q)"
    and new_id_fresh: "qinv q \<Longrightarrow> new_id q \<notin> fst ` set (agenda q)"
    and set_inv: "\<lbrakk>qinv q; 0 \<le> d\<rbrakk> \<Longrightarrow> qinv (set_op d f q)"
    and set_agenda: "\<lbrakk>qinv q; 0 \<le> d\<rbrakk> \<Longrightarrow> agenda (set_op d f q) = agenda_add (new_id q) d f (agenda q)"
    and clear_inv: "qinv q \<Longrightarrow> qinv (clear_op i q)"
    and clear_agenda: "qinv q \<Longrightarrow> agenda (clear_op i q) = agenda_del i (agenda q)"
    and age_inv: "\<lbrakk>qinv q; 0 \<le> t\<rbrakk> \<Longrightarrow> qinv (snd (age_op t q))"
    and age_agenda: "\<lbrakk>qinv q; 0 \<le> t\<rbrakk> \<Longrightarrow> agenda (snd (age_op t q)) = agenda_after t (agenda q)"
    and age_fires: "\<lbrakk>qinv q; 0 \<le> t\<rbrakk> \<Longrightarrow>
      fst (age_op t q) = List.map_filter action_of (agenda_due t (agenda q))"
begin

lemma run_ops_inv:
  "\<lbrakk>qinv q; list_all op_ok ops\<rbrakk> \<Longrightarrow> qinv (snd (run_ops set_op age_op ops q))"
proof (induction ops arbitrary: q)
  case (Cons x ops)
  then show ?case
    using set_inv age_inv by (cases x) (auto split: prod.splits, metis snd_conv)
qed simp

lemma waits:
  "\<lbrakk>qinv q; list_all op_ok ops; (i, d, f) \<in> set (agenda q); elapsed_by ops < d\<rbrakk> \<Longrightarrow>
   (i, d - elapsed_by ops, f) \<in> set (agenda (snd (run_ops set_op age_op ops q)))"
proof (induction ops arbitrary: q d)
  case (Cons x ops)
  show ?case
  proof (cases x)
    case (Op_set e g)
    then show ?thesis
      using Cons.prems Cons.IH [of "set_op e g q" d] set_inv set_agenda
      by (simp add: set_agenda_add)
  next
    case (Op_age t)
    obtain fs q' where a: "age_op t q = (fs, q')" by force
    have t: "0 \<le> t" "list_all op_ok ops"
      using Cons.prems Op_age by auto
    have "0 \<le> elapsed_by ops" by (rule elapsed_by_nonneg [OF t(2)])
    then have "(i, d - t, f) \<in> set (agenda q')"
      using a age_agenda [OF Cons.prems(1) t(1)] Cons.prems Op_age agenda_wf
      by (simp add: agenda_after_set)
    moreover have "qinv q'"
      using a age_inv [OF Cons.prems(1) t(1)] by simp
    ultimately show ?thesis
      using Cons.IH [of q' "d - t"] Cons.prems a Op_age t
      by (auto simp: algebra_simps split: prod.splits)
  qed
qed simp

lemma expires:
  "\<lbrakk>qinv q; list_all op_ok ops; (i, d, Some f) \<in> set (agenda q); 0 < d; d \<le> elapsed_by ops\<rbrakk> \<Longrightarrow>
   f \<in> set (fst (run_ops set_op age_op ops q))"
proof (induction ops arbitrary: q d)
  case (Cons x ops)
  show ?case
  proof (cases x)
    case (Op_set e g)
    then show ?thesis
      using Cons.prems Cons.IH [of "set_op e g q" d] set_inv set_agenda
      by (simp add: set_agenda_add)
  next
    case (Op_age t)
    obtain fs q' where a: "age_op t q = (fs, q')" by force
    have t: "0 \<le> t" "list_all op_ok ops"
      using Cons.prems Op_age by auto
    have ok: "agenda_ok (agenda q)" by (rule agenda_wf [OF Cons.prems(1)])
    show ?thesis
    proof (cases "d \<le> t")
      case True
      then have "(i, d, Some f) \<in> set (agenda_due t (agenda q))"
        using Cons.prems(3) by (simp add: agenda_due_set [OF ok])
      then have "f \<in> set fs"
        using a age_fires [OF Cons.prems(1) t(1)] by (force simp: set_map_filter)
      then show ?thesis
        using a Op_age by (simp split: prod.splits)
    next
      case False
      then have "(i, d - t, Some f) \<in> set (agenda q')"
        using a age_agenda [OF Cons.prems(1) t(1)] Cons.prems(3)
        by (simp add: agenda_after_set [OF ok])
      moreover have "qinv q'"
        using a age_inv [OF Cons.prems(1) t(1)] by simp
      ultimately have "f \<in> set (fst (run_ops set_op age_op ops q'))"
        using Cons.IH [of q' "d - t"] Cons.prems Op_age t False by simp
      then show ?thesis
        using a Op_age by (auto split: prod.splits)
    qed
  qed
qed simp

lemma no_early_expiry:
  "\<lbrakk>qinv q; 0 \<le> t; f \<in> set (fst (age_op t q))\<rbrakk> \<Longrightarrow> \<exists>i d. (i, d, Some f) \<in> set (agenda q) \<and> d \<le> t"
  using age_fires [of q t] agenda_wf [of q]
  by (fastforce simp: set_map_filter agenda_due_set)

lemma clear_others:
  "\<lbrakk>qinv q; i \<noteq> j\<rbrakk> \<Longrightarrow> (i, d, f) \<in> set (agenda (clear_op j q)) \<longleftrightarrow> (i, d, f) \<in> set (agenda q)"
  by (simp add: clear_agenda agenda_del_def)

end

subsection \<open>The delta list keeps the contract\<close>

fun deadlines :: "int \<Rightarrow> 'f timeOutQueue list \<Rightarrow> 'f agenda" where
  "deadlines b [] = []"
| "deadlines b (p # q) = (tm_id p, b + tm_time p, tm_func p) # deadlines (b + tm_time p) q"

definition callout_agenda :: "'f callouts \<Rightarrow> 'f agenda" where
  "callout_agenda c = deadlines 0 (co_queue c)"

definition callouts_ok :: "'f callouts \<Rightarrow> bool" where
  "callouts_ok c \<longleftrightarrow>
     0 \<le> co_id c \<and> distinct (map tm_id (co_queue c)) \<and>
     (\<forall>p \<in> set (co_queue c). 0 \<le> tm_time p \<and> 0 < tm_id p \<and> tm_id p \<le> co_id c)"

lemma deadlines_ids: "map fst (deadlines b q) = map tm_id q"
  by (induction q arbitrary: b) auto

lemma deadlines_id_image: "fst ` set (deadlines b q) = tm_id ` set q"
  by (metis deadlines_ids list.set_map)

lemma deadlines_ge:
  "\<lbrakk>\<forall>p \<in> set q. 0 \<le> tm_time p; e \<in> set (deadlines b q)\<rbrakk> \<Longrightarrow> b \<le> deadline e"
  by (induction q arbitrary: b) force+

lemma deadlines_sorted:
  "\<forall>p \<in> set q. 0 \<le> tm_time p \<Longrightarrow> sorted (map deadline (deadlines b q))"
  by (induction q arbitrary: b) (auto dest: deadlines_ge)

lemma deadlines_shift:
  "deadlines (b + c) q = map (\<lambda>e. (fst e, deadline e + c, action_of e)) (deadlines b q)"
proof (induction q arbitrary: b)
  case (Cons p q)
  show ?case using Cons.IH [of "b + tm_time p"] by (simp add: algebra_simps)
qed simp

lemma callouts_ok_agenda: "callouts_ok c \<Longrightarrow> agenda_ok (callout_agenda c)"
  by (auto simp: callouts_ok_def agenda_ok_def callout_agenda_def deadlines_ids
      intro: deadlines_sorted dest: deadlines_ge [rotated])

lemma insert_node_deadlines:
  "deadlines b (insert_node node d q) =
     agenda_add (tm_id node) (b + d) (tm_func node) (deadlines b q)"
proof (induction q arbitrary: b d)
  case (Cons p q)
  show ?case
    using Cons.IH [of "b + tm_time p" "d - tm_time p"]
    by (simp add: agenda_add_def algebra_simps)
qed (simp add: agenda_add_def)

lemma insert_node_set:
  "\<lbrakk>0 \<le> d; \<forall>p \<in> set q. 0 \<le> tm_time p\<rbrakk> \<Longrightarrow> \<forall>p \<in> set (insert_node node d q). 0 \<le> tm_time p"
  by (induction q arbitrary: d) (auto, metis diff_ge_0_iff_ge not_less)

lemma insert_node_ids: "mset_ids = tm_id ` set q \<Longrightarrow>
  tm_id ` set (insert_node node d q) = insert (tm_id node) mset_ids"
  by (induction q arbitrary: d mset_ids) (auto simp: insert_commute)

lemma insert_node_distinct:
  "\<lbrakk>distinct (map tm_id q); tm_id node \<notin> tm_id ` set q\<rbrakk> \<Longrightarrow>
   distinct (map tm_id (insert_node node d q))"
proof (induction q arbitrary: d)
  case (Cons p q)
  then show ?case
    using insert_node_ids [OF refl, of node "d - tm_time p" q] by auto
qed simp

lemma setTimer_ok:
  assumes "callouts_ok c" "0 \<le> d"
  shows "callouts_ok (snd (timer_setTimer d f c))"
proof -
  let ?n = "\<lparr>tm_id = co_id c + 1, tm_func = f, tm_time = d\<rparr>"
  have "tm_id ?n \<notin> tm_id ` set (co_queue c)"
    using assms by (force simp: callouts_ok_def)
  then have "distinct (map tm_id (insert_node ?n d (co_queue c)))"
    using assms by (intro insert_node_distinct) (auto simp: callouts_ok_def)
  moreover have "0 < tm_id p \<and> tm_id p \<le> co_id c + 1" if "p \<in> set (insert_node ?n d (co_queue c))" for p
  proof -
    have "tm_id p \<in> insert (tm_id ?n) (tm_id ` set (co_queue c))"
      using that insert_node_ids [OF refl, of ?n d "co_queue c"] by blast
    then show ?thesis
      using assms(1) by (force simp: callouts_ok_def)
  qed
  ultimately show ?thesis
    using assms insert_node_set [of d "co_queue c" ?n]
    by (auto simp: callouts_ok_def timer_setTimer_def Let_def)
qed

lemma detach_expired_spec:
  assumes "\<forall>p \<in> set q. 0 \<le> tm_time p" "detach_expired t q = (x, r)"
  shows "deadlines b x = agenda_due (b + t) (deadlines b q)"
    and "deadlines (b + t) r = dropWhile (\<lambda>e. deadline e \<le> b + t) (deadlines b q)"
  using assms
proof (induction q arbitrary: b t x r)
  case (Cons p q)
  {
    case 1
    then show ?case
      using Cons.IH(1) [of "t - tm_time p" _ r "b + tm_time p"]
      by (auto simp: agenda_due_def algebra_simps split: if_splits prod.splits)
  next
    case 2
    then show ?case
      using Cons.IH(2) [of "t - tm_time p" _ r "b + tm_time p"]
      by (auto simp: algebra_simps split: if_splits prod.splits)
  }
qed (auto simp: agenda_due_def)

lemma detach_expired_nodes:
  "\<lbrakk>detach_expired t q = (x, r); \<forall>p \<in> set q. 0 \<le> tm_time p\<rbrakk> \<Longrightarrow>
   map tm_id q = map tm_id x @ map tm_id r \<and> (\<forall>p \<in> set r. 0 \<le> tm_time p)"
  by (induction q arbitrary: t x r) (auto split: if_splits prod.splits)

lemma age_ok:
  assumes "callouts_ok c"
  shows "callouts_ok (snd (age_callout_queue t c))"
proof -
  obtain x r where d: "detach_expired t (co_queue c) = (x, r)" by force
  have m: "map tm_id (co_queue c) = map tm_id x @ map tm_id r" and n: "\<forall>p \<in> set r. 0 \<le> tm_time p"
    using detach_expired_nodes [OF d] assms by (auto simp: callouts_ok_def)
  have "tm_id ` set r \<subseteq> tm_id ` set (co_queue c)" "distinct (map tm_id r)"
    using m assms by (metis Un_upper2 list.set_map set_append)
      (metis assms callouts_ok_def distinct_append m)
  then show ?thesis
    using assms n d by (fastforce simp: callouts_ok_def age_callout_queue_def)
qed

lemma map_filter_deadlines: "List.map_filter action_of (deadlines b x) = List.map_filter tm_func x"
  by (induction x arbitrary: b) (auto simp: List.map_filter_simps split: option.splits)

lemma age_callouts:
  assumes "callouts_ok c"
  shows "callout_agenda (snd (age_callout_queue t c)) = agenda_after t (callout_agenda c)"
    and "fst (age_callout_queue t c) = List.map_filter action_of (agenda_due t (callout_agenda c))"
proof -
  obtain x r where d: "detach_expired t (co_queue c) = (x, r)" by force
  have n: "\<forall>p \<in> set (co_queue c). 0 \<le> tm_time p"
    using assms by (simp add: callouts_ok_def)
  have "deadlines 0 r = map (\<lambda>e. (fst e, deadline e - t, action_of e)) (deadlines t r)"
    using deadlines_shift [of 0 t r] by (simp add: comp_def)
  then show "callout_agenda (snd (age_callout_queue t c)) = agenda_after t (callout_agenda c)"
    using detach_expired_spec(2) [OF n d, of 0] d
    by (simp add: callout_agenda_def age_callout_queue_def agenda_after_def)
  show "fst (age_callout_queue t c) = List.map_filter action_of (agenda_due t (callout_agenda c))"
    using detach_expired_spec(1) [OF n d, of 0] d map_filter_deadlines [of 0 x]
    by (simp add: callout_agenda_def age_callout_queue_def)
qed

lemma unlink_node_None: "unlink_node i q = None \<longleftrightarrow> i \<notin> tm_id ` set q"
  by (induction q) auto

lemma unlink_node_deadlines:
  "\<lbrakk>unlink_node i q = Some r; distinct (map tm_id q)\<rbrakk> \<Longrightarrow>
   deadlines b r = agenda_del i (deadlines b q)"
proof (induction q arbitrary: b r)
  case (Cons p q)
  show ?case
  proof (cases "tm_id p = i")
    case True
    then have "i \<notin> fst ` set (deadlines (b + tm_time p) q)"
      using Cons.prems by (auto simp: deadlines_id_image)
    then have "agenda_del i (deadlines (b + tm_time p) q) = deadlines (b + tm_time p) q"
      by (auto simp: agenda_del_def filter_id_conv)
    then show ?thesis
      using True Cons.prems
      by (auto simp: agenda_del_def algebra_simps split: list.splits)
  next
    case False
    then show ?thesis
      using Cons by (auto simp: agenda_del_def)
  qed
qed simp

lemma unlink_node_nodes:
  "\<lbrakk>unlink_node i q = Some r; \<forall>p \<in> set q. 0 \<le> tm_time p; distinct (map tm_id q)\<rbrakk> \<Longrightarrow>
   tm_id ` set r \<subseteq> tm_id ` set q \<and> distinct (map tm_id r) \<and> (\<forall>p \<in> set r. 0 \<le> tm_time p)"
proof (induction q arbitrary: r)
  case (Cons p q)
  show ?case
  proof (cases "tm_id p = i")
    case True
    then show ?thesis using Cons.prems by (cases q) auto
  next
    case False
    then obtain r' where "unlink_node i q = Some r'" "r = p # r'"
      using Cons.prems by auto
    then show ?thesis using Cons.prems Cons.IH [of r'] by auto
  qed
qed simp

lemma clearTimer_ok:
  assumes "callouts_ok c"
  shows "callouts_ok (snd (timer_clearTimer i c))"
proof (cases "unlink_node i (co_queue c)")
  case (Some r)
  then have "tm_id ` set r \<subseteq> tm_id ` set (co_queue c) \<and> distinct (map tm_id r) \<and>
      (\<forall>p \<in> set r. 0 \<le> tm_time p)"
    using assms by (intro unlink_node_nodes) (auto simp: callouts_ok_def)
  then show ?thesis
    using assms Some by (fastforce simp: callouts_ok_def timer_clearTimer_def)
qed (use assms in \<open>simp add: timer_clearTimer_def\<close>)

lemma clearTimer_agenda:
  assumes "callouts_ok c"
  shows "callout_agenda (snd (timer_clearTimer i c)) = agenda_del i (callout_agenda c)"
proof (cases "i \<in> tm_id ` set (co_queue c)")
  case True
  then obtain r where r: "unlink_node i (co_queue c) = Some r"
    using unlink_node_None [of i "co_queue c"] by auto
  have "i \<noteq> 0" using True assms by (auto simp: callouts_ok_def)
  then show ?thesis
    using assms r unlink_node_deadlines [OF r, of 0]
    by (simp add: callouts_ok_def timer_clearTimer_def callout_agenda_def)
next
  case False
  then have "agenda_del i (callout_agenda c) = callout_agenda c"
    using deadlines_id_image [of 0 "co_queue c"]
    by (force simp: agenda_del_def callout_agenda_def filter_id_conv)
  then show ?thesis
    using False unlink_node_None [of i "co_queue c"] by (simp add: timer_clearTimer_def)
qed

interpretation callout: timer_queue callouts_ok callout_agenda
  "\<lambda>d f c. snd (timer_setTimer d f c)" "\<lambda>c. co_id c + 1" "\<lambda>i c. snd (timer_clearTimer i c)"
  age_callout_queue
proof
  fix q :: "'a callouts" and d :: int and f
  assume q: "callouts_ok q"
  show "co_id q + 1 \<notin> fst ` set (callout_agenda q)"
    using q unfolding callout_agenda_def deadlines_id_image by (force simp: callouts_ok_def)
  show "callout_agenda (snd (timer_setTimer d f q)) = agenda_add (co_id q + 1) d f (callout_agenda q)"
    by (simp add: callout_agenda_def timer_setTimer_def Let_def insert_node_deadlines)
qed (simp_all add: callouts_ok_agenda setTimer_ok clearTimer_ok clearTimer_agenda age_ok age_callouts)

lemma left_loop_deadline:
  "\<lbrakk>distinct (map tm_id q); (i, d, f) \<in> set (deadlines b q)\<rbrakk> \<Longrightarrow> left_loop i b q = d"
proof (induction q arbitrary: b)
  case (Cons p q)
  then show ?case
    using deadlines_id_image [of "b + tm_time p" q] by (force simp: image_iff)
qed simp

lemma leftTimer_deadline:
  "\<lbrakk>callouts_ok c; (i, d, f) \<in> set (callout_agenda c)\<rbrakk> \<Longrightarrow> timer_leftTimer i c = d"
  using deadlines_id_image [of 0 "co_queue c"]
  by (force simp: callouts_ok_def callout_agenda_def timer_leftTimer_def left_loop_deadline)

lemma nextTimer_agenda:
  "callouts_ok c \<Longrightarrow> timer_nextTimer c = (case callout_agenda c of [] \<Rightarrow> - 1 | e # _ \<Rightarrow> deadline e)"
  by (cases "co_queue c") (auto simp: callouts_ok_def callout_agenda_def timer_nextTimer_def)

subsection \<open>Properties\<close>

abbreviation callout_run :: "'f timer_op list \<Rightarrow> 'f callouts \<Rightarrow> 'f list \<times> 'f callouts" where
  "callout_run \<equiv> run_ops (\<lambda>d f c. snd (timer_setTimer d f c)) age_callout_queue"

text \<open>C34: The delta list of callout.c implements an agenda of absolute deadlines: setting a
  timer inserts its deadline behind the earlier and equal ones and moves no other deadline,
  clearing a timer removes exactly its own deadline (the successor's offset is corrected),
  ageing the queue fires the due timers in deadline order and brings every other deadline
  nearer by the elapsed time, and \<^verbatim>\<open>timer_nextTimer\<close> is the earliest deadline (-1 for none).\<close>

theorem callout_refines_agenda:
  assumes "callouts_ok c" and "0 \<le> d"
  shows "callout_agenda (snd (timer_setTimer d f c)) =
           agenda_add (fst (timer_setTimer d f c)) d f (callout_agenda c) \<and>
         callout_agenda (snd (timer_clearTimer i c)) = agenda_del i (callout_agenda c) \<and>
         age_callout_queue t c =
           (List.map_filter action_of (agenda_due t (callout_agenda c)), snd (age_callout_queue t c)) \<and>
         callout_agenda (snd (age_callout_queue t c)) = agenda_after t (callout_agenda c) \<and>
         timer_nextTimer c = (case callout_agenda c of [] \<Rightarrow> - 1 | e # _ \<Rightarrow> deadline e) \<and>
         callouts_ok (snd (timer_setTimer d f c)) \<and> callouts_ok (snd (timer_clearTimer i c)) \<and>
         callouts_ok (snd (age_callout_queue t c))"
proof -
  have "fst (timer_setTimer d f c) = co_id c + 1"
    by (simp add: timer_setTimer_def Let_def)
  then show ?thesis
    using assms callout.set_agenda [OF assms, of f] age_callouts [OF assms(1), of t]
      clearTimer_agenda [OF assms(1), of i] nextTimer_agenda [OF assms(1)]
    by (simp add: setTimer_ok clearTimer_ok age_ok prod_eq_iff)
qed

definition sample_callouts :: "nat callouts" where
  "sample_callouts = snd (timer_setTimer 5 (Some 2) (snd (timer_setTimer 3 (Some 1)
     \<lparr>co_id = 0, co_queue = []\<rparr>)))"

lemma sample_callouts_ok: "callouts_ok sample_callouts"
  unfolding sample_callouts_def by (intro setTimer_ok) (simp_all add: callouts_ok_def)

theorem callout_refines_agenda_witness:
  "callout_agenda (snd (timer_setTimer 4 (Some 9) sample_callouts)) =
     agenda_add 3 4 (Some 9) (callout_agenda sample_callouts) \<and>
   map tm_time (co_queue (snd (timer_setTimer 4 (Some 9) sample_callouts))) = [3, 1, 1]"
  using callout_refines_agenda [OF sample_callouts_ok, of 4 "Some 9"]
  by (simp add: sample_callouts_def timer_setTimer_def Let_def)

text \<open>C39: A timeout set for \<open>d\<close> seconds happens on time: whatever other timers are set and
  whatever steps the clock takes, as long as less than \<open>d\<close> seconds have passed the timer is
  pending and \<^verbatim>\<open>timer_leftTimer\<close> reports exactly the remaining time, and once \<open>d\<close> seconds
  have passed its function has been called.\<close>

theorem timer_expires_on_time:
  assumes "callouts_ok c" and "0 < d" and "list_all op_ok ops"
    and "timer_setTimer d (Some f) c = (i, c')" and "callout_run ops c' = (fired, c'')"
  shows "(elapsed_by ops < d \<longrightarrow> timer_leftTimer i c'' = d - elapsed_by ops) \<and>
         (d \<le> elapsed_by ops \<longrightarrow> f \<in> set fired)"
proof -
  have "callouts_ok c'" "(i, d, Some f) \<in> set (callout_agenda c')"
    using assms setTimer_ok [of c d "Some f"] callout.set_agenda [of c d "Some f"]
    by (auto simp: set_agenda_add timer_setTimer_def Let_def)
  then show ?thesis
    using callout.waits [of c' ops i d "Some f"] callout.expires [of c' ops i d f]
      callout.run_ops_inv [of c' ops] leftTimer_deadline [of c''] assms
    by auto
qed

theorem timer_expires_on_time_witness:
  "let c' = snd (timer_setTimer 4 (Some 9) sample_callouts) in
   timer_leftTimer 3 (snd (callout_run [Op_age 1, Op_set 1 (Some 7), Op_age 2] c')) = 1 \<and>
   9 \<in> set (fst (callout_run [Op_age 1, Op_set 1 (Some 7), Op_age 4] c'))"
proof -
  let ?c = "snd (timer_setTimer 4 (Some 9) sample_callouts)"
  have s: "timer_setTimer 4 (Some 9) sample_callouts = (3, ?c)"
    by (simp add: sample_callouts_def timer_setTimer_def Let_def)
  show ?thesis
    using timer_expires_on_time [OF sample_callouts_ok _ _ s surjective_pairing,
        of "[Op_age 1, Op_set 1 (Some 7), Op_age 2]"]
      timer_expires_on_time [OF sample_callouts_ok _ _ s surjective_pairing,
        of "[Op_age 1, Op_set 1 (Some 7), Op_age 4]"]
    by (simp add: Let_def del: run_ops.simps)
qed

end
