(* ===== verification/Igmp_Proxy.thy ===== *)
theory Igmp_Proxy
  imports Igmp_Route Igmp_Callout
begin

section \<open>Requests, timeouts and the main loop of the IGMP proxy\<close>

text \<open>
  \<^verbatim>\<open>igmpproxy/src/request.c\<close>, the dispatch of \<^verbatim>\<open>acceptIgmp\<close> (\<^verbatim>\<open>igmp.c\<close>), the functions that the
  callout queue calls, and initialisation, clean-up and main loop of \<^verbatim>\<open>igmpproxy.c\<close>.  The state is
  the routing table, the switch, the callout queue, the remaining start-up queries and the output
  buffer.  \<open>None\<close> is an access through a null or wild pointer.
\<close>

subsection \<open>State\<close>

record GroupVifDesc =
  gv_group :: u32
  gv_vifAddr :: u32
  gv_started :: bool

datatype igmp_cb =
    Cb_ageActiveRoutes
  | Cb_sendGeneralMembershipQuery
  | Cb_sendGroupSpecificMemberQuery GroupVifDesc
  | Cb_query_specific_members

record proxy =
  px_routes :: "RouteTable list"
  px_switch :: mc_switch
  px_callouts :: "igmp_cb callouts"
  px_startupQueryCount :: u32
  px_send_buf :: "byte list"

type_synonym proxy_result = "(proxy \<times> igmp_out list) option"

definition set_timer :: "u32 \<Rightarrow> igmp_cb \<Rightarrow> proxy \<Rightarrow> proxy" where
  "set_timer delay cb px =
     px\<lparr>px_callouts := snd (timer_setTimer (sint delay) (Some cb) (px_callouts px))\<rparr>"

definition send_igmp :: "u32 \<Rightarrow> u32 \<Rightarrow> byte \<Rightarrow> u32 \<Rightarrow> u32 \<Rightarrow> proxy \<Rightarrow> proxy_result" where
  "send_igmp src dst type code grp px = do {
     (b, out) \<leftarrow> sendIgmp src dst type (ucast code) grp 0 (px_send_buf px);
     Some (px\<lparr>px_send_buf := b\<rparr>, out)
   }"

subsection \<open>request.c\<close>

definition acceptGroupReport :: "proxy_conf \<Rightarrow> proxy_env \<Rightarrow> u32 \<Rightarrow> u32 \<Rightarrow> proxy \<Rightarrow> proxy_result" where
  "acceptGroupReport pc env src grp px =
     (if \<not> IN_MULTICAST (ntohl grp) then Some (px, [])
      else case getIfByAddress src (pc_ifs pc) of
        None \<Rightarrow> Some (px, [])
      | Some sourceVif \<Rightarrow>
          if if_InAdr sourceVif = src then Some (px, [])
          else if if_state sourceVif = IF_STATE_DOWNSTREAM then
            (case insert_multicast_ip (pe_port_of env) (pc_wan_port pc) (ntohl grp) (ntohl src) (px_switch px) of
               (sw, out) \<Rightarrow>
                 let px = px\<lparr>px_switch := sw\<rparr> in
                 if pe_wan_link env then do {
                   (_, routes, out') \<leftarrow> insertRoute pc grp (sint (if_index sourceVif)) (px_routes px);
                   Some (px\<lparr>px_routes := routes\<rparr>, out @ out')
                 } else Some (px, out))
          else Some (px, []))"

definition sendGroupSpecificMemberQuery ::
  "proxy_conf \<Rightarrow> proxy_env \<Rightarrow> GroupVifDesc \<Rightarrow> proxy \<Rightarrow> proxy_result" where
  "sendGroupSpecificMemberQuery pc env gvDesc px =
     (if \<not> pe_wan_link env then Some (px, [])
      else if \<not> pc_running pc then Some (px, [])
      else do {
        (continue, px, out) \<leftarrow>
          (if gv_started gvDesc then do {
             (r, sw, routes, out) \<leftarrow> lastMemberGroupAge pc (gv_group gvDesc) (px_switch px) (px_routes px);
             Some (r, px\<lparr>px_switch := sw, px_routes := routes\<rparr>, out)
           } else Some (True, px, []));
        if \<not> continue then Some (px, out)
        else do {
          let interval = cf_lastMemberQueryInterval (pc_conf pc);
          (px, out') \<leftarrow> send_igmp (gv_vifAddr gvDesc) (gv_group gvDesc) IGMP_MEMBERSHIP_QUERY
                          (interval * IGMP_TIMER_SCALE) (gv_group gvDesc) px;
          Some (set_timer interval (Cb_sendGroupSpecificMemberQuery (gvDesc\<lparr>gv_started := True\<rparr>)) px,
                out @ out')
        }
      })"

definition acceptLeaveMessage :: "proxy_conf \<Rightarrow> proxy_env \<Rightarrow> u32 \<Rightarrow> u32 \<Rightarrow> proxy \<Rightarrow> proxy_result" where
  "acceptLeaveMessage pc env src grp px =
     (if \<not> IN_MULTICAST (ntohl grp) then Some (px, [])
      else
        case remove_member (pc_wan_port pc) (ntohl grp) (ntohl src) True (px_switch px) of
          (sw, out) \<Rightarrow>
            let px = px\<lparr>px_switch := sw\<rparr> in
            (case getIfByAddress src (pc_ifs pc) of
               None \<Rightarrow> Some (px, out)
             | Some sourceVif \<Rightarrow>
                 if if_state sourceVif = IF_STATE_DOWNSTREAM then do {
                   (routes, out') \<leftarrow> setRouteLastMemberMode pc grp (px_switch px) (px_routes px);
                   (px, out'') \<leftarrow> sendGroupSpecificMemberQuery pc env
                     \<lparr>gv_group = grp, gv_vifAddr = if_InAdr sourceVif, gv_started = False\<rparr>
                     (px\<lparr>px_routes := routes\<rparr>);
                   Some (px, out @ out' @ out'')
                 } else Some (px, out)))"

fun query_vifs :: "proxy_conf \<Rightarrow> IfDesc list \<Rightarrow> proxy \<Rightarrow> proxy_result" where
  "query_vifs pc [] px = Some (px, [])"
| "query_vifs pc (Dp # ifs) px =
     (if if_InAdr Dp \<noteq> 0 \<and> if_Flags Dp AND IFF_LOOPBACK = 0 \<and> if_state Dp = IF_STATE_DOWNSTREAM
      then do {
        (px, out) \<leftarrow> send_igmp (if_InAdr Dp) allhosts_group IGMP_MEMBERSHIP_QUERY
                       (cf_queryResponseInterval (pc_conf pc) * IGMP_TIMER_SCALE) 0 px;
        (px, out') \<leftarrow> query_vifs pc ifs px;
        Some (px, out @ out')
      }
      else query_vifs pc ifs px)"

definition sendGeneralMembershipQuery :: "proxy_conf \<Rightarrow> proxy_env \<Rightarrow> proxy \<Rightarrow> proxy_result" where
  "sendGeneralMembershipQuery pc env px =
     (if \<not> pe_wan_link env then Some (px, [])
      else do {
        (px, out) \<leftarrow> (if pc_running pc then query_vifs pc (pc_ifs pc) px else Some (px, []));
        let conf = pc_conf pc;
        let px = set_timer (cf_queryResponseInterval conf * 5) Cb_ageActiveRoutes px;
        Some
          (if px_startupQueryCount px > 0
           then (set_timer (cf_startupQueryInterval conf) Cb_sendGeneralMembershipQuery px)
                  \<lparr>px_startupQueryCount := px_startupQueryCount px - 1\<rparr>
           else set_timer (5 + 10) Cb_query_specific_members
                  (set_timer (cf_queryInterval conf) Cb_sendGeneralMembershipQuery px),
           out)
      })"

fun query_member_vifs :: "u32 \<Rightarrow> u32 \<Rightarrow> IfDesc list \<Rightarrow> proxy \<Rightarrow> proxy_result" where
  "query_member_vifs dst grp [] px = Some (px, [])"
| "query_member_vifs dst grp (Dp # ifs) px =
     (if if_InAdr Dp \<noteq> 0 \<and> if_Flags Dp AND IFF_LOOPBACK = 0 \<and> if_state Dp = IF_STATE_DOWNSTREAM \<and>
         (case if_allowednets Dp of
            [] \<Rightarrow> False
          | n # _ \<Rightarrow> subnet_mask n \<noteq> 0 \<and> subnet_addr n \<noteq> 0 \<and> dst AND subnet_mask n = subnet_addr n)
      then do {
        (px, out) \<leftarrow> send_igmp (if_InAdr Dp) dst IGMP_MEMBERSHIP_QUERY (1 * IGMP_TIMER_SCALE) grp px;
        (px, out') \<leftarrow> query_member_vifs dst grp ifs px;
        Some (px, out @ out')
      }
      else query_member_vifs dst grp ifs px)"

definition sendSpecificMembershipQueryToSpecificMember ::
  "proxy_conf \<Rightarrow> proxy_env \<Rightarrow> u32 \<Rightarrow> u32 \<Rightarrow> proxy \<Rightarrow> proxy_result" where
  "sendSpecificMembershipQueryToSpecificMember pc env dst grp px =
     (if \<not> pe_wan_link env then Some (px, []) else query_member_vifs dst grp (pc_ifs pc) px)"

fun send_requeries ::
  "proxy_conf \<Rightarrow> proxy_env \<Rightarrow> (u32 \<times> u32) list \<Rightarrow> proxy \<Rightarrow> proxy_result" where
  "send_requeries pc env [] px = Some (px, [])"
| "send_requeries pc env ((dst, grp) # qs) px = do {
     (px, out) \<leftarrow> sendSpecificMembershipQueryToSpecificMember pc env dst grp px;
     (px, out') \<leftarrow> send_requeries pc env qs px;
     Some (px, out @ out')
   }"

definition query_specific_members :: "proxy_conf \<Rightarrow> proxy_env \<Rightarrow> proxy \<Rightarrow> proxy_result" where
  "query_specific_members pc env px =
     (case query_members (px_switch px) of
        (sw, qs) \<Rightarrow> send_requeries pc env qs (px\<lparr>px_switch := sw\<rparr>))"

subsection \<open>Messages and timeouts\<close>

definition acceptIgmp :: "proxy_conf \<Rightarrow> proxy_env \<Rightarrow> nat \<Rightarrow> byte list \<Rightarrow> proxy \<Rightarrow> proxy_result" where
  "acceptIgmp pc env recvlen recv_buf px = do {
     m \<leftarrow> igmp_parse recvlen recv_buf;
     case m of
       None \<Rightarrow> Some (px, [])
     | Some (src, grp, type, code) \<Rightarrow>
         if type = IGMP_V1_MEMBERSHIP_REPORT \<or> type = IGMP_V2_MEMBERSHIP_REPORT
         then acceptGroupReport pc env src grp px
         else if type = IGMP_V2_LEAVE_GROUP then acceptLeaveMessage pc env src grp px
         else if type = IGMP_MEMBERSHIP_QUERY then
           (if pe_same_net env src
            then (case update_router_port (pe_port_of env) src (px_switch px) of
                    (sw, out) \<Rightarrow> Some (px\<lparr>px_switch := sw\<rparr>, out))
            else Some (px, []))
         else Some (px, [])
   }"

definition run_callback :: "proxy_conf \<Rightarrow> proxy_env \<Rightarrow> igmp_cb \<Rightarrow> proxy \<Rightarrow> proxy_result" where
  "run_callback pc env cb px =
     (case cb of
        Cb_ageActiveRoutes \<Rightarrow> do {
          (sw, routes, out) \<leftarrow> ageActiveRoutes pc env (px_switch px) (px_routes px);
          Some (px\<lparr>px_switch := sw, px_routes := routes\<rparr>, out)
        }
      | Cb_sendGeneralMembershipQuery \<Rightarrow> sendGeneralMembershipQuery pc env px
      | Cb_sendGroupSpecificMemberQuery gv \<Rightarrow> sendGroupSpecificMemberQuery pc env gv px
      | Cb_query_specific_members \<Rightarrow> query_specific_members pc env px)"

fun run_callbacks :: "proxy_conf \<Rightarrow> proxy_env \<Rightarrow> igmp_cb list \<Rightarrow> proxy \<Rightarrow> proxy_result" where
  "run_callbacks pc env [] px = Some (px, [])"
| "run_callbacks pc env (cb # cbs) px = do {
     (px, out) \<leftarrow> run_callback pc env cb px;
     (px, out') \<leftarrow> run_callbacks pc env cbs px;
     Some (px, out @ out')
   }"

definition age_proxy :: "proxy_conf \<Rightarrow> proxy_env \<Rightarrow> int \<Rightarrow> proxy \<Rightarrow> proxy_result" where
  "age_proxy pc env elapsed px =
     (case age_callout_queue elapsed (px_callouts px) of
        (cbs, c) \<Rightarrow> run_callbacks pc env cbs (px\<lparr>px_callouts := c\<rparr>))"

subsection \<open>The main loop (igmpproxy.c)\<close>

text \<open>\<open>lp_timeout_null\<close>: the pointer \<^verbatim>\<open>timeout\<close> has been set to \<^verbatim>\<open>NULL\<close>.  Times are pairs of seconds
  and microseconds.\<close>

record proxy_loop =
  lp_px :: proxy
  lp_timeout_null :: bool
  lp_lasttime :: "int \<times> int"
  lp_diff_usec :: int
  lp_exited :: bool

datatype select_result =
    Sel_failure
  | Sel_timeout
  | Sel_recv_error
  | Sel_packet nat "byte list"

function carry_usec :: "int \<Rightarrow> int \<Rightarrow> int \<times> int" where
  "carry_usec s us = (if us > 1000000 then carry_usec (s + 1) (us - 1000000) else (s, us))"
  by pat_completeness auto
termination by (relation "measure (\<lambda>(s, us). nat us)") auto

declare carry_usec.simps [simp del]

text \<open>One round of the inner loop with the current time \<open>cur\<close>; the last component is the number
  of seconds that have passed.\<close>

definition timeout_round ::
  "proxy_conf \<Rightarrow> proxy_env \<Rightarrow> int \<Rightarrow> int \<times> int \<Rightarrow> proxy_loop
    \<Rightarrow> (proxy_loop \<times> igmp_out list \<times> int) option" where
  "timeout_round pc env secs cur lp =
     (let us = lp_diff_usec lp + (snd cur - snd (lp_lasttime lp));
          (s, us) = carry_usec (fst cur - fst (lp_lasttime lp)) us;
          (s, us) = (if us < 0 then (s - 1, us + 1000000) else (s, us));
          lp = lp\<lparr>lp_lasttime := cur, lp_diff_usec := us\<rparr>
      in if secs = 0 \<or> s > 0
         then do { (px, out) \<leftarrow> age_proxy pc env s (lp_px lp); Some (lp\<lparr>lp_px := px\<rparr>, out, s) }
         else Some (lp, [], s))"

text \<open>The further rounds, one clock reading each; \<open>None\<close> when the readings run out.\<close>

fun timeout_rounds ::
  "proxy_conf \<Rightarrow> proxy_env \<Rightarrow> (int \<times> int) list \<Rightarrow> proxy_loop \<Rightarrow> (proxy_loop \<times> igmp_out list) option" where
  "timeout_rounds pc env [] lp = None"
| "timeout_rounds pc env (cur # clocks) lp = do {
     (lp, out, s) \<leftarrow> timeout_round pc env (- 1) cur lp;
     if s > 0 then do { (lp, out') \<leftarrow> timeout_rounds pc env clocks lp; Some (lp, out @ out') }
     else Some (lp, out)
   }"

definition handle_timeouts ::
  "proxy_conf \<Rightarrow> proxy_env \<Rightarrow> int \<Rightarrow> (int \<times> int) \<Rightarrow> (int \<times> int) list \<Rightarrow> proxy_loop
    \<Rightarrow> (proxy_loop \<times> igmp_out list) option" where
  "handle_timeouts pc env secs cur clocks lp = do {
     (lp, out, s) \<leftarrow> timeout_round pc env secs cur lp;
     if s > 0 then do { (lp, out') \<leftarrow> timeout_rounds pc env clocks lp; Some (lp, out @ out') }
     else Some (lp, out)
   }"

text \<open>One iteration.  The state of the WAN link is one answer for the whole iteration.  \<open>None\<close> is a
  store through the null timeout pointer, a memory error of a handler, or a list of clock readings
  that ends while the inner loop still runs.\<close>

definition proxy_iteration ::
  "proxy_conf \<Rightarrow> proxy_env \<Rightarrow> bool \<Rightarrow> select_result \<Rightarrow> (int \<times> int) list \<Rightarrow> proxy_loop
    \<Rightarrow> (proxy_loop \<times> igmp_out list) option" where
  "proxy_iteration pc env got_sigint sel clocks lp =
     (if got_sigint then Some (lp\<lparr>lp_exited := True\<rparr>, [])
      else
        let secs = timer_nextTimer (px_callouts (lp_px lp)) in
        if secs \<noteq> - 1 \<and> lp_timeout_null lp then None
        else
          let lp = lp\<lparr>lp_timeout_null := lp_timeout_null lp \<or> secs = - 1\<rparr> in
          case sel of
            Sel_failure \<Rightarrow> Some (lp, [])
          | Sel_recv_error \<Rightarrow> Some (lp, [])
          | Sel_timeout \<Rightarrow>
              handle_timeouts pc env secs
                (fst (lp_lasttime lp) + secs, snd (lp_lasttime lp)) clocks lp
          | Sel_packet recvlen recv_buf \<Rightarrow> do {
              (px, out) \<leftarrow> acceptIgmp pc env recvlen recv_buf (lp_px lp);
              cur \<leftarrow> rd clocks 0;
              (lp, out') \<leftarrow> handle_timeouts pc env secs cur (tl clocks) (lp\<lparr>lp_px := px\<rparr>);
              Some (lp, out @ out')
            })"

text \<open>The daemon from \<^verbatim>\<open>initRouteTable\<close> in \<^verbatim>\<open>igmpProxyInit\<close> to the general query with which
  \<^verbatim>\<open>igmpProxyRun\<close> begins; \<open>Ipt_input\<close> and \<open>Ipt_prerouting\<close> insert (\<open>True\<close>) or delete the rule for
  224.0.0.0/4 in the two firewall chains.\<close>

definition proxy_start ::
  "proxy_conf \<Rightarrow> proxy_env \<Rightarrow> u32 \<Rightarrow> byte list \<Rightarrow> int \<times> int \<Rightarrow> (proxy_loop \<times> igmp_out list) option" where
  "proxy_start pc env startupQueryCount rest now =
     (case initRouteTable pc of (routes, out) \<Rightarrow>
      case switch_init \<lparr>sw_groups = [], sw_router_port = - 1, sw_table = []\<rparr> of (sw, out') \<Rightarrow> do {
        let px = \<lparr>px_routes = routes, px_switch = sw,
                  px_callouts = callout_init \<lparr>co_id = 0, co_queue = []\<rparr>,
                  px_startupQueryCount = startupQueryCount, px_send_buf = initIgmp rest\<rparr>;
        (px, out'') \<leftarrow> sendGeneralMembershipQuery pc env px;
        Some (\<lparr>lp_px = px, lp_timeout_null = False, lp_lasttime = now, lp_diff_usec = 0,
               lp_exited = False\<rparr>,
              out @ [Ipt_input True, Ipt_prerouting False, Ipt_prerouting True] @ out' @ out'')
      })"

definition igmpProxyCleanUp :: "proxy_conf \<Rightarrow> proxy \<Rightarrow> proxy_result" where
  "igmpProxyCleanUp pc px = do {
     let px = px\<lparr>px_callouts := free_all_callouts (px_callouts px)\<rparr>;
     (routes, out) \<leftarrow> clearAllRoutes pc (px_routes px);
     let (sw, out') = remove_all_groups (px_switch px);
     Some (px\<lparr>px_routes := routes, px_switch := sw\<rparr>, out @ [Mrt_done] @ out' @ [Ipt_input False])
   }"

text \<open>What \<^verbatim>\<open>main\<close> does after the loop.\<close>

definition proxy_shutdown :: "proxy_conf \<Rightarrow> proxy \<Rightarrow> proxy_result" where
  "proxy_shutdown pc px = do {
     (px, out) \<leftarrow> igmpProxyCleanUp pc px;
     let (sw, out') = switch_fini (px_switch px);
     Some (px\<lparr>px_switch := sw\<rparr>, out @ out' @ [Ipt_prerouting False])
   }"

inductive proxy_reach :: "proxy_conf \<Rightarrow> proxy_loop \<Rightarrow> proxy_loop \<Rightarrow> bool" for pc lp0 where
  start: "proxy_reach pc lp0 lp0"
| step: "\<lbrakk>proxy_reach pc lp0 lp; \<not> lp_exited lp;
     proxy_iteration pc env got_sigint sel clocks lp = Some (lp', out)\<rbrakk> \<Longrightarrow> proxy_reach pc lp0 lp'"

subsection \<open>The invariant of the proxy\<close>

definition conf_ok :: "proxy_conf \<Rightarrow> bool" where
  "conf_ok pc \<longleftrightarrow> (let c = pc_conf pc in
     0 \<le> sint (cf_queryInterval c) \<and> 0 \<le> sint (cf_queryResponseInterval c * 5) \<and>
     0 \<le> sint (cf_startupQueryInterval c) \<and> 0 \<le> sint (cf_lastMemberQueryInterval c))"

definition proxy_ok :: "proxy_conf \<Rightarrow> proxy \<Rightarrow> bool" where
  "proxy_ok pc px \<longleftrightarrow> routes_ok (px_routes px) \<and> switch_ok (pc_wan_port pc) (px_switch px) \<and>
     callouts_ok (px_callouts px) \<and> send_template (px_send_buf px)"

lemma set_timer_ok: "\<lbrakk>proxy_ok pc px; 0 \<le> sint delay\<rbrakk> \<Longrightarrow> proxy_ok pc (set_timer delay cb px)"
  by (simp add: proxy_ok_def set_timer_def setTimer_ok)

lemma send_igmp_spec:
  assumes "proxy_ok pc px"
  obtains b out where "send_igmp src dst type code grp px = Some (px\<lparr>px_send_buf := b\<rparr>, out)"
    and "proxy_ok pc (px\<lparr>px_send_buf := b\<rparr>)"
    and "dst \<noteq> UPNP_MCAST_ADDR \<Longrightarrow>
      \<exists>d. Ig_send d dst \<in> set out \<and> igmp_parse 28 d = Some (Some (src, grp, type, ucast code))"
proof -
  have "send_template (px_send_buf px)" using assms by (simp add: proxy_ok_def)
  then obtain b' d out where "sendIgmp src dst type (ucast code) grp 0 (px_send_buf px) = Some (b', out)"
    "send_template b'" "Ig_send d dst \<in> set out"
    "dst \<noteq> UPNP_MCAST_ADDR \<Longrightarrow> igmp_parse 28 d = Some (Some (src, grp, type, ucast code))"
    by (rule sendIgmp_defined [of _ src dst type "ucast code" grp]) blast
  with assms show thesis by (intro that [of b' out]) (auto simp: send_igmp_def proxy_ok_def)
qed

lemma send_igmp_ok:
  "\<lbrakk>send_igmp src dst type code grp px = Some (px', out); proxy_ok pc px\<rbrakk> \<Longrightarrow>
   proxy_ok pc px' \<and> px_callouts px' = px_callouts px"
  by (erule send_igmp_spec [of pc px src dst type code grp]) auto

lemma query_vifs_ok:
  "proxy_ok pc px \<Longrightarrow> \<exists>px' out. query_vifs pc ifs px = Some (px', out) \<and> proxy_ok pc px' \<and>
     px_callouts px' = px_callouts px \<and> px_startupQueryCount px' = px_startupQueryCount px"
proof (induction ifs arbitrary: px)
  case (Cons d ifs)
  let ?code = "cf_queryResponseInterval (pc_conf pc) * IGMP_TIMER_SCALE"
  obtain b out where "send_igmp (if_InAdr d) allhosts_group IGMP_MEMBERSHIP_QUERY ?code 0 px =
      Some (px\<lparr>px_send_buf := b\<rparr>, out)" "proxy_ok pc (px\<lparr>px_send_buf := b\<rparr>)"
    using send_igmp_spec [OF Cons.prems, of "if_InAdr d" allhosts_group IGMP_MEMBERSHIP_QUERY ?code 0] by blast
  with Cons.IH [OF Cons.prems] Cons.IH [of "px\<lparr>px_send_buf := b\<rparr>"] show ?case by auto
qed simp

text \<open>The general query of an interface: from its address, to all hosts, for no particular group.\<close>

definition query_target :: "IfDesc \<Rightarrow> bool" where
  "query_target Dp \<longleftrightarrow> if_InAdr Dp \<noteq> 0 \<and> if_Flags Dp AND IFF_LOOPBACK = 0 \<and> if_state Dp = IF_STATE_DOWNSTREAM"

definition query_sent :: "proxy_conf \<Rightarrow> igmp_out list \<Rightarrow> IfDesc \<Rightarrow> bool" where
  "query_sent pc out Dp \<longleftrightarrow> (\<exists>d. Ig_send d allhosts_group \<in> set out \<and>
     igmp_parse 28 d = Some (Some (if_InAdr Dp, 0, IGMP_MEMBERSHIP_QUERY,
       ucast (cf_queryResponseInterval (pc_conf pc) * IGMP_TIMER_SCALE))))"

lemma query_vifs_sent:
  "\<lbrakk>query_vifs pc ifs px = Some (px', out); proxy_ok pc px; Dp \<in> set ifs; query_target Dp\<rbrakk> \<Longrightarrow>
   query_sent pc out Dp"
proof (induction ifs arbitrary: px out)
  case (Cons d ifs)
  let ?code = "cf_queryResponseInterval (pc_conf pc) * IGMP_TIMER_SCALE"
  show ?case
  proof (cases "query_target d")
    case True
    obtain b o1 where s: "send_igmp (if_InAdr d) allhosts_group IGMP_MEMBERSHIP_QUERY ?code 0 px =
        Some (px\<lparr>px_send_buf := b\<rparr>, o1)" "proxy_ok pc (px\<lparr>px_send_buf := b\<rparr>)"
      "allhosts_group \<noteq> UPNP_MCAST_ADDR \<Longrightarrow> \<exists>m. Ig_send m allhosts_group \<in> set o1 \<and>
         igmp_parse 28 m = Some (Some (if_InAdr d, 0, IGMP_MEMBERSHIP_QUERY, ucast ?code))"
      using send_igmp_spec [OF Cons.prems(2), of "if_InAdr d" allhosts_group IGMP_MEMBERSHIP_QUERY ?code 0] by blast
    obtain o2 where q: "query_vifs pc ifs (px\<lparr>px_send_buf := b\<rparr>) = Some (px', o2)" "out = o1 @ o2"
      using Cons.prems(1) True s(1) by (auto simp: query_target_def split: Option.bind_splits)
    have "query_sent pc o1 d"
      using s(3) by (simp add: query_sent_def allhosts_group_def UPNP_MCAST_ADDR_def)
    moreover have "query_sent pc o2 Dp" if "Dp \<in> set ifs"
      using Cons.IH [OF q(1) s(2) that Cons.prems(4)] .
    ultimately show ?thesis
      using Cons.prems(3) q(2) by (auto simp: query_sent_def)
  next
    case False
    then have "query_vifs pc ifs px = Some (px', out)" "Dp \<noteq> d"
      using Cons.prems(1,4) by (auto simp: query_target_def split: if_splits)
    then show ?thesis using Cons by simp
  qed
qed simp

lemma query_member_vifs_ok:
  "proxy_ok pc px \<Longrightarrow> \<exists>px' out. query_member_vifs dst grp ifs px = Some (px', out) \<and> proxy_ok pc px' \<and>
     px_callouts px' = px_callouts px"
proof (induction ifs arbitrary: px)
  case (Cons d ifs)
  obtain b out where "send_igmp (if_InAdr d) dst IGMP_MEMBERSHIP_QUERY (1 * IGMP_TIMER_SCALE) grp px =
      Some (px\<lparr>px_send_buf := b\<rparr>, out)" "proxy_ok pc (px\<lparr>px_send_buf := b\<rparr>)"
    using send_igmp_spec [OF Cons.prems, of "if_InAdr d" dst IGMP_MEMBERSHIP_QUERY "1 * IGMP_TIMER_SCALE" grp] by blast
  with Cons.IH [OF Cons.prems] Cons.IH [of "px\<lparr>px_send_buf := b\<rparr>"] show ?case by auto
qed simp

lemma send_requeries_ok:
  "proxy_ok pc px \<Longrightarrow> \<exists>px' out. send_requeries pc env qs px = Some (px', out) \<and> proxy_ok pc px'"
proof (induction qs arbitrary: px)
  case (Cons q qs)
  obtain dst grp where q: "q = (dst, grp)" by force
  obtain px1 o1 where "sendSpecificMembershipQueryToSpecificMember pc env dst grp px = Some (px1, o1)"
    "proxy_ok pc px1"
    using query_member_vifs_ok [OF Cons.prems, of dst grp "pc_ifs pc"] Cons.prems
    by (cases "pe_wan_link env") (auto simp: sendSpecificMembershipQueryToSpecificMember_def)
  with Cons.IH [of px1] show ?case by (auto simp: q)
qed simp

lemma query_specific_members_ok:
  assumes "proxy_ok pc px"
  shows "\<exists>px' out. query_specific_members pc env px = Some (px', out) \<and> proxy_ok pc px'"
proof -
  obtain sw qs where q: "query_members (px_switch px) = (sw, qs)" by force
  then have "proxy_ok pc (px\<lparr>px_switch := sw\<rparr>)"
    using assms query_members_ok [of "pc_wan_port pc" "px_switch px"] by (simp add: proxy_ok_def)
  from send_requeries_ok [OF this] show ?thesis by (simp add: query_specific_members_def q)
qed

lemma sendGeneralMembershipQuery_ok:
  assumes "proxy_ok pc px" and "conf_ok pc"
  shows "\<exists>px' out. sendGeneralMembershipQuery pc env px = Some (px', out) \<and> proxy_ok pc px'"
proof (cases "pe_wan_link env")
  case True
  obtain px1 out where q: "(if pc_running pc then query_vifs pc (pc_ifs pc) px else Some (px, [])) = Some (px1, out)"
    "proxy_ok pc px1"
    using query_vifs_ok [OF assms(1), of "pc_ifs pc"] assms(1) by (cases "pc_running pc") auto
  let ?px = "set_timer (cf_queryResponseInterval (pc_conf pc) * 5) Cb_ageActiveRoutes px1"
  have "proxy_ok pc ?px" using q(2) assms(2) by (intro set_timer_ok) (auto simp: conf_ok_def Let_def)
  then have "proxy_ok pc (set_timer (cf_startupQueryInterval (pc_conf pc)) Cb_sendGeneralMembershipQuery ?px)"
    "proxy_ok pc (set_timer (5 + 10) Cb_query_specific_members
       (set_timer (cf_queryInterval (pc_conf pc)) Cb_sendGeneralMembershipQuery ?px))"
    using assms(2) by (auto intro!: set_timer_ok simp: conf_ok_def Let_def)
  then show ?thesis
    using True q(1) by (auto simp: sendGeneralMembershipQuery_def Let_def proxy_ok_def)
qed (use assms in \<open>simp add: sendGeneralMembershipQuery_def\<close>)

lemma acceptGroupReport_ok:
  assumes "acceptGroupReport pc env src grp px = Some (px', out)" and "proxy_ok pc px"
  shows "proxy_ok pc px'"
proof -
  obtain sw o1 where i: "insert_multicast_ip (pe_port_of env) (pc_wan_port pc) (ntohl grp) (ntohl src)
      (px_switch px) = (sw, o1)" by force
  then have "switch_ok (pc_wan_port pc) sw"
    using assms(2) insert_multicast_ip_ok [of "pc_wan_port pc" "px_switch px"] by (metis fst_conv proxy_ok_def)
  then show ?thesis
    using assms insertRoute_ok
    by (auto simp: acceptGroupReport_def i Let_def proxy_ok_def split: option.splits if_splits Option.bind_splits)
qed

lemma sendGroupSpecificMemberQuery_ok:
  assumes "sendGroupSpecificMemberQuery pc env gv px = Some (px', out)" and "proxy_ok pc px" and "conf_ok pc"
  shows "proxy_ok pc px'"
proof (cases "pe_wan_link env \<and> pc_running pc")
  case True
  obtain go px1 o1 where a: "(if gv_started gv then do {
      (r, sw, routes, out) \<leftarrow> lastMemberGroupAge pc (gv_group gv) (px_switch px) (px_routes px);
      Some (r, px\<lparr>px_switch := sw, px_routes := routes\<rparr>, out) } else Some (True, px, [])) = Some (go, px1, o1)"
    using assms(1) True by (auto simp: sendGroupSpecificMemberQuery_def split: Option.bind_splits)
  have p1: "proxy_ok pc px1"
    using a assms(2) lastMemberGroupAge_ok by (auto simp: proxy_ok_def split: if_splits Option.bind_splits)
  show ?thesis
  proof (cases go)
    case go: True
    let ?i = "cf_lastMemberQueryInterval (pc_conf pc)"
    obtain px2 o2 where s: "send_igmp (gv_vifAddr gv) (gv_group gv) IGMP_MEMBERSHIP_QUERY
        (?i * IGMP_TIMER_SCALE) (gv_group gv) px1 = Some (px2, o2)"
      and e: "px' = set_timer ?i (Cb_sendGroupSpecificMemberQuery (gv\<lparr>gv_started := True\<rparr>)) px2"
      using assms(1) True a go by (auto simp: sendGroupSpecificMemberQuery_def Let_def split: Option.bind_splits)
    show ?thesis
      unfolding e using send_igmp_ok [OF s p1] assms(3) by (intro set_timer_ok) (auto simp: conf_ok_def Let_def)
  qed (use assms True a p1 in \<open>auto simp: sendGroupSpecificMemberQuery_def\<close>)
qed (use assms in \<open>auto simp: sendGroupSpecificMemberQuery_def split: if_splits\<close>)

lemma acceptLeaveMessage_ok:
  assumes "acceptLeaveMessage pc env src grp px = Some (px', out)" and "proxy_ok pc px" and "conf_ok pc"
  shows "proxy_ok pc px'"
proof (cases "IN_MULTICAST (ntohl grp)")
  case True
  obtain sw o1 where r: "remove_member (pc_wan_port pc) (ntohl grp) (ntohl src) True (px_switch px) = (sw, o1)" by force
  have p1: "proxy_ok pc (px\<lparr>px_switch := sw\<rparr>)"
    using assms(2) remove_member_spec [of "pc_wan_port pc" "px_switch px" "ntohl grp" "ntohl src" True] r
    by (simp add: proxy_ok_def)
  show ?thesis
  proof (cases "getIfByAddress src (pc_ifs pc)")
    case (Some vif)
    show ?thesis
    proof (cases "if_state vif = IF_STATE_DOWNSTREAM")
      case down: True
      obtain routes o2 o3 where m: "setRouteLastMemberMode pc grp sw (px_routes px) = Some (routes, o2)"
        and q: "sendGroupSpecificMemberQuery pc env
          \<lparr>gv_group = grp, gv_vifAddr = if_InAdr vif, gv_started = False\<rparr>
          (px\<lparr>px_switch := sw, px_routes := routes\<rparr>) = Some (px', o3)"
        using assms(1) True r Some down by (auto simp: acceptLeaveMessage_def Let_def split: Option.bind_splits)
      have "proxy_ok pc (px\<lparr>px_switch := sw, px_routes := routes\<rparr>)"
        using p1 setRouteLastMemberMode_ok [OF m] by (simp add: proxy_ok_def)
      then show ?thesis using sendGroupSpecificMemberQuery_ok [OF q _ assms(3)] by simp
    qed (use assms(1) True r Some p1 in \<open>auto simp: acceptLeaveMessage_def Let_def\<close>)
  qed (use assms(1) True r p1 in \<open>auto simp: acceptLeaveMessage_def Let_def\<close>)
qed (use assms in \<open>auto simp: acceptLeaveMessage_def\<close>)

lemma acceptIgmp_ok:
  assumes "acceptIgmp pc env recvlen buf px = Some (px', out)" and "proxy_ok pc px" and "conf_ok pc"
  shows "proxy_ok pc px'"
proof -
  obtain m where m: "igmp_parse recvlen buf = Some m"
    using assms(1) by (auto simp: acceptIgmp_def split: Option.bind_splits)
  show ?thesis
  proof (cases m)
    case (Some x)
    obtain src grp ty code where x: "x = (src, grp, ty, code)" by (metis prod_cases4)
    have "proxy_ok pc (px\<lparr>px_switch := fst (update_router_port (pe_port_of env) src (px_switch px))\<rparr>)"
      using assms(2) update_router_port_ok by (simp add: proxy_ok_def)
    then show ?thesis
      using assms m Some x acceptGroupReport_ok acceptLeaveMessage_ok
      by (auto simp: acceptIgmp_def split: if_splits prod.splits)
  qed (use assms m in \<open>auto simp: acceptIgmp_def\<close>)
qed

lemma run_callback_ok:
  assumes "run_callback pc env cb px = Some (px', out)" and "proxy_ok pc px" and "conf_ok pc"
  shows "proxy_ok pc px'"
proof (cases cb)
  case Cb_ageActiveRoutes
  then show ?thesis
    using assms ageActiveRoutes_ok by (auto simp: run_callback_def proxy_ok_def split: Option.bind_splits)
next
  case Cb_sendGeneralMembershipQuery
  then show ?thesis
    using assms sendGeneralMembershipQuery_ok [OF assms(2,3), of env] by (auto simp: run_callback_def)
next
  case (Cb_sendGroupSpecificMemberQuery gv)
  then show ?thesis
    using assms sendGroupSpecificMemberQuery_ok by (auto simp: run_callback_def)
next
  case Cb_query_specific_members
  then show ?thesis
    using assms query_specific_members_ok [OF assms(2), of env] by (auto simp: run_callback_def)
qed

lemma run_callbacks_ok:
  "\<lbrakk>run_callbacks pc env cbs px = Some (px', out); proxy_ok pc px; conf_ok pc\<rbrakk> \<Longrightarrow> proxy_ok pc px'"
proof (induction cbs arbitrary: px out)
  case (Cons cb cbs)
  then obtain px1 o1 o2 where "run_callback pc env cb px = Some (px1, o1)"
    "run_callbacks pc env cbs px1 = Some (px', o2)"
    by (auto split: Option.bind_splits)
  with Cons run_callback_ok show ?case by blast
qed simp

lemma age_proxy_ok:
  assumes "age_proxy pc env t px = Some (px', out)" and "proxy_ok pc px" and "conf_ok pc"
  shows "proxy_ok pc px'"
proof -
  obtain cbs c where a: "age_callout_queue t (px_callouts px) = (cbs, c)" by force
  then have "proxy_ok pc (px\<lparr>px_callouts := c\<rparr>)"
    using assms(2) age_ok [of "px_callouts px" t] by (simp add: proxy_ok_def)
  then show ?thesis
    using assms run_callbacks_ok by (auto simp: age_proxy_def a)
qed

lemma timeout_round_ok:
  "\<lbrakk>timeout_round pc env secs cur lp = Some (lp', out, s); proxy_ok pc (lp_px lp); conf_ok pc\<rbrakk> \<Longrightarrow>
   proxy_ok pc (lp_px lp') \<and> lp_timeout_null lp' = lp_timeout_null lp"
  using age_proxy_ok
  by (fastforce simp: timeout_round_def Let_def split: if_splits prod.splits Option.bind_splits)

lemma timeout_rounds_ok:
  "\<lbrakk>timeout_rounds pc env clocks lp = Some (lp', out); proxy_ok pc (lp_px lp); conf_ok pc\<rbrakk> \<Longrightarrow>
   proxy_ok pc (lp_px lp') \<and> lp_timeout_null lp' = lp_timeout_null lp"
proof (induction clocks arbitrary: lp out)
  case (Cons cur clocks)
  then obtain lp1 o1 s where r: "timeout_round pc env (- 1) cur lp = Some (lp1, o1, s)"
    by (auto split: Option.bind_splits)
  from timeout_round_ok [OF r Cons.prems(2,3)] Cons show ?case
    by (auto simp: r split: if_splits Option.bind_splits)
qed simp

lemma handle_timeouts_ok:
  assumes "handle_timeouts pc env secs cur clocks lp = Some (lp', out)" and "proxy_ok pc (lp_px lp)"
    and "conf_ok pc"
  shows "proxy_ok pc (lp_px lp') \<and> lp_timeout_null lp' = lp_timeout_null lp"
proof -
  obtain lp1 o1 s where r: "timeout_round pc env secs cur lp = Some (lp1, o1, s)"
    using assms(1) by (auto simp: handle_timeouts_def split: Option.bind_splits)
  from timeout_round_ok [OF r assms(2,3)] timeout_rounds_ok assms show ?thesis
    by (auto simp: handle_timeouts_def r split: if_splits Option.bind_splits)
qed

lemma proxy_iteration_cases:
  assumes "proxy_iteration pc env False sel clocks lp = Some (lp', out)"
  defines "lp1 \<equiv> lp\<lparr>lp_timeout_null := lp_timeout_null lp \<or> timer_nextTimer (px_callouts (lp_px lp)) = - 1\<rparr>"
  obtains (idle) "lp' = lp1"
  | (timeout) secs cur clocks' lp2 o2 where "lp2 = lp1"
      "handle_timeouts pc env secs cur clocks' lp2 = Some (lp', o2)"
  | (packet) n buf px o1 secs cur clocks' o2 where "acceptIgmp pc env n buf (lp_px lp) = Some (px, o1)"
      "handle_timeouts pc env secs cur clocks' (lp1\<lparr>lp_px := px\<rparr>) = Some (lp', o2)"
proof (cases sel)
  case (Sel_packet n buf)
  then show ?thesis
    using assms packet by (auto simp: proxy_iteration_def Let_def split: if_splits Option.bind_splits)
qed (use assms idle timeout in \<open>auto simp: proxy_iteration_def Let_def split: if_splits\<close>)

lemma proxy_iteration_ok:
  assumes "proxy_iteration pc env sg sel clocks lp = Some (lp', out)" and "proxy_ok pc (lp_px lp)"
    and "conf_ok pc"
  shows "proxy_ok pc (lp_px lp')"
proof (cases sg)
  case True
  then show ?thesis using assms by (auto simp: proxy_iteration_def)
next
  case False
  from assms(1) [unfolded iffD2 [OF eq_False False]] show ?thesis
  proof (cases rule: proxy_iteration_cases)
    case idle
    then show ?thesis using assms(2) by simp
  next
    case (timeout secs cur clocks' lp2 o2)
    then show ?thesis using handle_timeouts_ok [OF timeout(2)] assms(2,3) by simp
  next
    case (packet n buf px o1 secs cur clocks' o2)
    then show ?thesis
      using handle_timeouts_ok [OF packet(2)] acceptIgmp_ok [OF packet(1) assms(2,3)] assms(3) by simp
  qed
qed

subsection \<open>Every message is handled\<close>

lemma unat_ihl: "unat (w :: 4 word) < 16"
  using unsigned_less [of w, where 'a = nat] by simp

lemma igmp_parse_defined:
  assumes "length buf = RECV_BUF_SIZE"
  shows "\<exists>m. igmp_parse n buf = Some m"
proof -
  have "unat (ip_ihl (ip_of_bytes (take 20 buf))) \<le> 2046"
    using unat_ihl [of "ip_ihl (ip_of_bytes (take 20 buf))"] by simp
  then show ?thesis
    using assms by (auto simp: igmp_parse_def rd_n_def rd_def Let_def)
qed

lemma setRouteLastMemberMode_defined:
  assumes "upstream_if pc = Some d"
  shows "\<exists>routes' out. setRouteLastMemberMode pc g sw routes = Some (routes', out)"
proof (cases "findRoute g routes")
  case (Some c)
  obtain r' out where "sendJoinLeaveUpstream pc c False = Some (r', out)"
    using sendJoinLeaveUpstream_defined [OF assms] by blast
  then show ?thesis by (simp add: setRouteLastMemberMode_def Some)
qed (simp add: setRouteLastMemberMode_def)

lemma lastMemberGroupAge_defined:
  assumes "upstream_if pc = Some d"
  shows "\<exists>res sw' routes' out. lastMemberGroupAge pc g sw routes = Some (res, sw', routes', out)"
proof (cases "findRoute g routes")
  case (Some c)
  obtain res sw' routes' out where "internAgeRoute pc c sw routes = Some (res, sw', routes', out)"
    using internAgeRoute_defined [OF assms] by blast
  with Some show ?thesis by (auto simp: lastMemberGroupAge_def)
qed (auto simp: lastMemberGroupAge_def)

lemma sendGroupSpecificMemberQuery_defined:
  assumes "proxy_ok pc px" and "upstream_if pc = Some d"
  shows "\<exists>px' out. sendGroupSpecificMemberQuery pc env gv px = Some (px', out)"
proof -
  obtain r sw routes o1 where a: "lastMemberGroupAge pc (gv_group gv) (px_switch px) (px_routes px) =
      Some (r, sw, routes, o1)"
    using lastMemberGroupAge_defined [OF assms(2)] by blast
  let ?px = "px\<lparr>px_switch := sw, px_routes := routes\<rparr>"
  have ok: "proxy_ok pc ?px"
    using assms(1) lastMemberGroupAge_ok [OF a, of "pc_wan_port pc"] by (simp add: proxy_ok_def)
  let ?send = "send_igmp (gv_vifAddr gv) (gv_group gv) IGMP_MEMBERSHIP_QUERY
    (cf_lastMemberQueryInterval (pc_conf pc) * IGMP_TIMER_SCALE) (gv_group gv)"
  obtain b1 p1 where "?send px = Some (px\<lparr>px_send_buf := b1\<rparr>, p1)"
    by (rule send_igmp_spec [OF assms(1)])
  moreover obtain b2 p2 where "?send ?px = Some (?px\<lparr>px_send_buf := b2\<rparr>, p2)"
    by (rule send_igmp_spec [OF ok])
  ultimately show ?thesis
    using a by (simp add: sendGroupSpecificMemberQuery_def Let_def)
qed

lemma acceptLeaveMessage_defined:
  assumes "proxy_ok pc px" and "upstream_if pc = Some d"
  shows "\<exists>px' out. acceptLeaveMessage pc env src grp px = Some (px', out)"
proof -
  obtain sw o1 where r: "remove_member (pc_wan_port pc) (ntohl grp) (ntohl src) True (px_switch px) = (sw, o1)" by force
  have sw: "switch_ok (pc_wan_port pc) sw"
    using assms(1) remove_member_spec [of "pc_wan_port pc" "px_switch px" "ntohl grp" "ntohl src" True] r
    by (simp add: proxy_ok_def)
  obtain routes o2 where m: "setRouteLastMemberMode pc grp sw (px_routes px) = Some (routes, o2)"
    using setRouteLastMemberMode_defined [OF assms(2)] by blast
  have "proxy_ok pc (px\<lparr>px_switch := sw, px_routes := routes\<rparr>)"
    using assms(1) sw setRouteLastMemberMode_ok [OF m] by (simp add: proxy_ok_def)
  note q = sendGroupSpecificMemberQuery_defined [OF this assms(2), of env]
  show ?thesis
  proof (cases "getIfByAddress src (pc_ifs pc)")
    case (Some vif)
    obtain px' o3 where "sendGroupSpecificMemberQuery pc env
        \<lparr>gv_group = grp, gv_vifAddr = if_InAdr vif, gv_started = False\<rparr>
        (px\<lparr>px_switch := sw, px_routes := routes\<rparr>) = Some (px', o3)"
      using q by blast
    then show ?thesis by (simp add: acceptLeaveMessage_def r m Let_def Some)
  qed (simp add: acceptLeaveMessage_def r Let_def)
qed

lemma acceptGroupReport_defined:
  assumes "upstream_if pc = Some d"
  shows "\<exists>px' out. acceptGroupReport pc env src grp px = Some (px', out)"
proof (cases "getIfByAddress src (pc_ifs pc)")
  case (Some vif)
  obtain sw o1 where i: "insert_multicast_ip (pe_port_of env) (pc_wan_port pc) (ntohl grp) (ntohl src)
      (px_switch px) = (sw, o1)" by force
  obtain ok routes o2 where "insertRoute pc grp (sint (if_index vif)) (px_routes px) = Some (ok, routes, o2)"
    using insertRoute_defined [OF assms] by blast
  with Some i show ?thesis by (simp add: acceptGroupReport_def Let_def)
qed (simp add: acceptGroupReport_def)

subsection \<open>Every timeout is handled\<close>

lemma run_callback_defined:
  assumes "proxy_ok pc px" and "conf_ok pc" and "upstream_if pc = Some d" and "cache_ok env"
  shows "\<exists>px' out. run_callback pc env cb px = Some (px', out)"
proof (cases cb)
  case Cb_ageActiveRoutes
  then show ?thesis
    using ageActiveRoutes_defined [OF assms(3,4), of "px_switch px" "px_routes px"] by (auto simp: run_callback_def)
next
  case Cb_sendGeneralMembershipQuery
  then show ?thesis
    using sendGeneralMembershipQuery_ok [OF assms(1,2), of env] by (auto simp: run_callback_def)
next
  case (Cb_sendGroupSpecificMemberQuery gv)
  then show ?thesis
    using sendGroupSpecificMemberQuery_defined [OF assms(1,3), of env gv] by (auto simp: run_callback_def)
next
  case Cb_query_specific_members
  then show ?thesis
    using query_specific_members_ok [OF assms(1), of env] by (auto simp: run_callback_def)
qed

lemma run_callbacks_defined:
  assumes "conf_ok pc" and "upstream_if pc = Some d" and "cache_ok env"
  shows "proxy_ok pc px \<Longrightarrow> \<exists>px' out. run_callbacks pc env cbs px = Some (px', out)"
proof (induction cbs arbitrary: px)
  case (Cons cb cbs)
  obtain px1 o1 where c: "run_callback pc env cb px = Some (px1, o1)"
    using run_callback_defined [OF Cons.prems assms] by blast
  with Cons.IH [OF run_callback_ok [OF c Cons.prems assms(1)]] show ?case by auto
qed simp

lemma age_proxy_defined:
  assumes "proxy_ok pc px" and "conf_ok pc" and "upstream_if pc = Some d" and "cache_ok env"
  shows "\<exists>px' out. age_proxy pc env t px = Some (px', out)"
proof -
  obtain cbs c where a: "age_callout_queue t (px_callouts px) = (cbs, c)" by force
  then have "proxy_ok pc (px\<lparr>px_callouts := c\<rparr>)"
    using assms(1) age_ok [of "px_callouts px" t] by (simp add: proxy_ok_def)
  from run_callbacks_defined [OF assms(2-4) this] show ?thesis by (simp add: age_proxy_def a)
qed

lemma timeout_round_defined:
  assumes "proxy_ok pc (lp_px lp)" and "conf_ok pc" and "upstream_if pc = Some d" and "cache_ok env"
  shows "\<exists>lp' out s. timeout_round pc env secs cur lp = Some (lp', out, s)"
proof -
  have a: "\<exists>px' out. age_proxy pc env t (lp_px lp) = Some (px', out)" for t
    using age_proxy_defined [OF assms] .
  obtain s1 u1 where c: "carry_usec (fst cur - fst (lp_lasttime lp))
      (lp_diff_usec lp + (snd cur - snd (lp_lasttime lp))) = (s1, u1)" by force
  obtain p1 o1 p2 o2 where "age_proxy pc env s1 (lp_px lp) = Some (p1, o1)"
    "age_proxy pc env (s1 - 1) (lp_px lp) = Some (p2, o2)"
    using a by blast
  then show ?thesis by (simp add: timeout_round_def Let_def c)
qed

text \<open>The inner loop ends once three clock readings lie within a second: the rounds before the last
  one keep at most a second of unspent microseconds.\<close>

definition usec_of :: "int \<times> int \<Rightarrow> int" where
  "usec_of t = fst t * 1000000 + snd t"

definition clock_settles :: "int \<times> int \<Rightarrow> int \<times> int \<Rightarrow> int \<times> int \<Rightarrow> bool" where
  "clock_settles t0 t1 t2 \<longleftrightarrow> usec_of t0 \<le> usec_of t1 \<and> usec_of t1 \<le> usec_of t2 \<and>
     usec_of t2 < usec_of t0 + 1000000 \<and> (\<forall>t \<in> {t1, t2}. 0 \<le> snd t \<and> snd t < 1000000)"

lemma carry_usec_result:
  "carry_usec s us = (s', us') \<Longrightarrow>
   s' * 1000000 + us' = s * 1000000 + us \<and> us' \<le> 1000000 \<and> (us' < 0 \<longrightarrow> s' = s)"
  by (induction s us rule: carry_usec.induct) (subst (asm) (2) carry_usec.simps, auto split: if_splits)

lemma timeout_round_clock:
  assumes "timeout_round pc env secs cur lp = Some (lp', out, s)"
  shows "lp_lasttime lp' = cur" and "lp_diff_usec lp' \<le> 1000000"
    and "s * 1000000 + lp_diff_usec lp' = lp_diff_usec lp + usec_of cur - usec_of (lp_lasttime lp)"
    and "0 < s \<Longrightarrow> fst cur - fst (lp_lasttime lp) \<le> 1 \<Longrightarrow> 0 \<le> lp_diff_usec lp'"
proof -
  obtain s1 u1 where c: "carry_usec (fst cur - fst (lp_lasttime lp))
      (lp_diff_usec lp + (snd cur - snd (lp_lasttime lp))) = (s1, u1)" by force
  note k = carry_usec_result [OF c]
  have r: "lp_lasttime lp' = cur \<and> lp_diff_usec lp' = (if u1 < 0 then u1 + 1000000 else u1) \<and>
      s = (if u1 < 0 then s1 - 1 else s1)"
    using assms by (auto simp: timeout_round_def Let_def c split: if_splits Option.bind_splits)
  then show "lp_lasttime lp' = cur" "lp_diff_usec lp' \<le> 1000000"
    "s * 1000000 + lp_diff_usec lp' = lp_diff_usec lp + usec_of cur - usec_of (lp_lasttime lp)"
    "0 < s \<Longrightarrow> fst cur - fst (lp_lasttime lp) \<le> 1 \<Longrightarrow> 0 \<le> lp_diff_usec lp'"
    using k by (auto simp: usec_of_def algebra_simps split: if_splits)
qed

lemma timeout_rounds_settle:
  assumes "proxy_ok pc (lp_px lp)" and "conf_ok pc" and "upstream_if pc = Some d" and "cache_ok env"
    and "clock_settles t0 t1 t2" and "lp_lasttime lp = t0" and "lp_diff_usec lp \<le> 1000000"
  shows "\<exists>lp' out. timeout_rounds pc env [t1, t2] lp = Some (lp', out)"
proof -
  obtain lp1 o1 s1 where r1: "timeout_round pc env (- 1) t1 lp = Some (lp1, o1, s1)"
    using timeout_round_defined [OF assms(1-4)] by blast
  have ok: "proxy_ok pc (lp_px lp1)" using timeout_round_ok [OF r1 assms(1,2)] by simp
  obtain lp2 o2 s2 where r2: "timeout_round pc env (- 1) t2 lp1 = Some (lp2, o2, s2)"
    using timeout_round_defined [OF ok assms(2-4)] by blast
  note k1 = timeout_round_clock [OF r1] and k2 = timeout_round_clock [OF r2]
  have "fst t2 - fst t1 \<le> 1" using assms(5) by (auto simp: clock_settles_def usec_of_def)
  then have "\<not> (0 < s1 \<and> 0 < s2)"
    using assms(5-7) k1(1,3) k2(3,4) by (auto simp: clock_settles_def)
  then show ?thesis using r1 r2 by auto
qed

lemma timeout_rounds_defined:
  assumes "conf_ok pc" and "upstream_if pc = Some d" and "cache_ok env" and "clock_settles t0 t1 t2"
  shows "proxy_ok pc (lp_px lp) \<Longrightarrow> \<exists>lp' out. timeout_rounds pc env (xs @ [t0, t1, t2]) lp = Some (lp', out)"
proof (induction xs arbitrary: lp)
  case Nil
  obtain lp1 o1 s where r: "timeout_round pc env (- 1) t0 lp = Some (lp1, o1, s)"
    using timeout_round_defined [OF Nil assms(1-3)] by blast
  have "proxy_ok pc (lp_px lp1)" using timeout_round_ok [OF r Nil assms(1)] by simp
  from timeout_rounds_settle [OF this assms timeout_round_clock(1,2) [OF r]] r show ?case
    by (auto simp del: timeout_rounds.simps simp: timeout_rounds.simps(2) [of _ _ t0])
next
  case (Cons x xs)
  obtain lp1 o1 s where r: "timeout_round pc env (- 1) x lp = Some (lp1, o1, s)"
    using timeout_round_defined [OF Cons.prems assms(1-3)] by blast
  have "proxy_ok pc (lp_px lp1)" using timeout_round_ok [OF r Cons.prems assms(1)] by simp
  from Cons.IH [OF this] r show ?case by auto
qed

lemma handle_timeouts_defined:
  assumes "proxy_ok pc (lp_px lp)" and "conf_ok pc" and "upstream_if pc = Some d" and "cache_ok env"
    and "clock_settles t0 t1 t2"
  shows "\<exists>lp' out. handle_timeouts pc env secs cur (xs @ [t0, t1, t2]) lp = Some (lp', out)"
    and "\<exists>lp' out. handle_timeouts pc env secs t0 [t1, t2] lp = Some (lp', out)"
proof -
  have ok: "proxy_ok pc (lp_px lp1)" if "timeout_round pc env secs c lp = Some (lp1, o1, s)" for c lp1 o1 s
    using timeout_round_ok [OF that assms(1,2)] by simp
  obtain lp1 o1 s where r: "timeout_round pc env secs cur lp = Some (lp1, o1, s)"
    using timeout_round_defined [OF assms(1-4)] by blast
  from timeout_rounds_defined [OF assms(2-5) ok [OF r], of xs] r
  show "\<exists>lp' out. handle_timeouts pc env secs cur (xs @ [t0, t1, t2]) lp = Some (lp', out)"
    by (auto simp: handle_timeouts_def)
  obtain lp2 o2 s2 where r: "timeout_round pc env secs t0 lp = Some (lp2, o2, s2)"
    using timeout_round_defined [OF assms(1-4)] by blast
  from timeout_rounds_settle [OF ok [OF r] assms(2-5) timeout_round_clock(1,2) [OF r]] r
  show "\<exists>lp' out. handle_timeouts pc env secs t0 [t1, t2] lp = Some (lp', out)"
    by (auto simp: handle_timeouts_def simp del: timeout_rounds.simps)
qed

subsection \<open>Properties\<close>

lemma proxy_reach_ok:
  assumes "proxy_start pc env n rest now = Some (lp0, out)" and "conf_ok pc"
    and "length rest = RECV_BUF_SIZE - 20" and "proxy_reach pc lp0 lp"
  shows "routes_ok (px_routes (lp_px lp)) \<and> switch_ok (pc_wan_port pc) (px_switch (lp_px lp)) \<and>
    callouts_ok (px_callouts (lp_px lp)) \<and> send_template (px_send_buf (lp_px lp))"
proof -
  let ?sw = "fst (switch_init \<lparr>sw_groups = [], sw_router_port = - 1, sw_table = []\<rparr>)"
  let ?px = "\<lparr>px_routes = [], px_switch = ?sw, px_callouts = callout_init \<lparr>co_id = 0, co_queue = []\<rparr>,
    px_startupQueryCount = n, px_send_buf = initIgmp rest\<rparr>"
  have "proxy_ok pc ?px"
    using initIgmp_template [OF assms(3)] switch_init_ok [of _ "pc_wan_port pc"]
    by (simp add: proxy_ok_def routes_ok_def callouts_ok_def callout_init_def)
  from sendGeneralMembershipQuery_ok [OF this assms(2), of env] assms(1)
  have "proxy_ok pc (lp_px lp0)"
    by (auto simp: proxy_start_def initRouteTable_def split_beta split: Option.bind_splits)
  with assms(4) have "proxy_ok pc (lp_px lp)"
  proof induction
    case (step lp env sg sel clocks lp' out)
    then show ?case using proxy_iteration_ok [OF step.hyps(3) _ assms(2)] by blast
  qed
  then show ?thesis by (simp add: proxy_ok_def)
qed

lemma sample_conf_ok: "conf_ok sample_pc"
  by (simp add: conf_ok_def sample_pc_def sample_config_def)

lemma acceptIgmp_total:
  assumes "routes_ok (px_routes px)" and "switch_ok (pc_wan_port pc) (px_switch px)"
    and "callouts_ok (px_callouts px)" and "send_template (px_send_buf px)"
    and "conf_ok pc" and "upstream_if pc = Some d" and "length recv_buf = RECV_BUF_SIZE"
  shows "\<exists>px' out. acceptIgmp pc env recvlen recv_buf px = Some (px', out) \<and>
    routes_ok (px_routes px') \<and> switch_ok (pc_wan_port pc) (px_switch px') \<and>
    callouts_ok (px_callouts px') \<and> send_template (px_send_buf px')"
proof -
  have ok: "proxy_ok pc px" using assms(1-4) by (simp add: proxy_ok_def)
  obtain m where m: "igmp_parse recvlen recv_buf = Some m"
    using igmp_parse_defined [OF assms(7)] by blast
  have "\<exists>px' out. acceptIgmp pc env recvlen recv_buf px = Some (px', out)"
  proof (cases m)
    case (Some x)
    obtain src grp ty code where x: "x = (src, grp, ty, code)" by (metis prod_cases4)
    show ?thesis
      using acceptGroupReport_defined [OF assms(6), of env src grp px]
        acceptLeaveMessage_defined [OF ok assms(6), of env src grp]
      by (auto simp: acceptIgmp_def m Some x split: prod.split)
  qed (simp add: acceptIgmp_def m)
  then obtain px' out where r: "acceptIgmp pc env recvlen recv_buf px = Some (px', out)" by blast
  with acceptIgmp_ok [OF r ok assms(5)] show ?thesis by (simp add: proxy_ok_def)
qed

lemma proxy_iteration_defined:
  assumes "proxy_ok pc (lp_px lp)" and "conf_ok pc" and "upstream_if pc = Some d" and "cache_ok env"
    and "clock_settles t0 t1 t2" and "lp_timeout_null lp \<longrightarrow> timer_nextTimer (px_callouts (lp_px lp)) = - 1"
    and "\<forall>n buf. sel = Sel_packet n buf \<longrightarrow> length buf = RECV_BUF_SIZE"
  shows "\<exists>lp' out. proxy_iteration pc env sg sel (xs @ [t0, t1, t2]) lp = Some (lp', out)"
proof (cases "sg \<or> sel = Sel_failure \<or> sel = Sel_recv_error")
  case False
  let ?secs = "timer_nextTimer (px_callouts (lp_px lp))"
  let ?lp = "lp\<lparr>lp_timeout_null := lp_timeout_null lp \<or> ?secs = - 1\<rparr>"
  show ?thesis
  proof (cases sel)
    case Sel_timeout
    then show ?thesis
      using False assms(6) handle_timeouts_defined(1) [of pc ?lp, OF _ assms(2-5)] assms(1)
      by (auto simp: proxy_iteration_def Let_def)
  next
    case (Sel_packet n buf)
    then have "length buf = RECV_BUF_SIZE" using assms(7) by blast
    then obtain px o1 where a: "acceptIgmp pc env n buf (lp_px lp) = Some (px, o1)"
      using acceptIgmp_total [OF _ _ _ _ assms(2,3), of "lp_px lp" buf env n] assms(1)
      by (auto simp: proxy_ok_def)
    have ok: "proxy_ok pc (lp_px (?lp\<lparr>lp_px := px\<rparr>))" using acceptIgmp_ok [OF a assms(1,2)] by simp
    have "\<exists>lp' out. handle_timeouts pc env ?secs c cs (?lp\<lparr>lp_px := px\<rparr>) = Some (lp', out)"
      if "xs @ [t0, t1, t2] = c # cs" for c cs
    proof (cases xs)
      case Nil
      then show ?thesis using that handle_timeouts_defined(2) [OF ok assms(2-5)] by simp
    next
      case (Cons x ys)
      then show ?thesis using that handle_timeouts_defined(1) [OF ok assms(2-5), of _ c ys] by simp
    qed
    then show ?thesis
      using False assms(6) Sel_packet a by (cases xs) (auto simp: proxy_iteration_def Let_def rd_def)
  qed (use False in simp_all)
qed (use assms(6) in \<open>auto simp: proxy_iteration_def Let_def\<close>)

definition sample_px :: proxy where
  "sample_px = \<lparr>px_routes = [], px_switch = sample_switch, px_callouts = \<lparr>co_id = 0, co_queue = []\<rparr>,
     px_startupQueryCount = 5, px_send_buf = initIgmp (replicate 8172 0)\<rparr>"

lemma sample_px_ok: "proxy_ok pc sample_px"
  using initIgmp_template [of "replicate 8172 0"] sample_switch_ok [of "pc_wan_port pc"]
  by (simp add: proxy_ok_def sample_px_def routes_ok_def callouts_ok_def)

text \<open>C32: The periodic general query keeps itself alive only while the WAN link is up.  With the link
  up, the next query is scheduled, after the start-up interval while start-up queries are left and
  after the query interval otherwise; and if the proxy was started with a working WAN, a membership
  query goes out from the address of every usable downstream interface to the group of all hosts
  (and nothing is sent otherwise).  With the link down, nothing is sent and nothing is scheduled,
  so the expired query timer, and with it the timer that ages the routes, is not renewed.  The
  state satisfies the invariant of the proxy and the configured intervals are not negative.\<close>

theorem general_query_rearms:
  assumes "proxy_ok pc px" and "conf_ok pc"
  shows "(pe_wan_link env \<longrightarrow> (\<exists>px' out i. sendGeneralMembershipQuery pc env px = Some (px', out) \<and>
       (i, sint (if px_startupQueryCount px > 0 then cf_startupQueryInterval (pc_conf pc)
                 else cf_queryInterval (pc_conf pc)), Some Cb_sendGeneralMembershipQuery)
         \<in> set (callout_agenda (px_callouts px')) \<and>
       (if pc_running pc then \<forall>Dp \<in> set (pc_ifs pc). query_target Dp \<longrightarrow> query_sent pc out Dp else out = []))) \<and>
    (\<not> pe_wan_link env \<longrightarrow> sendGeneralMembershipQuery pc env px = Some (px, []))"
proof (intro conjI impI)
  assume link: "pe_wan_link env"
  obtain px1 out where q: "(if pc_running pc then query_vifs pc (pc_ifs pc) px else Some (px, [])) = Some (px1, out)"
    "proxy_ok pc px1" "px_startupQueryCount px1 = px_startupQueryCount px"
    using query_vifs_ok [OF assms(1), of "pc_ifs pc"] assms(1) by (cases "pc_running pc") auto
  have snt: "if pc_running pc then \<forall>Dp \<in> set (pc_ifs pc). query_target Dp \<longrightarrow> query_sent pc out Dp else out = []"
    using q(1) query_vifs_sent [OF _ assms(1), of "pc_ifs pc" px1 out] by auto
  have c: "0 \<le> sint (cf_queryInterval (pc_conf pc))" "0 \<le> sint (cf_queryResponseInterval (pc_conf pc) * 5)"
    "0 \<le> sint (cf_startupQueryInterval (pc_conf pc))"
    using assms(2) by (simp_all add: conf_ok_def Let_def)
  let ?px = "set_timer (cf_queryResponseInterval (pc_conf pc) * 5) Cb_ageActiveRoutes px1"
  have ok: "callouts_ok (px_callouts ?px)"
    using set_timer_ok [OF q(2) c(2)] by (simp add: proxy_ok_def)
  have "\<exists>px' i. sendGeneralMembershipQuery pc env px = Some (px', out) \<and>
       (i, sint (if px_startupQueryCount px > 0 then cf_startupQueryInterval (pc_conf pc)
                 else cf_queryInterval (pc_conf pc)), Some Cb_sendGeneralMembershipQuery)
         \<in> set (callout_agenda (px_callouts px'))"
  proof (cases "px_startupQueryCount px > 0")
    case True
    then show ?thesis
      using link q c ok callout.set_agenda [OF ok c(3)]
      by (auto simp: sendGeneralMembershipQuery_def Let_def set_timer_def set_agenda_add)
  next
    case False
    let ?q = "set_timer (cf_queryInterval (pc_conf pc)) Cb_sendGeneralMembershipQuery ?px"
    have "callouts_ok (px_callouts ?q)"
      using set_timer_ok [OF set_timer_ok [OF q(2) c(2)] c(1)] by (simp add: proxy_ok_def)
    then show ?thesis
      using False link q c ok callout.set_agenda [OF ok c(1)] callout.set_agenda [of "px_callouts ?q" "sint (5 + 10 :: u32)"]
      by (auto simp: sendGeneralMembershipQuery_def Let_def set_timer_def set_agenda_add)
  qed
  with snt show "\<exists>px' out i. sendGeneralMembershipQuery pc env px = Some (px', out) \<and>
       (i, sint (if px_startupQueryCount px > 0 then cf_startupQueryInterval (pc_conf pc)
                 else cf_queryInterval (pc_conf pc)), Some Cb_sendGeneralMembershipQuery)
         \<in> set (callout_agenda (px_callouts px')) \<and>
       (if pc_running pc then \<forall>Dp \<in> set (pc_ifs pc). query_target Dp \<longrightarrow> query_sent pc out Dp else out = [])"
    by blast
qed (simp add: sendGeneralMembershipQuery_def)

theorem general_query_rearms_witness:
  "(\<exists>px' out i. sendGeneralMembershipQuery sample_pc sample_penv sample_px = Some (px', out) \<and>
     (i, 30, Some Cb_sendGeneralMembershipQuery) \<in> set (callout_agenda (px_callouts px')) \<and>
     query_sent sample_pc out sample_lan) \<and>
   sendGeneralMembershipQuery sample_pc (sample_penv\<lparr>pe_wan_link := False\<rparr>) sample_px = Some (sample_px, [])"
proof -
  have "query_target sample_lan" "sample_lan \<in> set (pc_ifs sample_pc)" "pc_running sample_pc" "pe_wan_link sample_penv"
    "sint (cf_startupQueryInterval (pc_conf sample_pc)) = 30" "px_startupQueryCount sample_px > 0"
    by (simp_all add: query_target_def sample_lan_def sample_if_def sample_pc_def sample_penv_def
        sample_config_def sample_px_def)
  then show ?thesis
    using general_query_rearms [OF sample_px_ok sample_conf_ok, of sample_penv]
      general_query_rearms [OF sample_px_ok sample_conf_ok, of "sample_penv\<lparr>pe_wan_link := False\<rparr>"]
    by (simp, metis)
qed

lemma timeout_round_null:
  "timeout_round pc env secs cur lp = Some (lp', out, s) \<Longrightarrow> lp_timeout_null lp' = lp_timeout_null lp"
  by (auto simp: timeout_round_def Let_def split: if_splits prod.splits Option.bind_splits)

lemma timeout_rounds_null:
  "timeout_rounds pc env clocks lp = Some (lp', out) \<Longrightarrow> lp_timeout_null lp' = lp_timeout_null lp"
proof (induction clocks arbitrary: lp out)
  case (Cons cur clocks)
  then obtain lp1 o1 s where r: "timeout_round pc env (- 1) cur lp = Some (lp1, o1, s)"
    by (auto split: Option.bind_splits)
  from timeout_round_null [OF r] Cons show ?case
    by (auto simp: r split: if_splits Option.bind_splits)
qed simp

lemma handle_timeouts_null:
  assumes "handle_timeouts pc env secs cur clocks lp = Some (lp', out)"
  shows "lp_timeout_null lp' = lp_timeout_null lp"
proof -
  obtain lp1 o1 s where r: "timeout_round pc env secs cur lp = Some (lp1, o1, s)"
    using assms by (auto simp: handle_timeouts_def split: Option.bind_splits)
  from timeout_round_null [OF r] timeout_rounds_null assms show ?thesis
    by (auto simp: handle_timeouts_def r split: if_splits Option.bind_splits)
qed

text \<open>C33: A main loop that has once found the callout queue empty crashes as soon as a timer is
  pending again.  The pointer to the timeout is set to null for the empty queue and never set
  back, so that the next iteration with a pending timer stores through the null pointer.\<close>

theorem empty_queue_crashes_loop:
  assumes "timer_nextTimer (px_callouts (lp_px lp)) = - 1"
    and "proxy_iteration pc env False sel clocks lp = Some (lp', out)"
    and "timer_nextTimer (px_callouts (lp_px lp')) \<noteq> - 1"
  shows "proxy_iteration pc env' False sel' clocks' lp' = None"
proof -
  have "lp_timeout_null lp'"
    using assms(2)
  proof (cases rule: proxy_iteration_cases)
    case idle
    then show ?thesis using assms(1) by simp
  next
    case (timeout secs cur clocks' lp2 o2)
    then show ?thesis using handle_timeouts_null [OF timeout(2)] assms(1) by simp
  next
    case (packet n buf px o1 secs cur clocks' o2)
    then show ?thesis using handle_timeouts_null [OF packet(2)] assms(1) by simp
  qed
  with assms(3) show ?thesis by (simp add: proxy_iteration_def Let_def)
qed

lemma set_timer_pending:
  assumes "callouts_ok (px_callouts px)" and "0 \<le> sint delay"
  shows "timer_nextTimer (px_callouts (set_timer delay cb px)) \<noteq> - 1"
proof -
  let ?c = "px_callouts (set_timer delay cb px)"
  have "callouts_ok ?c" using assms by (simp add: set_timer_def setTimer_ok)
  moreover have "co_queue ?c \<noteq> []"
    by (cases "co_queue (px_callouts px)") (auto simp: set_timer_def timer_setTimer_def Let_def)
  ultimately show ?thesis by (auto simp: timer_nextTimer_def split: list.split)
qed

lemma acceptLeaveMessage_pending:
  assumes "proxy_ok pc px" and "conf_ok pc" and "upstream_if pc = Some d" and "pe_wan_link env" and "pc_running pc"
    and "IN_MULTICAST (ntohl grp)" and "getIfByAddress src (pc_ifs pc) = Some vif"
    and "if_state vif = IF_STATE_DOWNSTREAM"
  shows "\<exists>px' out. acceptLeaveMessage pc env src grp px = Some (px', out) \<and>
    timer_nextTimer (px_callouts px') \<noteq> - 1"
proof -
  obtain sw o1 where r: "remove_member (pc_wan_port pc) (ntohl grp) (ntohl src) True (px_switch px) = (sw, o1)" by force
  obtain routes o2 where m: "setRouteLastMemberMode pc grp sw (px_routes px) = Some (routes, o2)"
    using setRouteLastMemberMode_defined [OF assms(3)] by blast
  let ?px = "px\<lparr>px_switch := sw, px_routes := routes\<rparr>"
  let ?t = "cf_lastMemberQueryInterval (pc_conf pc)"
  have "switch_ok (pc_wan_port pc) sw"
    using assms(1) remove_member_spec [of "pc_wan_port pc" "px_switch px" "ntohl grp" "ntohl src" True] r
    by (simp add: proxy_ok_def)
  then have "proxy_ok pc ?px"
    using assms(1) setRouteLastMemberMode_ok [OF m] by (simp add: proxy_ok_def)
  then obtain b o3 where s: "send_igmp (if_InAdr vif) grp IGMP_MEMBERSHIP_QUERY (?t * IGMP_TIMER_SCALE) grp ?px =
      Some (?px\<lparr>px_send_buf := b\<rparr>, o3)" "proxy_ok pc (?px\<lparr>px_send_buf := b\<rparr>)"
    by (rule send_igmp_spec)
  moreover have "0 \<le> sint ?t" using assms(2) by (simp add: conf_ok_def Let_def)
  ultimately show ?thesis
    using assms set_timer_pending [of "?px\<lparr>px_send_buf := b\<rparr>" ?t]
    by (simp add: acceptLeaveMessage_def sendGroupSpecificMemberQuery_def r m Let_def proxy_ok_def)
qed

definition leave_frame :: "byte list" where
  "leave_frame = [0x45, 0xc0] @ bytes_le16 (htons 28) @ [0, 0, 0, 0, 1, IPPROTO_IGMP, 0, 0] @
     bytes_le32 0x0500a8c0 @ bytes_le32 0x040302e1 @ igmp_msg IGMP_V2_LEAVE_GROUP 0 0x040302e1 @ replicate 8164 0"

lemma leave_frame_parse: "igmp_parse 28 leave_frame = Some (Some (0x0500a8c0, 0x040302e1, IGMP_V2_LEAVE_GROUP, 0))"
proof -
  have "take 28 leave_frame = [0x45, 0xc0] @ bytes_le16 (htons 28) @ [0, 0, 0, 0] @ [1, IPPROTO_IGMP] @ [0, 0] @
      bytes_le32 0x0500a8c0 @ bytes_le32 0x040302e1 @ igmp_msg IGMP_V2_LEAVE_GROUP 0 0x040302e1"
    by (simp add: leave_frame_def igmp_msg_def bytes_le32_def bytes_le16_def)
  from igmp_parse_frame [OF this] show ?thesis
    by (simp add: UPNP_MCAST_ADDR_def leave_frame_def ntohl_def le32_def)
qed

theorem empty_queue_crashes_loop_witness:
  "\<exists>lp out. proxy_iteration sample_pc sample_penv False (Sel_packet 28 leave_frame) [(0, 0)]
       \<lparr>lp_px = sample_px, lp_timeout_null = False, lp_lasttime = (0, 0), lp_diff_usec = 0,
        lp_exited = False\<rparr> = Some (lp, out) \<and>
     proxy_iteration sample_pc sample_penv False Sel_timeout [] lp = None"
proof -
  have "getIfByAddress 0x0500a8c0 (pc_ifs sample_pc) = Some sample_lan"
    by (simp add: getIfByAddress_def sample_pc_def sample_lan_def sample_wan_def sample_if_def)
  then obtain px' out where a: "acceptLeaveMessage sample_pc sample_penv 0x0500a8c0 0x040302e1 sample_px = Some (px', out)"
    "timer_nextTimer (px_callouts px') \<noteq> - 1"
    using acceptLeaveMessage_pending [OF sample_px_ok sample_conf_ok sample_upstream _ _ sample_group, of sample_penv "0x0500a8c0"]
    by (auto simp: sample_penv_def sample_pc_def sample_lan_def sample_if_def)
  let ?lp = "\<lparr>lp_px = sample_px, lp_timeout_null = False, lp_lasttime = (0, 0), lp_diff_usec = 0, lp_exited = False\<rparr>"
  have e: "timer_nextTimer (px_callouts sample_px) = - 1"
    by (simp add: sample_px_def timer_nextTimer_def)
  have "carry_usec 0 0 = (0, 0)" by (simp add: carry_usec.simps)
  then have "proxy_iteration sample_pc sample_penv False (Sel_packet 28 leave_frame) [(0, 0)] ?lp =
      Some (?lp\<lparr>lp_px := px', lp_timeout_null := True\<rparr>, out)"
    using a(1) e by (simp add: proxy_iteration_def acceptIgmp_def leave_frame_parse rd_def handle_timeouts_def
        timeout_round_def Let_def)
  with empty_queue_crashes_loop [OF _ this] e a(2) show ?thesis by auto
qed

end
