(* ===== verification/Igmp_Config.thy ===== *)
theory Igmp_Config
  imports Igmp_Route
begin

section \<open>The configuration of the IGMP proxy\<close>

text \<open>
  \<^verbatim>\<open>igmpproxy/src/confread.c\<close> splits the configuration file into tokens, \<^verbatim>\<open>config.c\<close> parses them
  and applies the result to the interface vector.  The file is a byte list that \<^verbatim>\<open>fread\<close> returns
  in blocks of 512 bytes.  The loops may run forever, so they are partial functions with \<open>None\<close>
  for no result; \<open>Crash\<close> is a use of a null pointer.  The names of the WAN interface
  (\<^verbatim>\<open>get_wan_ifname\<close>) and of the LAN interface (\<^verbatim>\<open>IF_LOCAL\<close>) are parameters, and \<^verbatim>\<open>malloc\<close>
  succeeds.
\<close>

subsection \<open>The token reader (confread.c)\<close>

abbreviation (input) READ_BUFFER_SIZE :: nat where "READ_BUFFER_SIZE \<equiv> 512"
abbreviation (input) MAX_TOKEN_LENGTH :: nat where "MAX_TOKEN_LENGTH \<equiv> 30"

text \<open>\<open>cr_open\<close>: file handle and buffer exist; \<open>cr_file\<close>: what \<^verbatim>\<open>fread\<close> has not returned yet;
  \<open>cr_unread\<close>: the buffer from \<^verbatim>\<open>bufPtr\<close> to \<^verbatim>\<open>readSize\<close>; \<open>cr_token\<close>: \<^verbatim>\<open>cToken\<close> while
  \<^verbatim>\<open>validToken\<close> is set.\<close>

record conf_reader =
  cr_open :: bool
  cr_file :: "byte list"
  cr_unread :: "byte list"
  cr_readSize :: nat
  cr_token :: "byte list option"

definition openConfigFile :: "byte list option \<Rightarrow> conf_reader \<Rightarrow> bool \<times> conf_reader" where
  "openConfigFile file r =
     (case file of
        None \<Rightarrow> (False, r\<lparr>cr_open := False\<rparr>)
      | Some bs \<Rightarrow> (True, r\<lparr>cr_open := True, cr_file := bs, cr_unread := [], cr_readSize := 0\<rparr>))"

text \<open>One character: the token so far, whether a comment is open, and whether the token is
  complete.\<close>

definition token_char :: "byte \<Rightarrow> byte list \<Rightarrow> bool \<Rightarrow> byte list \<times> bool \<times> bool" where
  "token_char c tok commentFound =
     (let (tok, commentFound, finished) =
        (if commentFound then (tok, c \<noteq> 10, False)
         else if c = 0x23 then (tok, True, False)
         else if c \<in> {10, 13, 9, 0x20} then (tok, False, tok \<noteq> [])
         else (tok @ [c], False, False))
      in (tok, commentFound, finished \<or> length tok = MAX_TOKEN_LENGTH - 1))"

text \<open>The inner loop; a NUL byte ends it and is not consumed.\<close>

fun token_chars :: "byte list \<Rightarrow> byte list \<Rightarrow> bool \<Rightarrow> byte list \<times> byte list \<times> bool \<times> bool" where
  "token_chars [] tok commentFound = ([], tok, commentFound, False)"
| "token_chars (c # cs) tok commentFound =
     (if c = 0 then (c # cs, tok, commentFound, False)
      else case token_char c tok commentFound of (tok, commentFound, finished) \<Rightarrow>
        if finished then (cs, tok, commentFound, True) else token_chars cs tok commentFound)"

definition fill_buffer :: "conf_reader \<Rightarrow> conf_reader" where
  "fill_buffer r = r\<lparr>cr_unread := take READ_BUFFER_SIZE (cr_file r),
     cr_readSize := min READ_BUFFER_SIZE (length (cr_file r)), cr_file := drop READ_BUFFER_SIZE (cr_file r)\<rparr>"

partial_function (option) token_loop ::
  "conf_reader \<Rightarrow> byte list \<Rightarrow> bool \<Rightarrow> (byte list option \<times> conf_reader) option" where
  "token_loop r tok commentFound =
     (let r = (if cr_unread r = [] then fill_buffer r else r) in
      if cr_unread r = [] then Some (None, r)
      else case token_chars (cr_unread r) tok commentFound of (u, tok, commentFound, finished) \<Rightarrow>
        let r = r\<lparr>cr_unread := u\<rparr> in
        if cr_readSize r < READ_BUFFER_SIZE \<and> u = [] then Some (None, r)
        else if finished then Some (Some tok, r\<lparr>cr_token := Some tok\<rparr>)
        else token_loop r tok commentFound)"

definition nextConfigToken :: "conf_reader \<Rightarrow> (byte list option \<times> conf_reader) option" where
  "nextConfigToken r =
     (let r = r\<lparr>cr_token := None\<rparr> in if \<not> cr_open r then Some (None, r) else token_loop r [] False)"

definition getCurrentConfigToken :: "conf_reader \<Rightarrow> byte list option" where
  "getCurrentConfigToken r = cr_token r"

subsection \<open>The parser (config.c)\<close>

text \<open>\<^verbatim>\<open>atoi\<close>: blanks, a sign and decimal digits, limited to the range of \<^verbatim>\<open>int\<close>.\<close>

definition atoi :: "byte list \<Rightarrow> int" where
  "atoi s =
     (let t = dropWhile isspace s;
          neg = (t \<noteq> [] \<and> hd t = 0x2d);
          u = (if t \<noteq> [] \<and> (hd t = 0x2d \<or> hd t = 0x2b) then tl t else t);
          n = int (fst (digits 10 0 u))
      in if neg then max (- (2 ^ 31)) (- n) else min (2 ^ 31 - 1) n)"

text \<open>\<open>vc_name\<close> is \<open>None\<close> while the pointer is uninitialised.\<close>

record vifconfig =
  vc_name :: "byte list option"
  vc_state :: if_state_t
  vc_ratelimit :: int
  vc_threshold :: int
  vc_allowednets :: "subnet list"

datatype 'a conf_res = Crash | Done 'a

text \<open>\<open>Past_block n\<close>: \<open>n\<close> bytes are written behind the end of an allocated block.\<close>

datatype conf_out = Past_block nat

definition copy_name :: "nat \<Rightarrow> byte list \<Rightarrow> conf_out list" where
  "copy_name block name = (if length name + 1 \<le> block then [] else [Past_block (length name + 1 - block)])"

text \<open>The outer \<open>None\<close> is the call \<^verbatim>\<open>inet_addr(NULL)\<close> for a token that holds slashes only.\<close>

definition parseSubnetAddress :: "byte list \<Rightarrow> subnet option option" where
  "parseSubnetAddress addrstr =
     (case strtok [0x2f] addrstr of
        None \<Rightarrow> None
      | Some (tmpStr, rest) \<Rightarrow>
          let addr = inet_addr tmpStr;
              bitcnt = (case strtok [0x2f] rest of None \<Rightarrow> 32 | Some (tmpStr, _) \<Rightarrow> atoi tmpStr)
          in if bitcnt < 0 \<or> bitcnt > 32 then Some None
             else
               let mask = (if bitcnt = 0 then 0 else push_bit (nat (32 - bitcnt)) 0xffffffff)
               in if addr = - 1 then Some None
                  else Some (Some \<lparr>subnet_addr = addr, subnet_mask = ntohl mask\<rparr>))"

definition default_vifconfig :: vifconfig where
  "default_vifconfig = \<lparr>vc_name = None, vc_state = IF_STATE_DOWNSTREAM, vc_ratelimit = 0,
     vc_threshold = 1, vc_allowednets = []\<rparr>"

type_synonym phyint_res = "(vifconfig option \<times> conf_reader \<times> conf_out list) conf_res"

partial_function (option) phyint_loop ::
  "byte list \<Rightarrow> byte list \<Rightarrow> byte list option \<Rightarrow> vifconfig \<Rightarrow> conf_reader \<Rightarrow> conf_out list \<Rightarrow> phyint_res option" where
  "phyint_loop wanif if_local token tmp r out =
     (case token of
        None \<Rightarrow> Some (Done (Some tmp, r, out))
      | Some t \<Rightarrow>
          if t = str ''altnet'' then
            Option.bind (nextConfigToken r) (\<lambda>(arg, r).
              case arg of
                None \<Rightarrow> Some Crash
              | Some a \<Rightarrow>
                  (case parseSubnetAddress a of
                     None \<Rightarrow> Some Crash
                   | Some None \<Rightarrow> Some (Done (None, r, out))
                   | Some (Some n) \<Rightarrow>
                       Option.bind (nextConfigToken r) (\<lambda>(token, r).
                         phyint_loop wanif if_local token
                           (tmp\<lparr>vc_allowednets := vc_allowednets tmp @ [n]\<rparr>) r out)))
          else if t = str ''upstream'' then
            Option.bind (nextConfigToken r) (\<lambda>(token, r).
              phyint_loop wanif if_local token
                (tmp\<lparr>vc_name := Some wanif, vc_state := IF_STATE_UPSTREAM\<rparr>) r
                (out @ copy_name (length ''ethx.x'') wanif))
          else if t = str ''downstream'' then
            Option.bind (nextConfigToken r) (\<lambda>(token, r).
              phyint_loop wanif if_local token
                (tmp\<lparr>vc_name := Some if_local, vc_state := IF_STATE_DOWNSTREAM\<rparr>) r
                (out @ copy_name (length if_local) if_local))
          else if t = str ''disabled'' then
            Option.bind (nextConfigToken r) (\<lambda>(token, r).
              phyint_loop wanif if_local token (tmp\<lparr>vc_state := IF_STATE_DISABLED\<rparr>) r out)
          else if t = str ''ratelimit'' then
            Option.bind (nextConfigToken r) (\<lambda>(arg, r).
              case arg of
                None \<Rightarrow> Some Crash
              | Some a \<Rightarrow>
                  if atoi a < 0 then Some (Done (None, r, out))
                  else Option.bind (nextConfigToken r) (\<lambda>(token, r).
                    phyint_loop wanif if_local token (tmp\<lparr>vc_ratelimit := atoi a\<rparr>) r out))
          else if t = str ''threshold'' then
            Option.bind (nextConfigToken r) (\<lambda>(arg, r).
              case arg of
                None \<Rightarrow> Some Crash
              | Some a \<Rightarrow>
                  if atoi a \<le> 0 \<or> atoi a > 255 then Some (Done (None, r, out))
                  else Option.bind (nextConfigToken r) (\<lambda>(token, r).
                    phyint_loop wanif if_local token (tmp\<lparr>vc_threshold := atoi a\<rparr>) r out))
          else Some (Done (Some tmp, r, out)))"

definition parsePhyintToken :: "byte list \<Rightarrow> byte list \<Rightarrow> conf_reader \<Rightarrow> phyint_res option" where
  "parsePhyintToken wanif if_local r =
     Option.bind (nextConfigToken r) (\<lambda>(token, r).
       phyint_loop wanif if_local token default_vifconfig r [])"

definition initCommonConfig :: Config where
  "initCommonConfig = \<lparr>cf_robustnessValue = DEFAULT_ROBUSTNESS, cf_queryInterval = 60 * 2,
     cf_queryResponseInterval = 5, cf_startupQueryInterval = 60 * 2 div 4,
     cf_lastMemberQueryInterval = 5, cf_lastMemberQueryCount = DEFAULT_ROBUSTNESS,
     cf_fastUpstreamLeave = False\<rparr>"

type_synonym load_res = "(bool \<times> Config \<times> vifconfig list \<times> conf_out list) conf_res"

partial_function (option) load_loop ::
  "byte list \<Rightarrow> byte list \<Rightarrow> byte list option \<Rightarrow> Config \<Rightarrow> vifconfig list \<Rightarrow> conf_reader \<Rightarrow> conf_out list
    \<Rightarrow> load_res option" where
  "load_loop wanif if_local token cf vifconf r out =
     (case token of
        None \<Rightarrow> Some (Done (True, cf, vifconf, out))
      | Some t \<Rightarrow>
          if t = str ''phyint'' then
            Option.bind (parsePhyintToken wanif if_local r) (\<lambda>res.
              case res of
                Crash \<Rightarrow> Some Crash
              | Done (tmpPtr, r, out') \<Rightarrow>
                  (case tmpPtr of
                     None \<Rightarrow> Some (Done (False, cf, vifconf, out @ out'))
                   | Some v \<Rightarrow> load_loop wanif if_local (getCurrentConfigToken r) cf (vifconf @ [v]) r (out @ out')))
          else if t = str ''quickleave'' then
            Option.bind (nextConfigToken r) (\<lambda>(token, r).
              load_loop wanif if_local token (cf\<lparr>cf_fastUpstreamLeave := True\<rparr>) vifconf r out)
          else Some (Done (False, cf, vifconf, out)))"

definition loadConfig :: "byte list \<Rightarrow> byte list \<Rightarrow> byte list option \<Rightarrow> conf_reader \<Rightarrow> load_res option" where
  "loadConfig wanif if_local configFile r =
     Option.bind (nextConfigToken (snd (openConfigFile configFile r))) (\<lambda>(token, r).
       load_loop wanif if_local token initCommonConfig [] r [])"

subsection \<open>Configuration of the interfaces\<close>

text \<open>The outer \<open>None\<close> is a comparison with an uninitialised name.\<close>

fun find_vifconfig :: "byte list \<Rightarrow> vifconfig list \<Rightarrow> vifconfig option option" where
  "find_vifconfig name [] = Some None"
| "find_vifconfig name (c # cs) =
     (case vc_name c of
        None \<Rightarrow> None
      | Some n \<Rightarrow> if n = name then Some (Some c) else find_vifconfig name cs)"

definition configure_if :: "vifconfig list \<Rightarrow> IfDesc \<Rightarrow> IfDesc option" where
  "configure_if vifconf Dp =
     (if if_InAdr Dp \<noteq> 0 \<and> if_Flags Dp AND IFF_LOOPBACK = 0 then
        Option.bind (find_vifconfig (if_Name Dp) vifconf) (\<lambda>c.
          case c of
            None \<Rightarrow> Some Dp
          | Some c \<Rightarrow>
              if if_allowednets Dp = [] then None
              else Some (Dp\<lparr>if_state := vc_state c, if_threshold := of_int (vc_threshold c),
                            if_ratelimit := of_int (vc_ratelimit c),
                            if_allowednets := if_allowednets Dp @ vc_allowednets c\<rparr>))
      else Some Dp)"

fun configureVifs :: "vifconfig list \<Rightarrow> IfDesc list \<Rightarrow> IfDesc list option" where
  "configureVifs vifconf [] = Some []"
| "configureVifs vifconf (Dp # ifs) = do {
     Dp' \<leftarrow> configure_if vifconf Dp;
     ifs' \<leftarrow> configureVifs vifconf ifs;
     Some (Dp' # ifs')
   }"

subsection \<open>The reader refines a scan of the whole file\<close>

text \<open>\<open>scan_token\<close> is the tokenizer on a byte sequence without blocks; \<open>scan_next\<close> adds what the
  reader does at the end of a file of \<open>n\<close> bytes.\<close>

fun scan_token :: "byte list \<Rightarrow> bool \<Rightarrow> byte list \<Rightarrow> (byte list \<times> byte list) option" where
  "scan_token tok com [] = None"
| "scan_token tok com (c # cs) =
     (case token_char c tok com of (tok, com, fin) \<Rightarrow>
        if fin then Some (tok, cs) else scan_token tok com cs)"

definition scan_from :: "nat \<Rightarrow> byte list \<Rightarrow> bool \<Rightarrow> byte list \<Rightarrow> byte list option \<times> byte list" where
  "scan_from n tok com s =
     (case scan_token tok com s of
        None \<Rightarrow> (None, [])
      | Some (t, rest) \<Rightarrow> (if rest = [] \<and> n mod READ_BUFFER_SIZE \<noteq> 0 then None else Some t, rest))"

abbreviation scan_next :: "nat \<Rightarrow> byte list \<Rightarrow> byte list option \<times> byte list" where
  "scan_next n \<equiv> scan_from n [] False"

definition stream :: "conf_reader \<Rightarrow> byte list" where
  "stream r = cr_unread r @ cr_file r"

definition block_ok :: "nat \<Rightarrow> nat \<Rightarrow> byte list \<Rightarrow> bool" where
  "block_ok n sz f \<longleftrightarrow> 0 < sz \<and> sz \<le> READ_BUFFER_SIZE \<and>
     (if sz = READ_BUFFER_SIZE then length f mod READ_BUFFER_SIZE = n mod READ_BUFFER_SIZE
      else f = [] \<and> n mod READ_BUFFER_SIZE = sz)"

definition reader_ok :: "nat \<Rightarrow> conf_reader \<Rightarrow> bool" where
  "reader_ok n r \<longleftrightarrow>
     (if cr_unread r = [] then cr_file r \<noteq> [] \<longrightarrow> length (cr_file r) mod READ_BUFFER_SIZE = n mod READ_BUFFER_SIZE
      else block_ok n (cr_readSize r) (cr_file r))"

lemma token_chars_scan:
  "\<lbrakk>0 \<notin> set u; token_chars u tok com = (u', tok', com', fin)\<rbrakk> \<Longrightarrow> set u' \<subseteq> set u \<and>
   (if fin then scan_token tok com (u @ f) = Some (tok', u' @ f)
    else u' = [] \<and> scan_token tok com (u @ f) = scan_token tok' com' f)"
proof (induction u arbitrary: tok com)
  case (Cons c u)
  obtain t1 c1 f1 where t: "token_char c tok com = (t1, c1, f1)" by (metis prod_cases3)
  show ?case
  proof (cases f1)
    case True
    then show ?thesis using Cons.prems t by auto
  next
    case False
    then show ?thesis using Cons.IH [of t1 c1] Cons.prems t by auto
  qed
qed simp

lemma fill_buffer_ok:
  assumes "cr_unread r = []" and "reader_ok n r" and "cr_file r \<noteq> []"
  shows "cr_unread (fill_buffer r) \<noteq> []" and "stream (fill_buffer r) = stream r"
    and "block_ok n (cr_readSize (fill_buffer r)) (cr_file (fill_buffer r))"
proof -
  show "cr_unread (fill_buffer r) \<noteq> []" "stream (fill_buffer r) = stream r"
    using assms by (simp_all add: fill_buffer_def stream_def)
  have m: "length (cr_file r) mod 512 = n mod 512"
    using assms by (simp add: reader_ok_def)
  show "block_ok n (cr_readSize (fill_buffer r)) (cr_file (fill_buffer r))"
  proof (cases "length (cr_file r) < 512")
    case True
    then have "0 < n mod 512" using m assms(3) by (metis length_greater_0_conv mod_less)
    with True m show ?thesis by (auto simp: block_ok_def fill_buffer_def)
  next
    case False
    then have "length (cr_file r) mod 512 = (length (cr_file r) - 512) mod 512"
      by (simp add: le_mod_geq)
    with False m show ?thesis by (simp add: block_ok_def fill_buffer_def)
  qed
qed

text \<open>One pass of the outer loop over a non-empty buffer.\<close>

lemma token_loop_unread:
  assumes "cr_unread r \<noteq> []"
  shows "token_loop r tok com =
    (case token_chars (cr_unread r) tok com of (u, tok', com', fin) \<Rightarrow>
       if cr_readSize r < 512 \<and> u = [] then Some (None, r\<lparr>cr_unread := u\<rparr>)
       else if fin then Some (Some tok', r\<lparr>cr_unread := u, cr_token := Some tok'\<rparr>)
       else token_loop (r\<lparr>cr_unread := u\<rparr>) tok' com')"
  using assms by (subst token_loop.simps) (simp add: Let_def split: prod.split)

lemma token_loop_empty:
  assumes "cr_unread r = []"
  shows "token_loop r tok com = (if cr_file r = [] then Some (None, fill_buffer r) else token_loop (fill_buffer r) tok com)"
proof (cases "cr_file r = []")
  case False
  then have "cr_unread (fill_buffer r) \<noteq> []" by (simp add: fill_buffer_def)
  with assms False show ?thesis
    by (subst token_loop.simps, subst token_loop_unread) (simp_all add: Let_def split: prod.split)
qed (use assms in \<open>subst token_loop.simps, simp add: fill_buffer_def\<close>)

definition token_result :: "nat \<Rightarrow> conf_reader \<Rightarrow> byte list option \<times> byte list \<Rightarrow> (byte list option \<times> conf_reader) option \<Rightarrow> bool" where
  "token_result n r sc res \<longleftrightarrow> (\<exists>r'. res = Some (fst sc, r') \<and> stream r' = snd sc \<and>
     (if fst sc = None then cr_token r' = cr_token r else cr_token r' = fst sc) \<and>
     reader_ok n r' \<and> cr_open r' = cr_open r)"

lemma token_result_cong:
  "\<lbrakk>cr_token r = cr_token r'; cr_open r = cr_open r'\<rbrakk> \<Longrightarrow> token_result n r = token_result n r'"
  by (simp add: token_result_def fun_eq_iff)

lemma token_loop_block:
  assumes ok: "block_ok n (cr_readSize r) (cr_file r)" and ne: "cr_unread r \<noteq> []" and nz: "0 \<notin> set (stream r)"
    and IH: "\<And>r' tok com. \<lbrakk>length (stream r') < length (stream r); reader_ok n r'; 0 \<notin> set (stream r')\<rbrakk> \<Longrightarrow>
      token_result n r' (scan_from n tok com (stream r')) (token_loop r' tok com)"
  shows "token_result n r (scan_from n tok com (stream r)) (token_loop r tok com)"
proof -
  obtain u tok' com' fin where t: "token_chars (cr_unread r) tok com = (u, tok', com', fin)"
    by (metis prod_cases4)
  have sc: "if fin then scan_token tok com (stream r) = Some (tok', u @ cr_file r)
    else u = [] \<and> scan_token tok com (stream r) = scan_token tok' com' (cr_file r)"
    using token_chars_scan [OF _ t] nz by (auto simp: stream_def)
  show ?thesis
  proof (cases fin)
    case True
    then have s: "scan_token tok com (stream r) = Some (tok', u @ cr_file r)"
      using sc by simp
    show ?thesis
    proof (cases "cr_readSize r < 512 \<and> u = []")
      case last: True
      then have "cr_file r = []" "n mod 512 \<noteq> 0" using ok by (auto simp: block_ok_def split: if_splits)
      then show ?thesis
        using t s last ne by (simp add: token_loop_unread scan_from_def token_result_def stream_def reader_ok_def)
    next
      case more: False
      have "\<not> (u @ cr_file r = [] \<and> n mod 512 \<noteq> 0)"
        using more ok by (auto simp: block_ok_def split: if_splits)
      moreover have "reader_ok n (r\<lparr>cr_unread := u, cr_token := Some tok'\<rparr>)"
        using more ok by (auto simp: reader_ok_def block_ok_def split: if_splits)
      ultimately show ?thesis
        using t s more True ne by (auto simp: token_loop_unread scan_from_def token_result_def stream_def)
    qed
  next
    case False
    then have u: "u = []" and s: "scan_token tok com (stream r) = scan_token tok' com' (cr_file r)"
      using sc by simp_all
    show ?thesis
    proof (cases "cr_readSize r < 512")
      case True
      then show ?thesis
        using s t u ok ne
        by (auto simp: token_loop_unread scan_from_def token_result_def stream_def reader_ok_def block_ok_def)
    next
      case long: False
      let ?r = "r\<lparr>cr_unread := []\<rparr>"
      have "token_result n ?r (scan_from n tok' com' (stream ?r)) (token_loop ?r tok' com')"
        using ok ne nz long by (intro IH) (auto simp: stream_def reader_ok_def block_ok_def)
      moreover have "token_loop r tok com = token_loop ?r tok' com'"
        using t u False long ne by (simp add: token_loop_unread)
      moreover have "scan_from n tok com (stream r) = scan_from n tok' com' (stream ?r)"
        using s by (simp add: scan_from_def stream_def)
      moreover have "token_result n r = token_result n ?r"
        by (rule token_result_cong) simp_all
      ultimately show ?thesis by (simp only:)
    qed
  qed
qed

lemma token_loop_scan:
  assumes "reader_ok n r" and "0 \<notin> set (stream r)"
  shows "token_result n r (scan_from n tok com (stream r)) (token_loop r tok com)"
  using assms
proof (induction "length (stream r)" arbitrary: r tok com rule: less_induct)
  case less
  show ?case
  proof (cases "cr_unread r = []")
    case False
    then show ?thesis
      using less.prems by (intro token_loop_block [OF _ _ _ less.hyps]) (auto simp: reader_ok_def)
  next
    case empty: True
    show ?thesis
    proof (cases "cr_file r = []")
      case True
      then show ?thesis
        using empty by (simp add: token_loop_empty scan_from_def token_result_def stream_def fill_buffer_def reader_ok_def)
    next
      case False
      note f = fill_buffer_ok [OF empty less.prems(1) False]
      have "token_result n (fill_buffer r) (scan_from n tok com (stream (fill_buffer r))) (token_loop (fill_buffer r) tok com)"
        using f less.prems by (intro token_loop_block [OF _ _ _ less.hyps]) simp_all
      moreover have "token_loop r tok com = token_loop (fill_buffer r) tok com"
        using empty False by (simp add: token_loop_empty)
      moreover have "token_result n r = token_result n (fill_buffer r)"
        by (rule token_result_cong) (simp_all add: fill_buffer_def)
      ultimately show ?thesis using f(2) by simp
    qed
  qed
qed

lemma nextConfigToken_scan:
  assumes "reader_ok n r" and "0 \<notin> set (stream r)" and "cr_open r"
  obtains r' where "nextConfigToken r = Some (fst (scan_next n (stream r)), r')"
    and "stream r' = snd (scan_next n (stream r))" and "cr_token r' = fst (scan_next n (stream r))"
    and "reader_ok n r'" and "cr_open r'"
proof -
  have "stream (r\<lparr>cr_token := None\<rparr>) = stream r" "reader_ok n (r\<lparr>cr_token := None\<rparr>)"
    using assms by (simp_all add: stream_def reader_ok_def)
  with token_loop_scan [of n "r\<lparr>cr_token := None\<rparr>" "[]" False] assms(2,3)
  obtain r' where "token_loop (r\<lparr>cr_token := None\<rparr>) [] False = Some (fst (scan_next n (stream r)), r')"
    "stream r' = snd (scan_next n (stream r))" "reader_ok n r'" "cr_open r'"
    "cr_token r' = fst (scan_next n (stream r))"
    by (auto simp: token_result_def split: if_splits)
  with assms(3) show thesis
    by (intro that [of r']) (simp_all add: nextConfigToken_def)
qed

subsection \<open>Files without NUL bytes are read to the end\<close>

lemma scan_token_shorter:
  "scan_token tok com s = Some (t, rest) \<Longrightarrow> length rest < length s \<and> set rest \<subseteq> set s"
proof (induction s arbitrary: tok com)
  case (Cons c s)
  obtain t1 c1 f1 where t: "token_char c tok com = (t1, c1, f1)" by (metis prod_cases3)
  show ?case
  proof (cases f1)
    case False
    then show ?thesis using Cons.IH [of t1 c1] Cons.prems t by auto
  qed (use Cons.prems t in auto)
qed simp

definition good_reader :: "nat \<Rightarrow> conf_reader \<Rightarrow> bool" where
  "good_reader n r \<longleftrightarrow> reader_ok n r \<and> cr_open r \<and> 0 \<notin> set (stream r)"

lemma next_step:
  assumes "good_reader n r"
  obtains t r' where "nextConfigToken r = Some (t, r')" and "good_reader n r'" and "cr_token r' = t"
    and "t = None \<or> length (stream r') < length (stream r)"
proof -
  obtain r' where r: "nextConfigToken r = Some (fst (scan_next n (stream r)), r')"
    "stream r' = snd (scan_next n (stream r))" "cr_token r' = fst (scan_next n (stream r))"
    "reader_ok n r'" "cr_open r'"
    using assms nextConfigToken_scan [of n r] by (auto simp: good_reader_def)
  have "set (snd (scan_next n (stream r))) \<subseteq> set (stream r) \<and>
      (fst (scan_next n (stream r)) = None \<or> length (snd (scan_next n (stream r))) < length (stream r))"
    using scan_token_shorter [of "[]" False "stream r"] by (auto simp: scan_from_def split: option.split)
  with r assms show thesis by (intro that [OF r(1)]) (auto simp: good_reader_def)
qed

text \<open>The parser of one interface returns, and the reader it leaves has made progress up to \<open>k\<close>
  bytes or is at the end.\<close>

definition phyint_returns :: "nat \<Rightarrow> nat \<Rightarrow> phyint_res option \<Rightarrow> bool" where
  "phyint_returns n k x \<longleftrightarrow> (case x of None \<Rightarrow> False | Some Crash \<Rightarrow> True | Some (Done (v, r, out)) \<Rightarrow>
     good_reader n r \<and> (cr_token r = None \<or> length (stream r) \<le> k))"

lemma phyint_returns_mono: "\<lbrakk>phyint_returns n k x; k \<le> m\<rbrakk> \<Longrightarrow> phyint_returns n m x"
  by (auto simp: phyint_returns_def split: option.splits conf_res.splits)

lemma phyint_returns_simps [simp]:
  "phyint_returns n k (Some Crash)"
  "phyint_returns n k (Some (Done (v, r, out))) \<longleftrightarrow>
     good_reader n r \<and> (cr_token r = None \<or> length (stream r) \<le> k)"
  by (simp_all add: phyint_returns_def)

lemma phyint_loop_None: "phyint_loop w l None tmp r out = Some (Done (Some tmp, r, out))"
  by (subst phyint_loop.simps) simp

text \<open>The next token is read and the loop goes on.\<close>

lemma phyint_continue:
  assumes "good_reader n r" and "length (stream r) \<le> k"
    and IH: "\<And>r' token tmp out. \<lbrakk>length (stream r') < k; good_reader n r'; cr_token r' = token\<rbrakk> \<Longrightarrow>
      phyint_returns n (length (stream r')) (phyint_loop w l token tmp r' out)"
  shows "phyint_returns n k (Option.bind (nextConfigToken r) (\<lambda>(token, r). phyint_loop w l token tmp r out))"
proof -
  obtain t r' where n: "nextConfigToken r = Some (t, r')" "good_reader n r'" "cr_token r' = t"
    "t = None \<or> length (stream r') < length (stream r)"
    by (rule next_step [OF assms(1)])
  show ?thesis
  proof (cases t)
    case None
    then show ?thesis using n by (simp add: phyint_loop_None)
  next
    case (Some x)
    then have "length (stream r') < k" using n(4) assms(2) by simp
    from phyint_returns_mono [OF IH [OF this n(2,3)], of k] this n(1) show ?thesis by simp
  qed
qed

text \<open>An argument is read first; \<open>use\<close> is what the loop does with it.\<close>

lemma phyint_argument:
  assumes "good_reader n r"
    and "\<And>a r'. \<lbrakk>good_reader n r'; length (stream r') < length (stream r)\<rbrakk> \<Longrightarrow> phyint_returns n k (use a r')"
  shows "phyint_returns n k (Option.bind (nextConfigToken r) (\<lambda>(arg, r). case arg of None \<Rightarrow> Some Crash | Some a \<Rightarrow> use a r))"
proof -
  obtain t r' where n: "nextConfigToken r = Some (t, r')" "good_reader n r'"
    "t = None \<or> length (stream r') < length (stream r)"
    by (rule next_step [OF assms(1)])
  then show ?thesis using assms(2) [of r'] by (cases t) auto
qed

lemma phyint_loop_returns:
  "\<lbrakk>good_reader n r; cr_token r = token\<rbrakk> \<Longrightarrow>
   phyint_returns n (length (stream r)) (phyint_loop w l token tmp r out)"
proof (induction "length (stream r)" arbitrary: r token tmp out rule: less_induct)
  case less
  note cont = phyint_continue [OF _ _ less.hyps]
  note arg = phyint_argument [OF less.prems(1)]
  show ?case
  proof (cases token)
    case None
    then show ?thesis using less.prems by (simp add: phyint_loop_None)
  next
    case (Some t)
    then show ?thesis
      using less.prems
      by (subst phyint_loop.simps)
        (auto intro!: cont arg split: option.split)
  qed
qed

lemma parsePhyintToken_returns:
  assumes "good_reader n r"
  shows "(\<exists>res. parsePhyintToken w l r = Some res) \<and>
    (\<forall>v r' out. parsePhyintToken w l r = Some (Done (v, r', out)) \<longrightarrow>
      good_reader n r' \<and> (cr_token r' = None \<or> length (stream r') < length (stream r)))"
proof -
  obtain t r' where n: "nextConfigToken r = Some (t, r')" "good_reader n r'" "cr_token r' = t"
    "t = None \<or> length (stream r') < length (stream r)"
    by (rule next_step [OF assms])
  have "phyint_returns n (length (stream r')) (phyint_loop w l t default_vifconfig r' [])"
    using phyint_loop_returns [OF n(2,3)] .
  then show ?thesis
    using n by (cases t) (auto simp: parsePhyintToken_def phyint_loop_None phyint_returns_def split: option.splits conf_res.splits)
qed

lemma load_loop_None: "load_loop w l None cf vs r out = Some (Done (True, cf, vs, out))"
  by (subst load_loop.simps) simp

lemma load_loop_returns:
  "\<lbrakk>good_reader n r; cr_token r = token\<rbrakk> \<Longrightarrow> \<exists>res. load_loop w l token cf vs r out = Some res"
proof (induction "length (stream r)" arbitrary: r token cf vs out rule: less_induct)
  case less
  have IH: "\<exists>res. load_loop w l (cr_token r') cf vs r' out = Some res"
    if "good_reader n r'" "cr_token r' = None \<or> length (stream r') < length (stream r)" for r' cf vs out
    using that less.hyps [of r' "cr_token r'"] by (cases "cr_token r'") (auto simp: load_loop_None)
  show ?case
  proof (cases token)
    case (Some t)
    obtain res where p: "parsePhyintToken w l r = Some res"
      using parsePhyintToken_returns [OF less.prems(1)] by blast
    obtain t' r' where n: "nextConfigToken r = Some (t', r')" "good_reader n r'" "cr_token r' = t'"
      "t' = None \<or> length (stream r') < length (stream r)"
      by (rule next_step [OF less.prems(1)])
    have "\<exists>x. (case res of Crash \<Rightarrow> Some Crash | Done (tmpPtr, r, out') \<Rightarrow> (case tmpPtr of
        None \<Rightarrow> Some (Done (False, cf, vs, out @ out'))
      | Some v \<Rightarrow> load_loop w l (getCurrentConfigToken r) cf (vs @ [v]) r (out @ out'))) = Some x"
      using parsePhyintToken_returns [OF less.prems(1), of w l] p IH
      by (auto simp: getCurrentConfigToken_def split: conf_res.split option.split)
    moreover have "\<exists>x. load_loop w l t' (cf\<lparr>cf_fastUpstreamLeave := True\<rparr>) vs r' out = Some x"
      using IH [OF n(2)] n(3,4) by simp
    ultimately show ?thesis
      using Some p n(1) by (subst load_loop.simps) simp
  qed (simp add: load_loop_None)
qed

lemma open_good:
  assumes "0 \<notin> set f"
  shows "good_reader (length f) (snd (openConfigFile (Some f) r))"
  using assms by (simp add: good_reader_def openConfigFile_def reader_ok_def stream_def)

lemma loadConfig_returns_lemma:
  assumes "0 \<notin> set f"
  shows "\<exists>res. loadConfig w l (Some f) r = Some res"
proof -
  obtain t r' where "nextConfigToken (snd (openConfigFile (Some f) r)) = Some (t, r')"
    "good_reader (length f) r'" "cr_token r' = t"
    by (rule next_step [OF open_good [OF assms]])
  then show ?thesis using load_loop_returns by (simp add: loadConfig_def)
qed

lemma token_loop_nul: "cr_unread r = 0 # u \<Longrightarrow> token_loop r tok com = None"
proof (rule ccontr)
  assume u: "cr_unread r = 0 # u" and "token_loop r tok com \<noteq> None"
  then obtain y where y: "token_loop r tok com = Some y" by blast
  have "\<not> (\<exists>u. cr_unread r = 0 # u)"
    by (rule token_loop.raw_induct [OF _ y, where P = "\<lambda>r tok com y. \<not> (\<exists>u. cr_unread r = 0 # u)"])
      (auto simp: Let_def split: if_splits prod.splits; fastforce)
  with u show False by blast
qed

declare token_loop.simps [code] phyint_loop.simps [code] load_loop.simps [code]

subsection \<open>Subnet addresses\<close>

lemma atoi_dec: "n < 2 ^ 31 \<Longrightarrow> atoi (dec n) = int n"
proof -
  assume "n < 2 ^ 31"
  obtain c cs where d: "dec n = c # cs" by (cases "dec n") simp_all
  have "isdigit c" using dec_isdigit [of c n] d by simp
  then have "\<not> isspace c" "c \<noteq> 0x2d" "c \<noteq> 0x2b"
    by (auto simp: isdigit_def isspace_def word_le_nat_alt)
  then show ?thesis
    using d digits_dec [of n] \<open>n < 2 ^ 31\<close> by (simp add: atoi_def Let_def)
qed

lemma strtok_first:
  "\<lbrakk>s \<noteq> []; \<forall>c \<in> set s. c \<notin> set ds; d \<in> set ds\<rbrakk> \<Longrightarrow> strtok ds (s @ d # rest) = Some (s, rest)"
  by (cases s) (auto simp: strtok_def Let_def takeWhile_append dropWhile_append)

lemma strtok_only: "\<lbrakk>s \<noteq> []; \<forall>c \<in> set s. c \<notin> set ds\<rbrakk> \<Longrightarrow> strtok ds s = Some (s, [])"
proof -
  assume n: "s \<noteq> []" and s: "\<forall>c \<in> set s. c \<notin> set ds"
  have t: "takeWhile (\<lambda>c. c \<notin> set ds) s = s" and d: "dropWhile (\<lambda>c. c \<notin> set ds) s = []"
    using s by (simp_all add: takeWhile_eq_all_conv dropWhile_eq_Nil_conv)
  have "dropWhile (\<lambda>c. c \<in> set ds) s = s"
    using n s by (cases s) simp_all
  then show ?thesis using n by (simp add: strtok_def Let_def t d)
qed

lemma dec_no_slash: "0x2f \<notin> set (dec n)"
  using dec_isdigit [of "0x2f" n] by (auto simp: isdigit_def)

lemma inet_addr_inetFmt: "inet_addr (inetFmt a) = a"
proof -
  obtain b0 b1 b2 b3 where a: "a = le32 b0 b1 b2 b3" by (metis le32_bytes)
  have "inet_aton (inetFmt a) = Some (htonl (of_nat (((unat b0 * 256 + unat b1) * 256 + unat b2) * 256 + unat b3)))"
    using inet_aton_quad [of "unat b0" "unat b1" "unat b2" "unat b3"] by (simp add: inetFmt_def a unat_byte_le)
  then show ?thesis by (simp only: inet_addr_def ntohl_quad a option.case)
qed

lemma inetFmt_no_slash: "inetFmt a \<noteq> [] \<and> (\<forall>c \<in> set (inetFmt a). c \<notin> set [0x2f])"
  by (auto simp: inetFmt_def Let_def dec_no_slash)

subsection \<open>Properties\<close>

text \<open>The results of \<open>k\<close> calls of the reader, and of the scan.\<close>

fun read_tokens :: "nat \<Rightarrow> conf_reader \<Rightarrow> byte list option list option" where
  "read_tokens 0 r = Some []"
| "read_tokens (Suc k) r = do { (t, r) \<leftarrow> nextConfigToken r; ts \<leftarrow> read_tokens k r; Some (t # ts) }"

fun scan_tokens :: "nat \<Rightarrow> nat \<Rightarrow> byte list \<Rightarrow> byte list option list" where
  "scan_tokens n 0 s = []"
| "scan_tokens n (Suc k) s = fst (scan_next n s) # scan_tokens n k (snd (scan_next n s))"

lemma read_tokens_scan:
  "good_reader n r \<Longrightarrow> read_tokens k r = Some (scan_tokens n k (stream r))"
proof (induction k arbitrary: r)
  case (Suc k)
  then obtain r' where r: "nextConfigToken r = Some (fst (scan_next n (stream r)), r')"
    "stream r' = snd (scan_next n (stream r))" "reader_ok n r'" "cr_open r'"
    using nextConfigToken_scan [of n r] by (auto simp: good_reader_def)
  obtain t r'' where "nextConfigToken r = Some (t, r'')" "good_reader n r''"
    by (rule next_step [OF Suc.prems])
  with r(1) have "good_reader n r'" by simp
  with Suc.IH [of r'] r(1,2) show ?case by simp
qed simp

text \<open>C35: The block-wise reader of the configuration file is equivalent to a scan of the whole file:
  whatever the file (without NUL bytes), every call returns what the scan returns, tokens that
  cross the boundary of two blocks and tokens cut at 29 characters included.  The only trace of
  the blocks is at the end: a token whose delimiter is the last byte of the file is lost, unless
  the length of the file is a multiple of the block size.\<close>

theorem token_reader_blocks:
  assumes "0 \<notin> set f"
  shows "read_tokens k (snd (openConfigFile (Some f) r)) = Some (scan_tokens (length f) k f)"
proof -
  have "stream (snd (openConfigFile (Some f) r)) = f"
    by (simp add: openConfigFile_def stream_def)
  then show ?thesis using read_tokens_scan [OF open_good [OF assms], of k r] by simp
qed

definition closed_reader :: conf_reader where
  "closed_reader = \<lparr>cr_open = False, cr_file = [], cr_unread = [], cr_readSize = 0, cr_token = None\<rparr>"

theorem token_reader_blocks_witness:
  "read_tokens 3 (snd (openConfigFile (Some (str ''threshold 1 '')) closed_reader)) = Some [Some (str ''threshold''), None, None]"
proof -
  have "scan_tokens 12 3 (str ''threshold 1 '') = [Some (str ''threshold''), None, None]" by code_simp
  moreover have "0 \<notin> set (str ''threshold 1 '')" "length (str ''threshold 1 '') = 12" by code_simp+
  ultimately show ?thesis using token_reader_blocks [of "str ''threshold 1 ''" 3 closed_reader] by simp
qed

text \<open>C36: Loading the configuration ends for every file without NUL bytes, whatever the tokens in it
  are.  A NUL byte at the start of the file makes it run forever: the reader neither consumes
  the byte nor leaves its outer loop.\<close>

theorem loadConfig_returns:
  assumes "0 \<notin> set f"
  shows "(\<exists>res. loadConfig wanif if_local (Some f) r = Some res) \<and>
    loadConfig wanif if_local (Some (0 # g)) r = None"
proof -
  let ?r = "(snd (openConfigFile (Some (0 # g)) r))\<lparr>cr_token := None\<rparr>"
  have "token_loop ?r [] False = token_loop (fill_buffer ?r) [] False"
    by (rule trans [OF token_loop_empty]) (simp_all add: openConfigFile_def)
  also have "\<dots> = None"
    by (rule token_loop_nul [of _ "take 511 g"]) (simp add: openConfigFile_def fill_buffer_def)
  finally have "nextConfigToken (snd (openConfigFile (Some (0 # g)) r)) = None"
    by (simp add: nextConfigToken_def openConfigFile_def)
  then show ?thesis using loadConfig_returns_lemma [OF assms] by (simp add: loadConfig_def)
qed

theorem loadConfig_returns_witness:
  "(\<exists>res. loadConfig (str ''eth1'') (str ''br0'') (Some (str ''phyint upstream'')) closed_reader = Some res) \<and>
   loadConfig (str ''eth1'') (str ''br0'') (Some [0]) closed_reader = None"
proof -
  have "0 \<notin> set (str ''phyint upstream'')" by code_simp
  then show ?thesis
    using loadConfig_returns [of "str ''phyint upstream''" "str ''eth1''" "str ''br0''" closed_reader "[]"] by simp
qed

text \<open>C38: A subnet that is written in dotted notation with a prefix length is read back: the address
  unchanged, the mask with as many leading ones, both in network byte order.  Without a prefix
  length the mask is all ones.  The address is any but 255.255.255.255, which the parser takes for
  an error, and the prefix length at most 32.\<close>

theorem parseSubnetAddress_reads:
  assumes "k \<le> 32" and "a \<noteq> 0xffffffff"
  shows "parseSubnetAddress (inetFmt a @ slash # dec k) =
      Some (Some \<lparr>subnet_addr = a, subnet_mask = ntohl (push_bit (32 - k) 0xffffffff)\<rparr>) \<and>
    parseSubnetAddress (inetFmt a) = Some (Some \<lparr>subnet_addr = a, subnet_mask = 0xffffffff\<rparr>)"
proof -
  note f = inetFmt_no_slash [of a]
  have "strtok [slash] (inetFmt a @ slash # dec k) = Some (inetFmt a, dec k)"
    using f by (intro strtok_first) simp_all
  moreover have "strtok [slash] (inetFmt a) = Some (inetFmt a, [])"
    using f by (intro strtok_only) simp_all
  moreover have "strtok [slash] (dec k) = Some (dec k, [])"
    using dec_no_slash [of k] by (intro strtok_only) auto
  moreover have "strtok [slash] [] = None" by (simp add: strtok_def)
  moreover have "ntohl 0xffffffff = 0xffffffff" by (simp add: ntohl_def le32_def)
  moreover have "(- 1 :: u32) = 0xffffffff" by simp
  then have "a \<noteq> - 1" using assms(2) by metis
  ultimately show ?thesis
    using assms by (cases "k = 0") (simp_all add: parseSubnetAddress_def inet_addr_inetFmt atoi_dec nat_diff_distrib' Let_def)
qed

theorem parseSubnetAddress_reads_witness:
  "parseSubnetAddress (inetFmt 0x0000a8c0 @ slash # dec 24) =
      Some (Some \<lparr>subnet_addr = 0x0000a8c0, subnet_mask = 0x00ffffff\<rparr>)"
proof -
  have "ntohl (push_bit (32 - 24) 0xffffffff) = 0x00ffffff" by (simp add: ntohl_def le32_def)
  then show ?thesis using parseSubnetAddress_reads [of 24 "0x0000a8c0"] by simp
qed

definition shipped_conf :: "byte list" where
  "shipped_conf = str ''quickleave'' @ [10] @ str ''phyint upstream  ratelimit 0  threshold 1'' @ [10] @
     str ''     altnet 0.0.0.0/0'' @ [10] @ str ''phyint downstream  ratelimit 0  threshold 1'' @ [10, 10]"

text \<open>The configuration file that is shipped with the program loads without an error, for any
  interface names: quick leave is on, the WAN interface is upstream with every source allowed,
  the LAN interface is downstream.  The copy of the LAN interface name always writes one byte
  behind its block, the copy of the WAN interface name if it has six characters or more.\<close>

lemma shipped_loads:
  "loadConfig wanif if_local (Some shipped_conf) closed_reader =
     Some (Done (True, initCommonConfig\<lparr>cf_fastUpstreamLeave := True\<rparr>,
       [\<lparr>vc_name = Some wanif, vc_state = IF_STATE_UPSTREAM, vc_ratelimit = 0, vc_threshold = 1,
         vc_allowednets = [\<lparr>subnet_addr = 0, subnet_mask = 0\<rparr>]\<rparr>,
        \<lparr>vc_name = Some if_local, vc_state = IF_STATE_DOWNSTREAM, vc_ratelimit = 0, vc_threshold = 1,
         vc_allowednets = []\<rparr>],
       copy_name 6 wanif @ copy_name (length if_local) if_local))"
  by code_simp

lemma copy_name_past:
  "copy_name (length if_local) if_local = [Past_block 1]"
  "6 \<le> length wanif \<Longrightarrow> copy_name 6 wanif = [Past_block (length wanif - 5)]"
  by (simp_all add: copy_name_def)

end
