(* ===== verification/Igmp_Daemon.thy ===== *)
theory Igmp_Daemon
  imports Igmp_Proxy Igmp_Config
begin

section \<open>The IGMP daemon from its configuration file to its main loop\<close>

text \<open>
  \<^verbatim>\<open>igmpProxyInit\<close> and \<^verbatim>\<open>main\<close> of \<^verbatim>\<open>igmpproxy/src/igmpproxy.c\<close> with \<^verbatim>\<open>addVIF\<close> of
  \<^verbatim>\<open>mroute-api.c\<close>: the configuration is loaded, the interface vector is built and configured,
  the virtual interfaces are registered with the kernel, and the main loop starts.  The theorems
  compose the configuration, the interfaces, the start and the message handlers.
\<close>

subsection \<open>Virtual interfaces\<close>

abbreviation (input) MAXVIFS :: nat where "MAXVIFS \<equiv> 32"

text \<open>\<open>n\<close> entries of \<^verbatim>\<open>VifDescVc\<close> are in use; they are filled from the front and never freed.
  \<open>None\<close>: the error message for a full vector is followed by a write behind its end.\<close>

definition addVIF :: "nat \<Rightarrow> IfDesc \<Rightarrow> (IfDesc \<times> igmp_out list) option" where
  "addVIF n IfDp =
     (if n < MAXVIFS
      then Some (IfDp\<lparr>if_index := of_nat n\<rparr>,
             [Mrt_add_vif (of_nat n) (if_threshold IfDp) (if_ratelimit IfDp) (if_InAdr IfDp)])
      else None)"

definition usable_if :: "IfDesc \<Rightarrow> bool" where
  "usable_if Dp \<longleftrightarrow> if_InAdr Dp \<noteq> 0 \<and> if_Flags Dp AND IFF_LOOPBACK = 0"

definition vif_if :: "IfDesc \<Rightarrow> bool" where
  "vif_if Dp \<longleftrightarrow> usable_if Dp \<and> inetFmt (if_InAdr Dp) \<noteq> str ''192.168.255.1'' \<and>
     inetFmt (if_InAdr Dp) \<noteq> str ''192.168.255.250''"

fun create_vifs :: "nat \<Rightarrow> int \<Rightarrow> nat \<Rightarrow> IfDesc list \<Rightarrow> (int \<times> IfDesc list \<times> igmp_out list) option" where
  "create_vifs Ix upStreamVif n [] = Some (upStreamVif, [], [])"
| "create_vifs Ix upStreamVif n (Dp # ifs) =
     (let up = (if usable_if Dp \<and> if_state Dp = IF_STATE_UPSTREAM \<and> upStreamVif = - 1
                then int Ix else upStreamVif)
      in do {
        (Dp, n, out) \<leftarrow> (if vif_if Dp
           then do { (Dp, out) \<leftarrow> addVIF n Dp; Some (Dp, n + 1, out) }
           else Some (Dp, n, []));
        (up, ifs, out') \<leftarrow> create_vifs (Ix + 1) up n ifs;
        Some (up, Dp # ifs, out @ out')
      })"

subsection \<open>Initialisation\<close>

text \<open>What the system reports while the daemon starts: the configuration file, the interface names,
  the address of the LAN, the list of interfaces, whether the WAN has an address, the WAN port of the
  switch, the contents of the fresh output buffer and the clock.\<close>

record boot_env =
  be_file :: "byte list option"
  be_wanif :: "byte list"
  be_if_local :: "byte list"
  be_local_ip :: "byte list"
  be_reqs :: "ifreq list"
  be_wan_ip :: bool
  be_wan_port :: nat
  be_rest :: "byte list"
  be_now :: "int \<times> int"

definition igmpProxyInit :: "boot_env \<Rightarrow> vifconfig list \<Rightarrow> (int \<times> IfDesc list \<times> igmp_out list) option" where
  "igmpProxyInit be vifconf = do {
     ifs \<leftarrow> configureVifs vifconf (buildIfVc (be_wanif be) (be_local_ip be) (be_reqs be));
     (up, ifs, out) \<leftarrow> create_vifs 0 (- 1) 0 ifs;
     Some (up, ifs, Mrt_init # out)
   }"

text \<open>The writes behind a block that loading the configuration makes come first in the output.\<close>

fun conf_effect :: "conf_out \<Rightarrow> igmp_out" where
  "conf_effect (Past_block n) = Heap_past n"

datatype boot_result =
    Boot_refused "igmp_out list"
  | Boot_running proxy_conf proxy_loop "igmp_out list"

definition proxy_boot :: "boot_env \<Rightarrow> proxy_env \<Rightarrow> boot_result option" where
  "proxy_boot be env = do {
     res \<leftarrow> loadConfig (be_wanif be) (be_if_local be) (be_file be) closed_reader;
     case res of
       Crash \<Rightarrow> None
     | Done (ok, cf, vifconf, past) \<Rightarrow>
         if \<not> ok then Some (Boot_refused (map conf_effect past))
         else do {
           (up, ifs, out) \<leftarrow> igmpProxyInit be vifconf;
           let pc = \<lparr>pc_conf = cf, pc_ifs = ifs, pc_upStreamVif = up,
                     pc_running = pe_wan_link env \<and> be_wan_ip be, pc_wan_port = be_wan_port be\<rparr>;
           (lp, out') \<leftarrow> proxy_start pc env DEFAULT_ROBUSTNESS (be_rest be) (be_now be);
           Some (Boot_running pc lp (map conf_effect past @ out @ out'))
         }
   }"

subsection \<open>The configuration keeps the timer values\<close>

definition same_timers :: "Config \<Rightarrow> Config \<Rightarrow> bool" where
  "same_timers cf cf' \<longleftrightarrow> (\<exists>q. cf' = cf\<lparr>cf_fastUpstreamLeave := q\<rparr>)"

lemma same_timers_refl [simp]: "same_timers cf cf"
  unfolding same_timers_def by (rule exI [of _ "cf_fastUpstreamLeave cf"]) simp

lemma same_timers_quickleave: "same_timers (cf\<lparr>cf_fastUpstreamLeave := q\<rparr>) cf' \<Longrightarrow> same_timers cf cf'"
  by (auto simp: same_timers_def)

definition load_keeps :: "Config \<Rightarrow> load_res \<Rightarrow> bool" where
  "load_keeps cf res \<longleftrightarrow> (case res of Crash \<Rightarrow> True | Done (ok, cf', _) \<Rightarrow> same_timers cf cf')"

lemma load_loop_config:
  assumes "load_loop w l token cf vs r out = Some res"
  shows "load_keeps cf res"
proof (rule load_loop.raw_induct [OF _ assms, where P = "\<lambda>w l token cf vs r out res. load_keeps cf res"], goal_cases)
  case (1 loop w l token cf vs r out res)
  have quick: "load_keeps (cf\<lparr>cf_fastUpstreamLeave := True\<rparr>) res \<Longrightarrow> load_keeps cf res"
    by (auto simp: load_keeps_def dest: same_timers_quickleave split: conf_res.splits)
  have keep: "load_keeps cf Crash" "load_keeps cf (Done (ok, cf, vs', out'))" for ok vs' out'
    by (simp_all add: load_keeps_def)
  show ?case
    using 1(2) 1(1) quick keep
    by (auto split: option.splits if_splits conf_res.splits Option.bind_splits)
qed

lemma loadConfig_conf_ok:
  assumes "loadConfig w l f r = Some (Done (ok, cf, vs, out))" and "pc_conf pc = cf"
  shows "conf_ok pc"
proof -
  obtain token r' where "load_loop w l token initCommonConfig [] r' [] = Some (Done (ok, cf, vs, out))"
    using assms(1) by (auto simp: loadConfig_def split: Option.bind_splits)
  from load_loop_config [OF this] assms(2) show ?thesis
    by (auto simp: load_keeps_def same_timers_def conf_ok_def initCommonConfig_def Let_def)
qed

subsection \<open>Numbers of the virtual interfaces\<close>

abbreviation upstream_desc :: "IfDesc \<Rightarrow> bool" where
  "upstream_desc d \<equiv> usable_if d \<and> if_state d = IF_STATE_UPSTREAM"

lemma if_index_update [simp]:
  "usable_if (d\<lparr>if_index := i\<rparr>) = usable_if d" "vif_if (d\<lparr>if_index := i\<rparr>) = vif_if d"
  by (simp_all add: usable_if_def vif_if_def)

text \<open>The index of the first interface with a property, counted from \<open>k\<close>; -1 for none.\<close>

fun first_index :: "('a \<Rightarrow> bool) \<Rightarrow> nat \<Rightarrow> 'a list \<Rightarrow> int" where
  "first_index P k [] = - 1"
| "first_index P k (x # xs) = (if P x then int k else first_index P (k + 1) xs)"

lemma first_index_none: "first_index P k xs = - 1 \<longleftrightarrow> (\<forall>x \<in> set xs. \<not> P x)"
  by (induction xs arbitrary: k) auto

lemma first_index_some:
  "first_index P k xs \<noteq> - 1 \<Longrightarrow> \<exists>i < length xs. first_index P k xs = int (k + i) \<and> P (xs ! i) \<and>
     (\<forall>j < i. \<not> P (xs ! j))"
proof (induction xs arbitrary: k)
  case (Cons x xs)
  show ?case
  proof (cases "P x")
    case False
    then obtain i where "i < length xs" "first_index P (k + 1) xs = int (k + 1 + i)" "P (xs ! i)"
      "\<forall>j < i. \<not> P (xs ! j)"
      using Cons.IH [of "k + 1"] Cons.prems by auto
    with False show ?thesis by (intro exI [of _ "Suc i"]) (simp add: All_less_Suc2)
  qed (auto intro!: exI [of _ 0])
qed simp

lemma create_vifs_spec:
  "create_vifs Ix up n ifs = Some (up', ifs', out) \<Longrightarrow>
     map if_index (filter vif_if ifs') = map of_nat [n..<n + length (filter vif_if ifs')] \<and>
     n + length (filter vif_if ifs') \<le> max n MAXVIFS \<and>
     length ifs' = length ifs \<and> (\<forall>i < length ifs. \<exists>x. ifs' ! i = (ifs ! i)\<lparr>if_index := x\<rparr>) \<and>
     up' = (if up = - 1 then first_index upstream_desc Ix ifs' else up)"
proof (induction ifs arbitrary: Ix up n up' ifs' out)
  case (Cons d ifs)
  let ?up = "if usable_if d \<and> if_state d = IF_STATE_UPSTREAM \<and> up = - 1 then int Ix else up"
  obtain d' m o1 ifs1 o2 where d: "(if vif_if d then do { (Dp, out) \<leftarrow> addVIF n d; Some (Dp, n + 1, out) }
      else Some (d, n, [])) = Some (d', m, o1)"
    and c: "create_vifs (Ix + 1) ?up m ifs = Some (up', ifs1, o2)" and i: "ifs' = d' # ifs1"
    using Cons.prems by (auto simp: Let_def split: Option.bind_splits)
  note IH = Cons.IH [OF c]
  have d': "\<exists>x. d' = d\<lparr>if_index := x\<rparr>"
    using d by (auto simp: addVIF_def split: if_splits intro: exI [of _ "if_index d"])
  have up: "upstream_desc d' = upstream_desc d" using d' by auto
  show ?case
  proof (cases "vif_if d")
    case True
    then have v: "n < MAXVIFS" "m = n + 1" "d' = d\<lparr>if_index := of_nat n\<rparr>"
      using d by (auto simp: addVIF_def split: if_splits)
    show ?thesis
      using IH v True i up by (auto simp: upt_conv_Cons nth_Cons' max_def simp del: upt_Suc)
  next
    case False
    then show ?thesis using IH d i up by (auto simp: nth_Cons' max_def intro: exI [of _ "if_index d"])
  qed
qed simp

lemma create_vifs_defined:
  "n + length (filter vif_if ifs) \<le> MAXVIFS \<Longrightarrow> \<exists>up' ifs' out. create_vifs Ix up n ifs = Some (up', ifs', out)"
proof (induction ifs arbitrary: Ix up n)
  case (Cons d ifs)
  let ?up = "if usable_if d \<and> if_state d = IF_STATE_UPSTREAM \<and> up = - 1 then int Ix else up"
  show ?case
    using Cons.IH [of "n + 1" "Ix + 1" ?up] Cons.IH [of n "Ix + 1" ?up] Cons.prems
    by (cases "vif_if d") (auto simp: addVIF_def Let_def)
qed simp

lemma create_vifs_overflow:
  "\<lbrakk>n \<le> MAXVIFS; MAXVIFS < n + length (filter vif_if ifs)\<rbrakk> \<Longrightarrow> create_vifs Ix up n ifs = None"
proof (induction ifs arbitrary: Ix up n)
  case (Cons d ifs)
  show ?case
  proof (cases "vif_if d \<and> n < MAXVIFS")
    case True
    then show ?thesis using Cons.IH [of "n + 1"] Cons.prems by (simp add: addVIF_def Let_def)
  next
    case False
    then show ?thesis using Cons by (auto simp: addVIF_def Let_def)
  qed
qed simp

subsection \<open>The daemon with the shipped configuration\<close>

abbreviation shipped_vifs :: "byte list \<Rightarrow> byte list \<Rightarrow> vifconfig list" where
  "shipped_vifs wanif if_local \<equiv>
     [\<lparr>vc_name = Some wanif, vc_state = IF_STATE_UPSTREAM, vc_ratelimit = 0, vc_threshold = 1,
       vc_allowednets = [\<lparr>subnet_addr = 0, subnet_mask = 0\<rparr>]\<rparr>,
      \<lparr>vc_name = Some if_local, vc_state = IF_STATE_DOWNSTREAM, vc_ratelimit = 0, vc_threshold = 1,
       vc_allowednets = []\<rparr>]"

text \<open>The LAN interface has the address the system reports for the LAN.\<close>

definition lan_ok :: "boot_env \<Rightarrow> bool" where
  "lan_ok be \<longleftrightarrow> (\<forall>r \<in> set (be_reqs be). ifr_name r = be_if_local be \<and> ifr_inet r \<longrightarrow>
     inetFmt (ifr_addr r) = be_local_ip be)"

definition wan_req :: "boot_env \<Rightarrow> ifreq \<Rightarrow> bool" where
  "wan_req be r \<longleftrightarrow> ifr_name r = be_wanif be \<and> ifr_inet r \<and> ifr_addr r \<noteq> 0 \<and> ifr_flags r AND IFF_LOOPBACK = 0"

lemma configure_shipped:
  assumes "ifr_name r = if_local \<and> ifr_inet r \<longrightarrow> inetFmt (ifr_addr r) = local_ip"
  shows "\<exists>d. configure_if (shipped_vifs wanif if_local) (build_IfDesc wanif local_ip r) = Some d \<and>
    (ifr_name r = wanif \<and> ifr_inet r \<and> ifr_addr r \<noteq> 0 \<and> ifr_flags r AND IFF_LOOPBACK = 0 \<longrightarrow> upstream_desc d)"
  using assms
  by (auto simp: configure_if_def build_IfDesc_def zero_IfDesc_def usable_if_def Let_def)

lemma configureVifs_map:
  assumes "\<forall>d \<in> set ifs. configure_if vc d = Some (f d)"
  shows "configureVifs vc ifs = Some (map f ifs)"
  using assms by (induction ifs) auto

lemma configureVifs_shipped:
  assumes "lan_ok be" and "length (be_reqs be) \<le> MAXVIFS"
  shows "\<exists>ifs. configureVifs (shipped_vifs (be_wanif be) (be_if_local be))
      (buildIfVc (be_wanif be) (be_local_ip be) (be_reqs be)) = Some ifs \<and>
    length ifs = length (be_reqs be) \<and>
    ((\<exists>r \<in> set (be_reqs be). wan_req be r) \<longrightarrow> (\<exists>d \<in> set ifs. upstream_desc d))"
proof -
  let ?c = "\<lambda>r. configure_if (shipped_vifs (be_wanif be) (be_if_local be)) (build_IfDesc (be_wanif be) (be_local_ip be) r)"
  have c: "\<exists>d. ?c r = Some d \<and> (wan_req be r \<longrightarrow> upstream_desc d)" if "r \<in> set (be_reqs be)" for r
    using configure_shipped [of r "be_if_local be" "be_local_ip be" "be_wanif be"] assms(1) that
    by (simp add: lan_ok_def wan_req_def)
  let ?ifs = "map (\<lambda>r. the (?c r)) (be_reqs be)"
  have "configureVifs (shipped_vifs (be_wanif be) (be_if_local be))
      (buildIfVc (be_wanif be) (be_local_ip be) (be_reqs be)) = Some ?ifs"
    using configureVifs_map [of "map (build_IfDesc (be_wanif be) (be_local_ip be)) (be_reqs be)"
        "shipped_vifs (be_wanif be) (be_if_local be)" "\<lambda>d. the (configure_if (shipped_vifs (be_wanif be) (be_if_local be)) d)"]
      c assms(2) by (fastforce simp: buildIfVc_def comp_def)
  moreover have "\<exists>d \<in> set ?ifs. upstream_desc d" if w: "\<exists>r \<in> set (be_reqs be). wan_req be r"
  proof -
    obtain r where r: "r \<in> set (be_reqs be)" "wan_req be r" using w by blast
    with c obtain d where d: "?c r = Some d" "upstream_desc d" by blast
    then have "d \<in> set ?ifs" using r(1) by (auto intro!: image_eqI [of _ _ r])
    with d(2) show ?thesis by blast
  qed
  ultimately show ?thesis by auto
qed

lemma proxy_start_defined:
  assumes "conf_ok pc" and "length rest = RECV_BUF_SIZE - 20"
  shows "\<exists>lp out. proxy_start pc env n rest now = Some (lp, out)"
proof -
  let ?px = "\<lparr>px_routes = [], px_switch = fst (switch_init \<lparr>sw_groups = [], sw_router_port = - 1, sw_table = []\<rparr>),
    px_callouts = callout_init \<lparr>co_id = 0, co_queue = []\<rparr>, px_startupQueryCount = n, px_send_buf = initIgmp rest\<rparr>"
  have "proxy_ok pc ?px"
    using initIgmp_template [OF assms(2)] switch_init_ok [of _ "pc_wan_port pc"]
    by (simp add: proxy_ok_def routes_ok_def callouts_ok_def callout_init_def)
  from sendGeneralMembershipQuery_ok [OF this assms(1), of env] show ?thesis
    by (auto simp: proxy_start_def initRouteTable_def split_beta)
qed

lemma upstream_if_first:
  assumes "pc_upStreamVif pc = first_index upstream_desc 0 (pc_ifs pc)"
    and "\<exists>d \<in> set (pc_ifs pc). upstream_desc d" and "length (pc_ifs pc) \<le> MAX_IF"
  shows "\<exists>d. upstream_if pc = Some d"
proof -
  obtain i where "i < length (pc_ifs pc)" "pc_upStreamVif pc = int i"
    using assms first_index_none [of upstream_desc 0 "pc_ifs pc"] first_index_some [of upstream_desc 0 "pc_ifs pc"] by auto
  with assms(3) show ?thesis
    by (simp add: upstream_if_def getIfByIx_def unsigned_of_nat take_bit_nat_eq_self)
qed

lemma proxy_boot_running:
  assumes "proxy_boot be env = Some (Boot_running pc lp out)"
  obtains cf vifconf o1 o2 o3 where "loadConfig (be_wanif be) (be_if_local be) (be_file be) closed_reader =
      Some (Done (True, cf, vifconf, o1))"
    and "igmpProxyInit be vifconf = Some (pc_upStreamVif pc, pc_ifs pc, o2)" and "pc_conf pc = cf"
    and "proxy_start pc env DEFAULT_ROBUSTNESS (be_rest be) (be_now be) = Some (lp, o3)"
proof -
  obtain res where l: "loadConfig (be_wanif be) (be_if_local be) (be_file be) closed_reader = Some res"
    using assms by (auto simp: proxy_boot_def split: Option.bind_splits)
  then obtain ok cf vifconf o1 where res: "res = Done (ok, cf, vifconf, o1)" "ok"
    using assms by (auto simp: proxy_boot_def split: conf_res.splits if_splits)
  then obtain up ifs o2 where i: "igmpProxyInit be vifconf = Some (up, ifs, o2)"
    using assms l by (auto simp: proxy_boot_def split: Option.bind_splits)
  let ?pc = "\<lparr>pc_conf = cf, pc_ifs = ifs, pc_upStreamVif = up,
    pc_running = pe_wan_link env \<and> be_wan_ip be, pc_wan_port = be_wan_port be\<rparr>"
  obtain o3 where "proxy_start ?pc env DEFAULT_ROBUSTNESS (be_rest be) (be_now be) = Some (lp, o3)" "pc = ?pc"
    using assms l res i by (auto simp: proxy_boot_def Let_def split: Option.bind_splits)
  with l res i show thesis by (intro that [of cf vifconf o1 o2 o3]) simp_all
qed

lemma boot_conf_ok:
  assumes "proxy_boot be env = Some (Boot_running pc lp out)"
  shows "conf_ok pc"
  by (rule proxy_boot_running [OF assms]) (rule loadConfig_conf_ok)

subsection \<open>Properties\<close>

text \<open>C3: In every state the daemon reaches after it has started, with any configuration file and any
  interfaces, and whatever packets, signals and clock readings it gets, the routing table is
  sorted by group without duplicates and holds multicast groups only, every port map of the
  switch is the one of the group's members and no MAC address is in the hardware table twice,
  the callout queue is well formed, and the output buffer holds its IP header template.\<close>

theorem daemon_invariant:
  assumes "proxy_boot be env = Some (Boot_running pc lp0 out)"
    and "length (be_rest be) = RECV_BUF_SIZE - 20" and "proxy_reach pc lp0 lp"
  shows "routes_ok (px_routes (lp_px lp)) \<and> switch_ok (pc_wan_port pc) (px_switch (lp_px lp)) \<and>
    callouts_ok (px_callouts (lp_px lp)) \<and> send_template (px_send_buf (lp_px lp))"
proof -
  obtain o3 where "proxy_start pc env DEFAULT_ROBUSTNESS (be_rest be) (be_now be) = Some (lp0, o3)"
    using proxy_boot_running [OF assms(1)] by metis
  from proxy_reach_ok [OF this boot_conf_ok [OF assms(1)] assms(2,3)] show ?thesis .
qed

lemma boot_shipped:
  assumes "be_file be = Some shipped_conf" and "lan_ok be" and "length (be_reqs be) \<le> MAXVIFS"
    and "\<exists>r \<in> set (be_reqs be). wan_req be r" and "length (be_rest be) = RECV_BUF_SIZE - 20"
  shows "\<exists>pc lp0 out d. proxy_boot be env = Some (Boot_running pc lp0 out) \<and> upstream_if pc = Some d \<and>
    Heap_past 1 \<in> set out"
proof -
  let ?vc = "shipped_vifs (be_wanif be) (be_if_local be)" and ?cf = "initCommonConfig\<lparr>cf_fastUpstreamLeave := True\<rparr>"
  obtain o1 where l: "loadConfig (be_wanif be) (be_if_local be) (be_file be) closed_reader = Some (Done (True, ?cf, ?vc, o1))"
    "Past_block 1 \<in> set o1"
    using assms(1) shipped_loads [of "be_wanif be" "be_if_local be"] copy_name_past(1) [of "be_if_local be"] by auto
  obtain ifs where c: "configureVifs ?vc (buildIfVc (be_wanif be) (be_local_ip be) (be_reqs be)) = Some ifs"
    "length ifs = length (be_reqs be)" "\<exists>d \<in> set ifs. upstream_desc d"
    using configureVifs_shipped [OF assms(2,3)] assms(4) by blast
  obtain up ifs' o2 where v: "create_vifs 0 (- 1) 0 ifs = Some (up, ifs', o2)"
    using create_vifs_defined [of 0 ifs 0 "- 1"] c(2) assms(3) length_filter_le [of vif_if ifs] by fastforce
  note sp = create_vifs_spec [OF v]
  define pc where "pc = \<lparr>pc_conf = ?cf, pc_ifs = ifs', pc_upStreamVif = up,
    pc_running = pe_wan_link env \<and> be_wan_ip be, pc_wan_port = be_wan_port be\<rparr>"
  have "conf_ok pc" by (rule loadConfig_conf_ok [OF l(1)]) (simp add: pc_def)
  then obtain lp0 o3 where s: "proxy_start pc env DEFAULT_ROBUSTNESS (be_rest be) (be_now be) = Some (lp0, o3)"
    using proxy_start_defined assms(5) by blast
  obtain i where i: "i < length ifs" "upstream_desc (ifs ! i)"
    using c(3) by (auto simp: in_set_conv_nth)
  with sp obtain x where "ifs' ! i = (ifs ! i)\<lparr>if_index := x\<rparr>" "length ifs' = length ifs" by blast
  then have "upstream_desc (ifs' ! i)" "ifs' ! i \<in> set ifs'" using i nth_mem [of i ifs'] by simp_all
  then have "\<exists>d \<in> set ifs'. upstream_desc d" by blast
  then obtain d where "upstream_if pc = Some d"
    using upstream_if_first [of pc] sp c(2) assms(3) by (auto simp: pc_def)
  moreover have "proxy_boot be env = Some (Boot_running pc lp0 (map conf_effect o1 @ Mrt_init # o2 @ o3))"
    using l(1) c(1) v s by (simp add: proxy_boot_def igmpProxyInit_def pc_def)
  moreover have "Heap_past 1 \<in> set (map conf_effect o1 @ Mrt_init # o2 @ o3)"
    using l(2) by (auto intro!: image_eqI [of _ _ "Past_block 1"])
  ultimately show ?thesis by blast
qed

text \<open>C5: With the shipped configuration file, at most 32 interfaces, a WAN interface with an address that is
  not the loopback, and a LAN interface (if there is one) that has the address the system reports for the LAN, the
  daemon starts; one byte is written behind the block of the LAN interface's name on the way.  From
  then on, in every state it reaches, its packet handler \<open>acceptIgmp\<close> returns: no access leaves a
  buffer or goes through a null pointer, whatever the bytes of the packet are, because the configuration has made the WAN
  interface the upstream interface.  The whole iteration of the main loop returns as well, whatever
  signal, result of \<^verbatim>\<open>select\<close> and packet it gets, with all timeouts that are due: provided that the
  timeout pointer is not null while a timer is pending (it is null once the queue has been empty,
  and a timer that is set then crashes the loop), that the first two words of each line of the
  kernel's cache list have at most eight characters, and that the clock readings, sooner or later,
  have three in a row within a second.\<close>

theorem daemon_handles_packets:
  assumes "be_file be = Some shipped_conf" and "lan_ok be" and "length (be_reqs be) \<le> MAXVIFS"
    and "\<exists>r \<in> set (be_reqs be). wan_req be r" and "length (be_rest be) = RECV_BUF_SIZE - 20"
  shows "\<exists>pc lp0 out. proxy_boot be env = Some (Boot_running pc lp0 out) \<and> Heap_past 1 \<in> set out \<and>
    (\<forall>lp env' n buf. proxy_reach pc lp0 lp \<and> length buf = RECV_BUF_SIZE \<longrightarrow>
       (\<exists>px out. acceptIgmp pc env' n buf (lp_px lp) = Some (px, out))) \<and>
    (\<forall>lp env' sig sel xs t0 t1 t2. proxy_reach pc lp0 lp \<and>
       (lp_timeout_null lp \<longrightarrow> timer_nextTimer (px_callouts (lp_px lp)) = - 1) \<and> cache_ok env' \<and>
       (\<forall>n buf. sel = Sel_packet n buf \<longrightarrow> length buf = RECV_BUF_SIZE) \<and> clock_settles t0 t1 t2 \<longrightarrow>
       (\<exists>lp' out. proxy_iteration pc env' sig sel (xs @ [t0, t1, t2]) lp = Some (lp', out)))"
proof -
  obtain pc lp0 out d where b: "proxy_boot be env = Some (Boot_running pc lp0 out)" "upstream_if pc = Some d"
    "Heap_past 1 \<in> set out"
    using boot_shipped [OF assms] by blast
  obtain o3 where s: "proxy_start pc env DEFAULT_ROBUSTNESS (be_rest be) (be_now be) = Some (lp0, o3)"
    using proxy_boot_running [OF b(1)] by metis
  have c: "conf_ok pc" by (rule boot_conf_ok [OF b(1)])
  have ok: "proxy_ok pc (lp_px lp)" if "proxy_reach pc lp0 lp" for lp
    using proxy_reach_ok [OF s c assms(5) that] by (simp add: proxy_ok_def)
  have "\<exists>px out. acceptIgmp pc env' n buf (lp_px lp) = Some (px, out)"
    if "proxy_reach pc lp0 lp" "length buf = RECV_BUF_SIZE" for lp env' n buf
    using acceptIgmp_total [OF _ _ _ _ c b(2) that(2), of "lp_px lp" env' n]
      proxy_reach_ok [OF s c assms(5) that(1)] by blast
  moreover have "\<exists>lp' out. proxy_iteration pc env' sig sel (xs @ [t0, t1, t2]) lp = Some (lp', out)"
    if "proxy_reach pc lp0 lp" "lp_timeout_null lp \<longrightarrow> timer_nextTimer (px_callouts (lp_px lp)) = - 1"
      "cache_ok env'" "\<forall>n buf. sel = Sel_packet n buf \<longrightarrow> length buf = RECV_BUF_SIZE" "clock_settles t0 t1 t2"
    for lp env' sig sel xs t0 t1 t2
    using proxy_iteration_defined [OF ok [OF that(1)] c b(2) that(3,5,2,4)] .
  ultimately show ?thesis using b(1,3) by blast
qed

text \<open>C37: The virtual interfaces are numbered from 0 without gaps, so that every number is a bit of a
  route's interface set, and nothing else of the configured interfaces changes; the upstream index
  is that of the first usable interface that is configured as upstream, -1 if there is none.  This
  holds for up to 32 such interfaces; with more of them the initialisation writes behind the end of
  the vector, because the error message for a full vector does not stop it.\<close>

theorem vifs_numbered:
  assumes "configureVifs vifconf (buildIfVc (be_wanif be) (be_local_ip be) (be_reqs be)) = Some ifs0"
  shows "if MAXVIFS < length (filter vif_if ifs0) then igmpProxyInit be vifconf = None
    else \<exists>up ifs out. igmpProxyInit be vifconf = Some (up, ifs, out) \<and>
      length ifs = length ifs0 \<and> (\<forall>i < length ifs. \<exists>x. ifs ! i = (ifs0 ! i)\<lparr>if_index := x\<rparr>) \<and>
      map if_index (filter vif_if ifs) = map of_nat [0..<length (filter vif_if ifs)] \<and>
      length (filter vif_if ifs) \<le> MAXVIFS \<and>
      (if \<forall>d \<in> set ifs. \<not> (usable_if d \<and> if_state d = IF_STATE_UPSTREAM) then up = - 1
       else \<exists>i < length ifs. up = int i \<and> usable_if (ifs ! i) \<and> if_state (ifs ! i) = IF_STATE_UPSTREAM \<and>
         (\<forall>j < i. \<not> (usable_if (ifs ! j) \<and> if_state (ifs ! j) = IF_STATE_UPSTREAM)))"
proof (cases "MAXVIFS < length (filter vif_if ifs0)")
  case True
  then show ?thesis
    using assms create_vifs_overflow [of 0 ifs0 0 "- 1"] by (simp add: igmpProxyInit_def)
next
  case False
  then obtain up ifs o1 where v: "create_vifs 0 (- 1) 0 ifs0 = Some (up, ifs, o1)"
    using create_vifs_defined [of 0 ifs0 0 "- 1"] by auto
  note sp = create_vifs_spec [OF v]
  have u: "if \<forall>d \<in> set ifs. \<not> (usable_if d \<and> if_state d = IF_STATE_UPSTREAM) then up = - 1
    else \<exists>i < length ifs. up = int i \<and> usable_if (ifs ! i) \<and> if_state (ifs ! i) = IF_STATE_UPSTREAM \<and>
      (\<forall>j < i. \<not> (usable_if (ifs ! j) \<and> if_state (ifs ! j) = IF_STATE_UPSTREAM))"
    using sp first_index_none [of upstream_desc 0 ifs] first_index_some [of upstream_desc 0 ifs] by auto
  have i: "igmpProxyInit be vifconf = Some (up, ifs, Mrt_init # o1)"
    using assms v by (simp add: igmpProxyInit_def)
  show ?thesis
    unfolding if_not_P [OF False]
    by (rule exI [of _ up], rule exI [of _ ifs], rule exI [of _ "Mrt_init # o1"], intro conjI i u)
      (use sp in simp_all)
qed

definition sample_boot :: boot_env where
  "sample_boot = \<lparr>be_file = Some shipped_conf, be_wanif = str ''eth1'', be_if_local = str ''br0'',
     be_local_ip = inetFmt 0x0100a8c0,
     be_reqs = [\<lparr>ifr_name = str ''eth1'', ifr_inet = True, ifr_addr = 0x0202000a, ifr_netmask = 0x00ffffff, ifr_flags = 0x1043\<rparr>,
       \<lparr>ifr_name = str ''br0'', ifr_inet = True, ifr_addr = 0x0100a8c0, ifr_netmask = 0x00ffffff, ifr_flags = 0x1043\<rparr>],
     be_wan_ip = True, be_wan_port = 0, be_rest = replicate 8172 0, be_now = (0, 0)\<rparr>"

lemma sample_boot_ok:
  "be_file sample_boot = Some shipped_conf" "lan_ok sample_boot" "length (be_reqs sample_boot) \<le> MAXVIFS"
  "\<exists>r \<in> set (be_reqs sample_boot). wan_req sample_boot r" "length (be_rest sample_boot) = RECV_BUF_SIZE - 20"
proof -
  have "str ''eth1'' \<noteq> str ''br0''" by code_simp
  then show "lan_ok sample_boot" by (simp add: lan_ok_def sample_boot_def)
qed (simp_all add: sample_boot_def wan_req_def)

theorem daemon_invariant_witness:
  "\<exists>pc lp0 out lp. proxy_boot sample_boot sample_penv = Some (Boot_running pc lp0 out) \<and>
     proxy_reach pc lp0 lp \<and> routes_ok (px_routes (lp_px lp)) \<and> callouts_ok (px_callouts (lp_px lp))"
proof -
  obtain pc lp0 out where b: "proxy_boot sample_boot sample_penv = Some (Boot_running pc lp0 out)"
    using boot_shipped [OF sample_boot_ok] by blast
  with daemon_invariant [OF b sample_boot_ok(5) proxy_reach.start] proxy_reach.start show ?thesis by blast
qed

theorem daemon_handles_packets_witness:
  "\<exists>pc lp0 out px out' lp'. proxy_boot sample_boot sample_penv = Some (Boot_running pc lp0 out) \<and>
     acceptIgmp pc sample_penv 28 (replicate 8192 0xff) (lp_px lp0) = Some (px, out') \<and>
     (\<exists>out''. proxy_iteration pc sample_penv False (Sel_packet 28 (replicate 8192 0xff)) [(7, 0), (7, 10), (7, 20)] lp0 =
       Some (lp', out''))"
proof -
  obtain pc lp0 out where b: "proxy_boot sample_boot sample_penv = Some (Boot_running pc lp0 out)"
    "\<forall>lp env' n buf. proxy_reach pc lp0 lp \<and> length buf = RECV_BUF_SIZE \<longrightarrow>
       (\<exists>px out. acceptIgmp pc env' n buf (lp_px lp) = Some (px, out))"
    "\<forall>lp env' sig sel xs t0 t1 t2. proxy_reach pc lp0 lp \<and>
       (lp_timeout_null lp \<longrightarrow> timer_nextTimer (px_callouts (lp_px lp)) = - 1) \<and> cache_ok env' \<and>
       (\<forall>n buf. sel = Sel_packet n buf \<longrightarrow> length buf = RECV_BUF_SIZE) \<and> clock_settles t0 t1 t2 \<longrightarrow>
       (\<exists>lp' out. proxy_iteration pc env' sig sel (xs @ [t0, t1, t2]) lp = Some (lp', out))"
    using daemon_handles_packets [OF sample_boot_ok, of sample_penv] by (elim exE conjE)
  have n: "\<not> lp_timeout_null lp0"
    by (rule proxy_boot_running [OF b(1)]) (auto simp: proxy_start_def split: prod.splits Option.bind_splits)
  have "\<exists>lp' out''. proxy_iteration pc sample_penv False (Sel_packet 28 (replicate 8192 0xff))
      ([] @ [(7, 0), (7, 10), (7, 20)]) lp0 = Some (lp', out'')"
    by (rule b(3) [rule_format])
      (simp add: n proxy_reach.start cache_ok_def sample_penv_def clock_settles_def usec_of_def)
  moreover have "\<exists>px out'. acceptIgmp pc sample_penv 28 (replicate 8192 0xff) (lp_px lp0) = Some (px, out')"
    by (rule b(2) [rule_format]) (simp add: proxy_reach.start)
  ultimately show ?thesis using b(1) by auto
qed

theorem vifs_numbered_witness:
  "\<exists>up ifs out. igmpProxyInit sample_boot (shipped_vifs (str ''eth1'') (str ''br0'')) = Some (up, ifs, out) \<and>
     map if_index (filter vif_if ifs) = map of_nat [0..<length (filter vif_if ifs)]"
proof -
  have r: "be_wanif sample_boot = str ''eth1''" "be_if_local sample_boot = str ''br0''"
    by (simp_all add: sample_boot_def)
  obtain ifs0 where c: "configureVifs (shipped_vifs (str ''eth1'') (str ''br0''))
      (buildIfVc (be_wanif sample_boot) (be_local_ip sample_boot) (be_reqs sample_boot)) = Some ifs0"
    "length ifs0 = length (be_reqs sample_boot)"
    using configureVifs_shipped [OF sample_boot_ok(2,3)] r by auto
  then have "\<not> MAXVIFS < length (filter vif_if ifs0)"
    using sample_boot_ok(3) length_filter_le [of vif_if ifs0] by simp
  with vifs_numbered [OF c(1)] show ?thesis by auto
qed

end
