(* ===== verification/Spec2Isabelle.thy ===== *)
theory Spec2Isabelle
  imports Dhcp_Exchange Dhcp_Script Igmp_Daemon
begin

text \<open>
  Verification of two network daemons of the router user space \<^verbatim>\<open>userapps_t24000\<close>: the DHCP server
  and client of \<^verbatim>\<open>udhcp-0.9.8\<close>, and the IGMP proxy of \<^verbatim>\<open>igmpproxy\<close>.  Both are built for a
  little-endian 32-bit ARM core with unsigned \<^verbatim>\<open>char\<close>, in the configuration
  \<^verbatim>\<open>configs/mv6281\<close>; conditional code follows that configuration.

  \<^bold>\<open>Conventions.\<close>  Machine integers are words of their width.  A C array is a list with checked
  accesses (\<open>rd\<close>, \<open>rd_n\<close>, \<open>wr\<close> in \<^verbatim>\<open>Prelude\<close>), so that a definition in the option monad is \<open>None\<close>
  when the code leaves an array or follows a null pointer.  Writes behind a heap block and accesses
  to freed memory that the code survives are effects of their own.  What a function reads from
  outside (clock, sockets, files, library functions without source) is a record argument; what
  it does to the outside is a list of effects in order.  Loops are recursive functions with a
  termination proof, except six that may run forever, which are partial functions with \<open>None\<close> for
  no result: the address search of the server, the search for a free service network in the
  client, the token loop and the two parser loops of the IGMP configuration, and \<open>fill_values\<close> of
  the script, which would not end for an option type of width zero.  That they return, under the
  conditions stated there, is part of \<open>find_address_correct\<close>, \<open>handle_packet_total\<close>,
  \<open>check_private_ip_result\<close>, \<open>loadConfig_returns\<close> and \<open>env_vars_fit\<close>.
  No fuel is used, but the inner loop of the proxy, which runs as long as the clock runs ahead of
  it, takes the list of its clock readings; \<open>daemon_handles_packets\<close> says which lists are enough.

  \<^bold>\<open>DHCP.\<close>
  \<^item> \<^verbatim>\<open>Dhcp_Message\<close> (\<^verbatim>\<open>packet.h\<close>, \<^verbatim>\<open>dhcpd.h\<close>): the message as a record and as bytes.
  \<^item> \<^verbatim>\<open>Dhcp_Options\<close> (\<^verbatim>\<open>options.c\<close>): reading, adding and attaching options.  The locale
    \<open>option_store\<close> is what the packet builders rely on; its interpretation shows that the byte
    area behaves as a list of type-length-value triples.
  \<^item> \<^verbatim>\<open>Dhcp_Packet\<close> (\<^verbatim>\<open>packet.c\<close>, \<open>get_raw_packet\<close> of \<^verbatim>\<open>clientpacket.c\<close>): checksum, raw frames,
    receiving; a frame that was sent is received as the same message.
  \<^item> \<^verbatim>\<open>Dhcp_Leases\<close> (\<^verbatim>\<open>leases.c\<close>): the lease tables and the address search.  The locale
    \<open>lease_store\<close> holds the laws of the table; no address and no client is in it twice.
  \<^item> \<^verbatim>\<open>Dhcp_Files\<close>, \<^verbatim>\<open>Dhcp_Config\<close> (\<^verbatim>\<open>files.c\<close>): lease files and configuration file; exactly the
    leases that pass the range test survive a restart, and every configuration file yields
    well-formed options.
  \<^item> \<^verbatim>\<open>Dhcp_Server\<close>, \<^verbatim>\<open>Dhcp_Server_Correct\<close> (\<^verbatim>\<open>serverpacket.c\<close>, \<^verbatim>\<open>dhcpd.c\<close>): the handlers and the
    main loop as a step function with reachability.  From every configuration file and lease file
    every reachable table satisfies the invariant, every well-formed request is handled, every reply answers its request, an acknowledged
    address belongs to nobody else, and an offer is acknowledged when it is asked for.
  \<^item> \<^verbatim>\<open>Dhcp_Client\<close> (\<^verbatim>\<open>clientpacket.c\<close>, \<^verbatim>\<open>dhcpc.c\<close>): the messages and the state machine of the
    client.  Only an ACK of its own transaction binds it, and a server that has fallen silent is
    given up after a bounded number of time-outs.
  \<^item> \<^verbatim>\<open>Dhcp_Script\<close> (\<^verbatim>\<open>script.c\<close>, \<open>set_ifconfig\<close> of \<^verbatim>\<open>lib/ul_lib/network.c\<close>): the environment
    strings, the sizes of their blocks, and the configuration of interface, gateway and name
    servers from an ACK.
  \<^item> \<^verbatim>\<open>Dhcp_Exchange\<close>: client and server together.  The request frame of a client, received as a
    datagram by the main loop of a server that holds its offer, leads to a frame that binds the
    client, and both agree on address and lease time.

  \<^bold>\<open>IGMP.\<close>
  \<^item> \<^verbatim>\<open>Igmp_Callout\<close> (\<^verbatim>\<open>callout.c\<close>): the delta list of timers.  The locale \<open>timer_queue\<close> is its contract,
    an agenda of absolute deadlines, which the delta list refines.
  \<^item> \<^verbatim>\<open>Igmp_Net\<close> (\<^verbatim>\<open>lib.c\<close>, \<^verbatim>\<open>ifvc.c\<close>, \<^verbatim>\<open>igmp.c\<close>): addresses, interfaces, IGMP messages.
  \<^item> \<^verbatim>\<open>Igmp_Switch\<close> (\<^verbatim>\<open>mc_switch.c\<close>, \<^verbatim>\<open>salsa2.c\<close>): membership and the table of the switch, which
    refines a map from group addresses to members.
  \<^item> \<^verbatim>\<open>Igmp_Route\<close> (\<^verbatim>\<open>rttable.c\<close>, \<^verbatim>\<open>mroute-api.c\<close>, \<^verbatim>\<open>mcgroup.c\<close>): the routing table; it stays sorted, and
    the route of a group that nobody reports is removed.
  \<^item> \<^verbatim>\<open>Igmp_Proxy\<close> (\<^verbatim>\<open>request.c\<close>, \<open>acceptIgmp\<close>, main loop of \<^verbatim>\<open>igmpproxy.c\<close>): handlers, timeouts and the
    loop as a step relation; every message and every timeout is handled.
  \<^item> \<^verbatim>\<open>Igmp_Config\<close> (\<^verbatim>\<open>confread.c\<close>, \<^verbatim>\<open>config.c\<close>): the token reader, which refines a scan of the whole
    file, and the parser.
  \<^item> \<^verbatim>\<open>Igmp_Daemon\<close> (\<open>igmpProxyInit\<close>, \<open>main\<close>, \<open>addVIF\<close>): the start from the configuration file and the
    interfaces, the invariant of every state the daemon then reaches, and that every iteration of
    its loop returns there.

  \<^bold>\<open>Interaction.\<close>  Server and client exchange messages through \<open>raw_packet\<close>, \<open>kernel_packet\<close> and the
  receive functions; the server keeps its leases in a file across restarts; the client hands an
  ACK to the script.  In the proxy a report changes the switch and the routing table, which
  joins the group upstream and installs a kernel route; timers of the callout queue age both.

  \<^bold>\<open>Defects.\<close>  Where the code is wrong the model is wrong in the same way, and a theorem says how:
  among them \<open>bound_needs_mask\<close>, \<open>env_vars_fit\<close>, \<open>get_raw_packet_short_total_length\<close>,
  \<open>offer_reserved_address\<close>, \<open>quick_leave_forgets_join\<close>, \<open>empty_queue_crashes_loop\<close>,
  \<open>find_address_diverges\<close>, \<open>get_option_overload_misread\<close> and \<open>twinip_router_overread\<close>.

  \<^bold>\<open>Not modelled.\<close>  Command lines, signal handlers, pid files, \<^verbatim>\<open>arpping.c\<close>, \<^verbatim>\<open>socket.c\<close> and
  \<^verbatim>\<open>dumpleases.c\<close>: system calls whose results are arguments of the model, and a stand-alone tool.
  \<^verbatim>\<open>dhcplib.c\<close> and most of \<^verbatim>\<open>lib/ul_lib\<close> read and write the router configuration through library
  functions without source.  The variants for other products (other switch chips, other DHCP
  options) are not compiled here.  The remaining directories are third-party programs, the
  kernel, and binaries without source.
\<close>

end
